(* ===== verification/Prelude.thy ===== *)
theory Prelude
  imports Main "HOL-Library.Multiset"
begin

section \<open>Prelude: results, shared collections and generic lemmas\<close>

text \<open>
  What every component theory shares: the result type in which a raised exception is a value
  (\<open>Inl\<close> the exception, \<open>Inr\<close> the returned value), its sequencing combinator, the
  collections of rewrite rules the component proofs use, and generic facts on lists, maps and
  sums that are not about the exchange.
\<close>

named_theorems exec_defs \<open>definitions unfolded to run an operation on a concrete state\<close>
named_theorems inv_simps \<open>rewrite rules for the invariants of the components\<close>

subsection \<open>Results\<close>

type_synonym ('e, 'a) result = "'e + 'a"

definition bind_result :: "('e, 'a) result \<Rightarrow> ('a \<Rightarrow> ('e, 'b) result) \<Rightarrow> ('e, 'b) result" where
  "bind_result r f = (case r of Inl e \<Rightarrow> Inl e | Inr x \<Rightarrow> f x)"

lemma bind_result_simps [simp]:
  "bind_result (Inl e) f = Inl e"
  "bind_result (Inr x) f = f x"
  by (simp_all add: bind_result_def)

lemma bind_result_Inr:
  "bind_result r f = Inr y \<longleftrightarrow> (\<exists>x. r = Inr x \<and> f x = Inr y)"
  by (cases r) auto

lemma bind_result_Inl:
  "bind_result r f = Inl e \<longleftrightarrow> r = Inl e \<or> (\<exists>x. r = Inr x \<and> f x = Inl e)"
  by (cases r) auto

lemma bind_result_InrE:
  assumes "bind_result r f = Inr y"
  obtains x where "r = Inr x" "f x = Inr y"
  using assms by (auto simp: bind_result_Inr)

definition is_ok :: "('e, 'a) result \<Rightarrow> bool" where
  "is_ok r \<longleftrightarrow> (case r of Inl e \<Rightarrow> False | Inr x \<Rightarrow> True)"

lemma is_ok_simps [simp]: "\<not> is_ok (Inl e)" "is_ok (Inr x)"
  by (simp_all add: is_ok_def)

lemma is_ok_iff: "is_ok r \<longleftrightarrow> (\<exists>x. r = Inr x)"
  by (cases r) auto

subsection \<open>Lists\<close>

lemma sum_list_nonneg_rat: "(\<And>x. x \<in> set xs \<Longrightarrow> 0 \<le> f x) \<Longrightarrow> 0 \<le> (\<Sum>x\<leftarrow>xs. f x :: 'a::linordered_idom)"
  by (induction xs) auto

lemma sum_list_upd:
  "i < length xs \<Longrightarrow> (\<Sum>x\<leftarrow>xs[i := y]. f x) = (\<Sum>x\<leftarrow>xs. f x) - f (xs ! i) + (f y :: 'a::linordered_idom)"
proof (induction xs arbitrary: i)
  case Nil
  then show ?case by simp
next
  case (Cons a xs)
  then show ?case by (cases i) auto
qed

lemma list_all_take: "list_all P xs \<Longrightarrow> list_all P (take n xs)"
  by (auto simp: list_all_iff dest: in_set_takeD)

lemma sorted_wrt_filter_sub: "sorted_wrt R xs \<Longrightarrow> sorted_wrt R (filter P xs)"
  by (induction xs) auto

subsection \<open>Sums over finite maps\<close>

definition dict_sum :: "('v \<Rightarrow> 'a::comm_monoid_add) \<Rightarrow> ('k \<rightharpoonup> 'v) \<Rightarrow> 'a" where
  "dict_sum f m = (\<Sum>k\<in>dom m. f (the (m k)))"

lemma dict_sum_upd_new:
  "finite (dom m) \<Longrightarrow> m k = None \<Longrightarrow> dict_sum f (m(k \<mapsto> v)) = dict_sum f m + f v"
proof -
  assume fin: "finite (dom m)" and none: "m k = None"
  then have "k \<notin> dom m" by auto
  then have "(\<Sum>j\<in>insert k (dom m). f (the ((m(k \<mapsto> v)) j))) = f v + (\<Sum>j\<in>dom m. f (the ((m(k \<mapsto> v)) j)))"
    using fin by simp
  also have "(\<Sum>j\<in>dom m. f (the ((m(k \<mapsto> v)) j))) = (\<Sum>j\<in>dom m. f (the (m j)))"
    using \<open>k \<notin> dom m\<close> by (intro sum.cong) auto
  finally show ?thesis by (simp add: dict_sum_def add.commute)
qed

lemma dict_sum_upd:
  fixes f :: "'v \<Rightarrow> 'a::ab_group_add"
  assumes "finite (dom m)" and "m k = Some u"
  shows "dict_sum f (m(k \<mapsto> v)) = dict_sum f m - f u + f v"
proof -
  have k: "k \<in> dom m" using assms by auto
  have "dict_sum f (m(k \<mapsto> v)) = f v + (\<Sum>j\<in>dom m - {k}. f (the ((m(k \<mapsto> v)) j)))"
    using assms(1) k by (simp add: dict_sum_def sum.remove [of _ k] insert_absorb)
  also have "(\<Sum>j\<in>dom m - {k}. f (the ((m(k \<mapsto> v)) j))) = (\<Sum>j\<in>dom m - {k}. f (the (m j)))"
    by (intro sum.cong) auto
  also have "\<dots> = dict_sum f m - f u"
    using assms k by (simp add: dict_sum_def sum.remove [of _ k])
  finally show ?thesis by (simp only: add.commute)
qed

subsection \<open>Programs: state and exceptions\<close>

text \<open>
  A handler is a function from the state it runs in to what it returned or raised and the state
  it left. The state is kept on both exits, because an exception that is caught later does not
  undo the writes made before it; \<open>atomicP\<close> is the transaction scope that does.
\<close>

type_synonym ('s, 'e, 'a) prog = "'s \<Rightarrow> ('e, 'a) result \<times> 's"

definition retP :: "'a \<Rightarrow> ('s, 'e, 'a) prog" where
  "retP x s = (Inr x, s)"

definition raiseP :: "'e \<Rightarrow> ('s, 'e, 'a) prog" where
  "raiseP e s = (Inl e, s)"

definition bindP :: "('s, 'e, 'a) prog \<Rightarrow> ('a \<Rightarrow> ('s, 'e, 'b) prog) \<Rightarrow> ('s, 'e, 'b) prog" where
  "bindP m f s = (case m s of (Inl e, t) \<Rightarrow> (Inl e, t) | (Inr x, t) \<Rightarrow> f x t)"

definition seqP :: "('s, 'e, 'a) prog \<Rightarrow> ('s, 'e, 'b) prog \<Rightarrow> ('s, 'e, 'b) prog" where
  "seqP m n = bindP m (\<lambda>_. n)"

definition getP :: "('s \<Rightarrow> 'a) \<Rightarrow> ('s, 'e, 'a) prog" where
  "getP f s = (Inr (f s), s)"

definition modP :: "('s \<Rightarrow> 's) \<Rightarrow> ('s, 'e, unit) prog" where
  "modP f s = (Inr (), f s)"

definition tryP :: "('s, 'e, 'a) prog \<Rightarrow> ('e \<Rightarrow> ('s, 'e, 'a) prog) \<Rightarrow> ('s, 'e, 'a) prog" where
  "tryP m h s = (case m s of (Inl e, t) \<Rightarrow> h e t | (Inr x, t) \<Rightarrow> (Inr x, t))"

definition atomicP :: "('s, 'e, 'a) prog \<Rightarrow> ('s, 'e, 'a) prog" where
  "atomicP m s = (case m s of (Inl e, t) \<Rightarrow> (Inl e, s) | (Inr x, t) \<Rightarrow> (Inr x, t))"

fun forP :: "'a list \<Rightarrow> ('a \<Rightarrow> ('s, 'e, unit) prog) \<Rightarrow> ('s, 'e, unit) prog" where
  "forP [] f = retP ()"
| "forP (x # xs) f = seqP (f x) (forP xs f)"

lemmas prog_defs = retP_def raiseP_def bindP_def seqP_def getP_def modP_def tryP_def atomicP_def

declare retP_def [exec_defs] raiseP_def [exec_defs] bindP_def [exec_defs] seqP_def [exec_defs]
  getP_def [exec_defs] modP_def [exec_defs] tryP_def [exec_defs] atomicP_def [exec_defs]

text \<open>\<open>preserves I m\<close>: on either exit the state satisfies \<open>I\<close> if it did on entry.\<close>

definition preserves :: "('s \<Rightarrow> bool) \<Rightarrow> ('s, 'e, 'a) prog \<Rightarrow> bool" where
  "preserves I m \<longleftrightarrow> (\<forall>s. I s \<longrightarrow> I (snd (m s)))"

named_theorems preserves_intros \<open>rules that an operation preserves an invariant\<close>

lemma preservesI: "(\<And>s. I s \<Longrightarrow> I (snd (m s))) \<Longrightarrow> preserves I m"
  by (simp add: preserves_def)

lemma preservesD: "preserves I m \<Longrightarrow> I s \<Longrightarrow> I (snd (m s))"
  by (simp add: preserves_def)

lemma preserves_ret [preserves_intros]: "preserves I (retP x)"
  by (simp add: preserves_def retP_def)

lemma preserves_raise [preserves_intros]: "preserves I (raiseP e)"
  by (simp add: preserves_def raiseP_def)

lemma preserves_get [preserves_intros]: "preserves I (getP f)"
  by (simp add: preserves_def getP_def)

lemma preserves_mod: "(\<And>s. I s \<Longrightarrow> I (f s)) \<Longrightarrow> preserves I (modP f)"
  by (simp add: preserves_def modP_def)

lemma preserves_bind [preserves_intros]:
  "preserves I m \<Longrightarrow> (\<And>x. preserves I (f x)) \<Longrightarrow> preserves I (bindP m f)"
  unfolding preserves_def bindP_def
  by (auto split: prod.split sum.split)

lemma preserves_seq [preserves_intros]:
  "preserves I m \<Longrightarrow> preserves I n \<Longrightarrow> preserves I (seqP m n)"
  unfolding seqP_def by (rule preserves_bind)

lemma preserves_try [preserves_intros]:
  "preserves I m \<Longrightarrow> (\<And>e. preserves I (h e)) \<Longrightarrow> preserves I (tryP m h)"
  unfolding preserves_def tryP_def
  by (auto split: prod.split sum.split)

lemma preserves_atomic [preserves_intros]: "preserves I m \<Longrightarrow> preserves I (atomicP m)"
  unfolding preserves_def atomicP_def
  by (auto split: prod.split sum.split)

lemma preserves_for [preserves_intros]:
  "(\<And>x. x \<in> set xs \<Longrightarrow> preserves I (f x)) \<Longrightarrow> preserves I (forP xs f)"
  by (induction xs) (auto intro: preserves_intros)

lemma preserves_if [preserves_intros]:
  "(b \<Longrightarrow> preserves I m) \<Longrightarrow> (\<not> b \<Longrightarrow> preserves I n) \<Longrightarrow> preserves I (if b then m else n)"
  by simp

lemma preserves_option [preserves_intros]:
  "preserves I m \<Longrightarrow> (\<And>x. preserves I (f x)) \<Longrightarrow>
    preserves I (case c of None \<Rightarrow> m | Some x \<Rightarrow> f x)"
  by (simp split: option.split)

lemma atomic_rollback: "fst (m s) = Inl e \<Longrightarrow> atomicP m s = (Inl e, s)"
  by (auto simp: atomicP_def split: prod.split)

end
