(* ===== verification/Numerics.thy ===== *)
theory Numerics
  imports Prelude Complex_Main
begin

section \<open>Numbers: Python decimals, IEEE doubles and PostgreSQL numerics\<close>

text \<open>
  Every number of the program is a rational. What differs is the rounding that each operation
  applies to the exact result:
  \<^item> a finite double is the rational it denotes and every double operation is the exact one
    followed by \<open>rnd\<close>, rounding to 53 significant binary digits, ties to even. The exponent is
    unbounded, so overflow and subnormal numbers are outside the model (prices and quantities
    are far from both);
  \<^item> \<open>float(d)\<close> of a decimal or an integer is \<open>rnd d\<close>, \<open>int(round(x))\<close> is
    \<open>rhe x\<close>, and \<open>Decimal(str(x))\<close> is \<open>dec_of_float x\<close>, the shortest decimal that
    reads back as the double \<open>x\<close>;
  \<^item> \<open>Decimal\<close> addition, subtraction and multiplication are exact, which they are up to the
    28 significant digits of Python's default context;
  \<^item> a column declared \<open>Numeric(36, 18)\<close> stores \<open>numeric18 x\<close>, the nearest multiple of
    \<open>10 ^ - 18\<close>, ties away from zero, as PostgreSQL rounds.
\<close>

subsection \<open>Rounding to an integer, ties to even\<close>

definition rhe :: "rat \<Rightarrow> int" where
  "rhe x = (let f = \<lfloor>x\<rfloor>; d = x - of_int f in
     if d < 1 / 2 then f else if 1 / 2 < d then f + 1 else if even f then f else f + 1)"

lemma rhe_cases: "rhe x = \<lfloor>x\<rfloor> \<or> rhe x = \<lfloor>x\<rfloor> + 1"
  by (simp add: rhe_def Let_def)

lemma rhe_of_int [simp]: "rhe (of_int n) = n"
  by (simp add: rhe_def)

lemma rhe_numeral [simp]: "rhe 0 = 0" "rhe 1 = 1" "rhe (numeral k) = numeral k"
  using rhe_of_int [of 0] rhe_of_int [of 1] rhe_of_int [of "numeral k"] by simp_all

lemma rhe_error: "\<bar>of_int (rhe x) - x\<bar> \<le> 1 / 2"
proof -
  have "of_int \<lfloor>x\<rfloor> \<le> x" "x < of_int \<lfloor>x\<rfloor> + 1"
    using floor_correct [of x] by simp_all
  moreover have "rhe x = \<lfloor>x\<rfloor> \<and> x - of_int \<lfloor>x\<rfloor> \<le> 1 / 2 \<or>
      rhe x = \<lfloor>x\<rfloor> + 1 \<and> 1 / 2 \<le> x - of_int \<lfloor>x\<rfloor>"
    by (simp add: rhe_def Let_def)
  ultimately show ?thesis by (elim disjE conjE) (simp_all add: abs_le_iff)
qed

lemma rhe_mono: "x \<le> y \<Longrightarrow> rhe x \<le> rhe y"
proof -
  assume xy: "x \<le> y"
  then have fl: "\<lfloor>x\<rfloor> \<le> \<lfloor>y\<rfloor>" by (rule floor_mono)
  show ?thesis
  proof (cases "\<lfloor>x\<rfloor> = \<lfloor>y\<rfloor>")
    case True
    with xy show ?thesis by (auto simp: rhe_def Let_def)
  next
    case False
    with fl have "\<lfloor>x\<rfloor> + 1 \<le> \<lfloor>y\<rfloor>" by simp
    moreover have "rhe x \<le> \<lfloor>x\<rfloor> + 1" using rhe_cases [of x] by auto
    moreover have "\<lfloor>y\<rfloor> \<le> rhe y" using rhe_cases [of y] by auto
    ultimately show ?thesis by linarith
  qed
qed

lemma rhe_unique: "\<bar>x - of_int n\<bar> < 1 / 2 \<Longrightarrow> rhe x = n"
proof -
  assume close: "\<bar>x - of_int n\<bar> < 1 / 2"
  have "\<bar>of_int (rhe x) - x\<bar> \<le> 1 / 2" by (rule rhe_error)
  with close have "\<bar>of_int (rhe x) - of_int n :: rat\<bar> < 1" by linarith
  then show ?thesis by (simp flip: of_int_diff)
qed

subsection \<open>The magnitude of a positive rational in a base\<close>

function ndigits :: "int \<Rightarrow> int \<Rightarrow> int" where
  "ndigits b n = (if n < b \<or> b < 2 then 1 else ndigits b (n div b) + 1)"
  by pat_completeness auto
termination
  by (relation "measure (\<lambda>(b, n). nat n)") (auto simp: nat_less_iff int_div_less_self)

declare ndigits.simps [simp del]

lemma ndigits_pos: "1 \<le> ndigits b n"
proof (induction b n rule: ndigits.induct)
  case (1 b n)
  then show ?case by (subst ndigits.simps) (simp, linarith)
qed

lemma ndigits_bounds:
  "2 \<le> b \<Longrightarrow> 1 \<le> n \<Longrightarrow>
    b ^ nat (ndigits b n - 1) \<le> n \<and> n < b ^ nat (ndigits b n)"
proof (induction b n rule: ndigits.induct)
  case (1 b n)
  show ?case
  proof (cases "n < b")
    case True
    with 1 show ?thesis by (simp add: ndigits.simps [of b n])
  next
    case False
    let ?k = "ndigits b (n div b)"
    have q: "1 \<le> n div b" using False "1.prems" by (simp add: int_one_le_iff_zero_less pos_imp_zdiv_pos_iff)
    with 1 False have IH: "b ^ nat (?k - 1) \<le> n div b" "n div b < b ^ nat ?k" by auto
    have k: "1 \<le> ?k" by (rule ndigits_pos)
    have n: "n = b * (n div b) + n mod b" "0 \<le> n mod b" "n mod b < b" using "1.prems" by simp_all
    have "b ^ nat ?k = b * b ^ nat (?k - 1)"
      using k by (simp flip: power_Suc) (simp add: Suc_nat_eq_nat_zadd1)
    also have "\<dots> \<le> b * (n div b)" using IH(1) "1.prems" by simp
    finally have lo: "b ^ nat ?k \<le> n" using n by linarith
    have "n < b * (n div b) + b" using n by linarith
    also have "\<dots> = b * (n div b + 1)" by (simp add: algebra_simps)
    also have "\<dots> \<le> b * b ^ nat ?k" using IH(2) "1.prems" by simp
    also have "\<dots> = b ^ nat (?k + 1)" using k by (simp add: nat_add_distrib)
    finally have "n < b ^ nat (?k + 1)" .
    with lo False "1.prems" show ?thesis by (simp add: ndigits.simps [of b n])
  qed
qed

definition mag :: "int \<Rightarrow> rat \<Rightarrow> int" where
  "mag b x = (let (p, q) = quotient_of x; k = ndigits b p - ndigits b q in
     if of_int b powi k \<le> x then k else k - 1)"

lemma powi_less_mono: "1 < (b::rat) \<Longrightarrow> b powi m < b powi n \<longleftrightarrow> m < n"
  by (metis linorder_not_less not_less_iff_gr_or_eq power_int_increasing power_int_strict_increasing
      less_eq_rat_def)

lemma powi_le_mono: "1 < (b::rat) \<Longrightarrow> m \<le> n \<Longrightarrow> b powi m \<le> b powi n"
  by (simp add: power_int_increasing)

lemma powi_nat_of_int: "0 \<le> k \<Longrightarrow> (of_int b :: rat) powi k = of_int (b ^ nat k)"
  by (simp add: power_int_def)

lemma mag_bounds:
  assumes "2 \<le> b" and "0 < x"
  shows "of_int b powi (mag b x) \<le> x" and "x < of_int b powi (mag b x + 1)"
proof -
  obtain p q where pq: "quotient_of x = (p, q)" by (cases "quotient_of x")
  then have q: "0 < q" and x: "x = of_int p / of_int q"
    using quotient_of_denom_pos quotient_of_div by blast+
  have p: "0 < p" using assms(2) q x by (simp add: zero_less_divide_iff)
  let ?B = "of_int b :: rat"
  let ?i = "ndigits b p" and ?j = "ndigits b q"
  have B: "1 < ?B" and B0: "?B \<noteq> 0" using assms(1) by simp_all
  have bp: "b ^ nat (?i - 1) \<le> p" "p < b ^ nat ?i" and bq: "b ^ nat (?j - 1) \<le> q" "q < b ^ nat ?j"
    using ndigits_bounds [OF assms(1)] p q by auto
  have P: "?B powi (?i - 1) \<le> of_int p" "of_int p < ?B powi ?i"
    and Q: "?B powi (?j - 1) \<le> of_int q" "of_int q < ?B powi ?j"
    using bp bq ndigits_pos [of b p] ndigits_pos [of b q]
    by (simp_all only: powi_nat_of_int of_int_le_iff of_int_less_iff diff_ge_0_iff_ge order_trans [OF zero_le_one])
  have pos: "0 < ?B powi n" for n using B by (simp add: zero_less_power_int)
  have lower: "?B powi (?i - ?j - 1) \<le> x"
  proof -
    have "?B powi (?i - ?j - 1) * of_int q \<le> ?B powi (?i - ?j - 1) * ?B powi ?j"
      using Q(2) pos by (intro mult_left_mono) (auto intro: less_imp_le)
    also have "\<dots> = ?B powi (?i - 1)" using B0 by (simp flip: power_int_add)
    also have "\<dots> \<le> of_int p" by (rule P)
    finally show ?thesis using q by (simp add: x pos_le_divide_eq)
  qed
  have upper: "x < ?B powi (?i - ?j + 1)"
  proof -
    have "of_int p < ?B powi ?i" by (rule P)
    also have "\<dots> = ?B powi (?i - ?j + 1) * ?B powi (?j - 1)" using B0 by (simp flip: power_int_add)
    also have "\<dots> \<le> ?B powi (?i - ?j + 1) * of_int q"
      using Q(1) pos by (intro mult_left_mono) (auto intro: less_imp_le)
    finally show ?thesis using q by (simp add: x pos_divide_less_eq)
  qed
  show "of_int b powi (mag b x) \<le> x" and "x < of_int b powi (mag b x + 1)"
    using lower upper by (auto simp: mag_def pq Let_def)
qed

lemma mag_unique:
  assumes "2 \<le> b" "0 < x" "of_int b powi m \<le> x" "x < of_int b powi (m + 1)"
  shows "mag b x = m"
proof -
  have B: "1 < (of_int b :: rat)" using assms(1) by simp
  have "of_int b powi m < (of_int b :: rat) powi (mag b x + 1)"
    "of_int b powi (mag b x) < (of_int b :: rat) powi (m + 1)"
    using mag_bounds [OF assms(1,2)] assms(3,4) by linarith+
  then show ?thesis using B by (simp add: powi_less_mono)
qed

lemma mag_mono: "2 \<le> b \<Longrightarrow> 0 < x \<Longrightarrow> x \<le> y \<Longrightarrow> mag b x \<le> mag b y"
proof -
  assume b: "2 \<le> b" and x: "0 < x" and xy: "x \<le> y"
  have "of_int b powi (mag b x) < (of_int b :: rat) powi (mag b y + 1)"
    using mag_bounds(1) [OF b x] mag_bounds(2) [OF b, of y] x xy by linarith
  with b show ?thesis by (simp add: powi_less_mono)
qed

subsection \<open>Rounding to significant digits, ties to even\<close>

definition round_sig :: "int \<Rightarrow> nat \<Rightarrow> rat \<Rightarrow> rat" where
  "round_sig b n x = (if x = 0 then 0 else
     (let u = of_int b powi (mag b \<bar>x\<bar> - int n + 1) in
      sgn x * (of_int (rhe (\<bar>x\<bar> / u)) * u)))"

lemma round_sig_0 [simp]: "round_sig b n 0 = 0"
  by (simp add: round_sig_def)

lemma round_sig_minus: "round_sig b n (- x) = - round_sig b n x"
  by (simp add: round_sig_def Let_def)

lemma round_sig_pos_eq:
  "0 < x \<Longrightarrow> round_sig b n x = of_int (rhe (x / of_int b powi (mag b x - int n + 1)))
     * of_int b powi (mag b x - int n + 1)"
  by (simp add: round_sig_def Let_def)

lemma round_sig_exact:
  assumes "2 \<le> b" and "x = of_int k * of_int b powi s" and "\<bar>k\<bar> < b ^ n"
  shows "round_sig b n x = x"
proof -
  have pos: "round_sig b n y = y"
    if y: "y = of_int j * of_int b powi s" and j: "0 < j" "j < b ^ n" for y :: rat and j
  proof -
    let ?B = "of_int b :: rat"
    have B: "1 < ?B" "?B \<noteq> 0" using assms(1) by simp_all
    have p: "0 < ?B powi e" for e using B by (simp add: zero_less_power_int)
    have y0: "0 < y" using y j p by simp
    have "of_int j < (of_int (b ^ n) :: rat)" using j by (simp only: of_int_less_iff)
    then have "y < ?B powi (int n) * ?B powi s"
      using y p [of s] by (simp add: mult_strict_right_mono)
    also have "\<dots> = ?B powi (int n + s)" using B by (simp add: power_int_add)
    finally have "?B powi (mag b y) < ?B powi (int n + s)"
      using mag_bounds(1) [OF assms(1) y0] by linarith
    then have m: "mag b y - int n + 1 \<le> s" using B by (simp add: powi_less_mono)
    let ?e = "mag b y - int n + 1"
    have "?B powi s = ?B powi (s - ?e) * ?B powi ?e" using B by (simp flip: power_int_add)
    moreover have "?B powi (s - ?e) = of_int (b ^ nat (s - ?e))"
      using m by (intro powi_nat_of_int) simp
    ultimately have eq: "y = of_int (j * b ^ nat (s - ?e)) * ?B powi ?e" using y by simp
    then have "y / ?B powi ?e = of_int (j * b ^ nat (s - ?e))"
      using p [of ?e] by (metis less_irrefl nonzero_mult_div_cancel_right)
    then have "rhe (y / ?B powi ?e) = j * b ^ nat (s - ?e)" by (simp only: rhe_of_int)
    then show ?thesis using round_sig_pos_eq [OF y0] eq by simp
  qed
  consider "k = 0" | "0 < k" | "k < 0" by linarith
  then show ?thesis
  proof cases
    case 1
    with assms(2) show ?thesis by simp
  next
    case 2
    with pos [of x k] assms(2,3) show ?thesis by simp
  next
    case 3
    with pos [of "- x" "- k"] assms(2,3) have "round_sig b n (- x) = - x" by simp
    then show ?thesis by (simp add: round_sig_minus)
  qed
qed

lemma round_sig_range:
  assumes "2 \<le> b" and "1 \<le> n" and "0 < x"
  shows "of_int b powi (mag b x) \<le> round_sig b n x"
    and "round_sig b n x \<le> of_int b powi (mag b x + 1)"
proof -
  let ?B = "of_int b :: rat" and ?e = "mag b x - int n + 1"
  have B: "1 < ?B" "?B \<noteq> 0" using assms(1) by simp_all
  have p: "0 < ?B powi e" for e using B by (simp add: zero_less_power_int)
  have lo: "?B powi (mag b x) = of_int (b ^ (n - 1)) * ?B powi ?e"
    using B assms(2) by (simp add: of_nat_diff flip: power_int_of_nat power_int_add)
  have hi: "?B powi (mag b x + 1) = of_int (b ^ n) * ?B powi ?e"
    using B by (simp flip: power_int_of_nat power_int_add)
  have "of_int (b ^ (n - 1)) \<le> x / ?B powi ?e" "x / ?B powi ?e \<le> of_int (b ^ n)"
    using mag_bounds [OF assms(1,3)] lo hi p [of ?e]
    by (simp_all add: pos_le_divide_eq pos_divide_le_eq)
  then have "b ^ (n - 1) \<le> rhe (x / ?B powi ?e)" "rhe (x / ?B powi ?e) \<le> b ^ n"
    using rhe_mono rhe_of_int by metis+
  then have "of_int (b ^ (n - 1)) \<le> (of_int (rhe (x / ?B powi ?e)) :: rat)"
    "of_int (rhe (x / ?B powi ?e)) \<le> (of_int (b ^ n) :: rat)"
    by (simp_all only: of_int_le_iff)
  then show "?B powi (mag b x) \<le> round_sig b n x" and "round_sig b n x \<le> ?B powi (mag b x + 1)"
    unfolding lo hi round_sig_pos_eq [OF assms(3)] using p [of ?e] by (simp_all add: mult_right_mono)
qed

lemma round_sig_pos: "2 \<le> b \<Longrightarrow> 1 \<le> n \<Longrightarrow> 0 < x \<Longrightarrow> 0 < round_sig b n x"
proof -
  assume *: "2 \<le> b" "1 \<le> n" "0 < x"
  then have "0 < (of_int b :: rat) powi (mag b x)" by (intro zero_less_power_int) simp
  with round_sig_range(1) [OF *] show ?thesis by linarith
qed

lemma round_sig_mono_pos:
  assumes "2 \<le> b" "1 \<le> n" "0 < x" "x \<le> y"
  shows "round_sig b n x \<le> round_sig b n y"
proof (cases "mag b x = mag b y")
  case True
  have "0 < (of_int b :: rat) powi e" for e using assms(1) by (simp add: zero_less_power_int)
  then have "x / of_int b powi (mag b y - int n + 1) \<le> y / of_int b powi (mag b y - int n + 1)"
    using assms(4) by (intro divide_right_mono) (auto intro: less_imp_le)
  then have "rhe (x / of_int b powi (mag b y - int n + 1)) \<le> rhe (y / of_int b powi (mag b y - int n + 1))"
    by (rule rhe_mono)
  then have "(of_int (rhe (x / of_int b powi (mag b y - int n + 1))) :: rat)
      \<le> of_int (rhe (y / of_int b powi (mag b y - int n + 1)))" by (simp only: of_int_le_iff)
  moreover have "0 < y" using assms by simp
  ultimately show ?thesis
    using True assms(3) \<open>\<And>e. 0 < (of_int b :: rat) powi e\<close>
    by (simp add: round_sig_pos_eq mult_right_mono less_imp_le)
next
  case False
  with mag_mono [OF assms(1,3,4)] have "mag b x + 1 \<le> mag b y" by simp
  then have "of_int b powi (mag b x + 1) \<le> (of_int b :: rat) powi (mag b y)"
    using assms(1) by (intro powi_le_mono) auto
  with round_sig_range(2) [OF assms(1-3)] round_sig_range(1) [OF assms(1,2), of y] assms(3,4)
  show ?thesis by linarith
qed

lemma round_sig_mono:
  assumes "2 \<le> b" "1 \<le> n" "x \<le> y"
  shows "round_sig b n x \<le> round_sig b n y"
proof -
  consider "0 < x" | "x \<le> 0" "0 \<le> y" | "y < 0" using assms(3) by linarith
  then show ?thesis
  proof cases
    case 1
    with assms show ?thesis by (simp add: round_sig_mono_pos)
  next
    case 2
    have "0 \<le> round_sig b n z" if "0 \<le> z" for z
      using that round_sig_pos [OF assms(1,2), of z] by (cases "z = 0") auto
    from this [of y] this [of "- x"] 2 show ?thesis by (simp add: round_sig_minus)
  next
    case 3
    with assms round_sig_mono_pos [of b n "- y" "- x"] show ?thesis by (simp add: round_sig_minus)
  qed
qed

lemma round_sig_error:
  assumes "2 \<le> b" "0 < x"
  shows "\<bar>round_sig b n x - x\<bar> \<le> x * of_int b powi (1 - int n) / 2"
proof -
  let ?B = "of_int b :: rat" and ?e = "mag b x - int n + 1"
  have B: "1 < ?B" "?B \<noteq> 0" using assms(1) by simp_all
  have p: "0 < ?B powi e" for e using B by (simp add: zero_less_power_int)
  have "round_sig b n x - x = (of_int (rhe (x / ?B powi ?e)) - x / ?B powi ?e) * ?B powi ?e"
    using p [of ?e] B by (simp add: round_sig_pos_eq [OF assms(2)] left_diff_distrib)
  then have "\<bar>round_sig b n x - x\<bar> = \<bar>of_int (rhe (x / ?B powi ?e)) - x / ?B powi ?e\<bar> * ?B powi ?e"
    using p [of ?e] by (simp add: abs_mult)
  also have "\<dots> \<le> 1 / 2 * ?B powi ?e"
    using p [of ?e] rhe_error by (intro mult_right_mono) auto
  also have "?B powi ?e = ?B powi (mag b x) * ?B powi (1 - int n)"
    using B by (simp add: algebra_simps flip: power_int_add)
  also have "1 / 2 * (?B powi (mag b x) * ?B powi (1 - int n)) \<le> 1 / 2 * (x * ?B powi (1 - int n))"
    using mag_bounds(1) [OF assms] p by (intro mult_left_mono mult_right_mono) (auto intro: less_imp_le)
  finally show ?thesis by simp
qed

subsection \<open>Doubles\<close>

definition rnd :: "rat \<Rightarrow> rat" where
  "rnd x = round_sig 2 53 x"

text \<open>Subtraction and addition as the C and Python runtimes compute them.\<close>

definition dsub :: "rat \<Rightarrow> rat \<Rightarrow> rat" where
  "dsub a b = rnd (a - b)"

definition dmul :: "rat \<Rightarrow> rat \<Rightarrow> rat" where
  "dmul a b = rnd (a * b)"

definition dadd :: "rat \<Rightarrow> rat \<Rightarrow> rat" where
  "dadd a b = rnd (a + b)"

lemma rnd_0 [simp]: "rnd 0 = 0"
  by (simp add: rnd_def)

lemma rnd_minus: "rnd (- x) = - rnd x"
  by (simp add: rnd_def round_sig_minus)

lemma rnd_mono: "x \<le> y \<Longrightarrow> rnd x \<le> rnd y"
  by (simp add: rnd_def round_sig_mono)

lemma rnd_pos [simp]: "0 < rnd x \<longleftrightarrow> 0 < x"
proof
  assume "0 < rnd x"
  then show "0 < x" using rnd_mono [of x 0] by (cases "x \<le> 0") auto
next
  assume "0 < x"
  then show "0 < rnd x" by (simp add: rnd_def round_sig_pos)
qed

lemma rnd_nonneg [simp]: "0 \<le> rnd x \<longleftrightarrow> 0 \<le> x"
  using rnd_pos [of "- x"] by (simp add: rnd_minus not_less [symmetric])

lemma rnd_error: "0 < x \<Longrightarrow> \<bar>rnd x - x\<bar> \<le> x / 2 ^ 53"
  using round_sig_error [of 2 x 53] by (simp add: rnd_def power_int_minus field_simps)

text \<open>A multiple of a power of two with at most 53 significant bits is a double.\<close>

definition grid :: "int \<Rightarrow> rat \<Rightarrow> bool" where
  "grid s x \<longleftrightarrow> (\<exists>k. x = of_int k * 2 powi s)"

lemma rnd_grid: "grid s x \<Longrightarrow> \<bar>x\<bar> < 2 ^ 53 * 2 powi s \<Longrightarrow> rnd x = x"
proof -
  assume "grid s x" and bound: "\<bar>x\<bar> < 2 ^ 53 * 2 powi s"
  then obtain k where k: "x = of_int k * 2 powi s" by (auto simp: grid_def)
  have p: "0 < (2 :: rat) powi s" by simp
  have "\<bar>of_int k :: rat\<bar> < of_int (2 ^ 53)" using bound p by (simp add: k abs_mult)
  then have "\<bar>k\<bar> < 2 ^ 53" by (simp only: of_int_abs [symmetric] of_int_less_iff)
  then show ?thesis unfolding rnd_def using k by (intro round_sig_exact [of 2 _ k s]) auto
qed

lemma rnd_of_int: "\<bar>k\<bar> < 2 ^ 53 \<Longrightarrow> rnd (of_int k) = of_int k"
  unfolding rnd_def by (rule round_sig_exact [of 2 _ k 0]) auto

lemma grid_0 [simp]: "grid s 0"
  by (auto simp: grid_def intro: exI [of _ 0])

lemma grid_add: "grid s x \<Longrightarrow> grid s y \<Longrightarrow> grid s (x + y)"
  by (auto simp: grid_def) (metis distrib_right of_int_add)

lemma grid_minus: "grid s x \<Longrightarrow> grid s (- x)"
  by (auto simp: grid_def) (metis mult_minus_left of_int_minus)

lemma grid_diff: "grid s x \<Longrightarrow> grid s y \<Longrightarrow> grid s (x - y)"
  using grid_add [of s x "- y"] grid_minus [of s y] by simp

lemma dsub_self [simp]: "dsub a a = 0"
  by (simp add: dsub_def)

lemma dsub_pos: "0 < dsub a b \<longleftrightarrow> b < a"
  by (simp add: dsub_def)

lemma dsub_nonneg: "0 \<le> dsub a b \<longleftrightarrow> b \<le> a"
  by (simp add: dsub_def)

subsection \<open>Decimal text of a double\<close>

text \<open>
  \<open>str\<close> of a double prints the fewest significant digits that read back as that double;
  seventeen always suffice, and the last alternative is never reached.
\<close>

definition dec_of_float :: "rat \<Rightarrow> rat" where
  "dec_of_float x =
     (case find (\<lambda>n. rnd (round_sig 10 n x) = x) [1..<18] of
        Some n \<Rightarrow> round_sig 10 n x | None \<Rightarrow> x)"

lemma find_SomeD: "find P xs = Some x \<Longrightarrow> P x \<and> x \<in> set xs"
  by (induction xs) (auto split: if_splits)

lemma rnd_dec_of_float: "rnd x = x \<Longrightarrow> rnd (dec_of_float x) = x"
  by (auto simp: dec_of_float_def split: option.split dest: find_SomeD)

lemma dec_of_float_pos: "0 < x \<Longrightarrow> 0 < dec_of_float x"
  by (auto simp: dec_of_float_def split: option.split dest!: find_SomeD intro!: round_sig_pos)

subsection \<open>Columns of type \<open>Numeric(36, 18)\<close>\<close>

definition numeric18 :: "rat \<Rightarrow> rat" where
  "numeric18 x = sgn x * of_int \<lfloor>\<bar>x\<bar> * 10 ^ 18 + 1 / 2\<rfloor> / 10 ^ 18"

definition dec18 :: "rat \<Rightarrow> bool" where
  "dec18 x \<longleftrightarrow> numeric18 x = x"

lemma numeric18_multiple: "numeric18 (of_int k / 10 ^ 18) = of_int k / 10 ^ 18"
proof -
  have "\<bar>of_int k / 10 ^ 18 :: rat\<bar> * 10 ^ 18 + 1 / 2 = of_int \<bar>k\<bar> + 1 / 2" by simp
  moreover have "\<lfloor>of_int \<bar>k\<bar> + 1 / 2 :: rat\<rfloor> = \<bar>k\<bar>" by (rule floor_unique) simp_all
  ultimately have "\<lfloor>\<bar>of_int k / 10 ^ 18 :: rat\<bar> * 10 ^ 18 + 1 / 2\<rfloor> = \<bar>k\<bar>" by (simp only:)
  then show ?thesis by (simp add: numeric18_def sgn_rat_def abs_if)
qed

lemma dec18_iff: "dec18 x \<longleftrightarrow> (\<exists>k. x = of_int k / 10 ^ 18)"
proof
  assume "dec18 x"
  then have x: "x = sgn x * of_int \<lfloor>\<bar>x\<bar> * 10 ^ 18 + 1 / 2\<rfloor> / 10 ^ 18" by (simp add: dec18_def numeric18_def)
  have "\<exists>j. sgn x = of_int j" by (metis of_int_0 of_int_1 of_int_minus sgn_rat_def)
  then obtain j where "sgn x = of_int j" ..
  with x show "\<exists>k. x = of_int k / 10 ^ 18" by (metis of_int_mult)
qed (use numeric18_multiple in \<open>auto simp only: dec18_def\<close>)

lemma dec18_numeric18: "dec18 (numeric18 x)"
proof -
  have "\<exists>j. sgn x = of_int j" by (metis of_int_0 of_int_1 of_int_minus sgn_rat_def)
  then obtain j where "sgn x = of_int j" ..
  then show ?thesis by (auto simp: dec18_iff numeric18_def simp flip: of_int_mult)
qed

lemma numeric18_id [simp]: "dec18 x \<Longrightarrow> numeric18 x = x"
  by (simp add: dec18_def)

lemma dec18_of_int: "dec18 (of_int k)"
  unfolding dec18_iff by (rule exI [of _ "k * 10 ^ 18"]) simp

lemma dec18_numeral: "dec18 1" "dec18 (numeral k)"
  using dec18_of_int [of 1] dec18_of_int [of "numeral k"] by simp_all

lemma dec18_0 [simp]: "dec18 0"
  by (simp add: dec18_def numeric18_def)

lemma dec18_add [intro]: "dec18 x \<Longrightarrow> dec18 y \<Longrightarrow> dec18 (x + y)"
  by (auto simp: dec18_iff simp flip: add_divide_distrib of_int_add)

lemma dec18_diff [intro]: "dec18 x \<Longrightarrow> dec18 y \<Longrightarrow> dec18 (x - y)"
  by (auto simp: dec18_iff simp flip: diff_divide_distrib of_int_diff)

lemma dec18_int: "dec18 (of_int k)"
  unfolding dec18_iff by (rule exI [of _ "k * 10 ^ 18"]) simp

end
