(* ===== verification/Domain.thy ===== *)
theory Domain
  imports Numerics
begin

section \<open>Domain model: enums, rows and their derived properties\<close>

text \<open>
  The enums of \<open>models/enums.py\<close> as datatypes with their string values, the rows of the tables
  \<open>orders\<close>, \<open>balances\<close>, \<open>trades\<close> and \<open>trading_pairs\<close> as records
  (\<open>models/order.py\<close>, \<open>balance.py\<close>, \<open>trade.py\<close>, \<open>trading_pair.py\<close>), the derived
  properties of an order, and the exceptions the services raise. Timestamps and the ORM
  relationships carry no behaviour and are left out.
\<close>

subsection \<open>Exceptions\<close>

datatype exn =
    ValueError string
  | RuntimeError string
  | KeyError string
  | AssertionError
  | MemoryError
  | InsufficientBalanceError int string rat rat
  | BalanceVersionConflict int string nat
  | OrderValidationError string
  | OrderNotFoundError int
  | OrderNotCancelableError int
  | PostOnlyCrossError
  | AppError int string
  | HTTPException int
  | RequestValidationError
  | MultipleResultsFound
  | IntegrityError
  | TypeError

subsection \<open>Enums\<close>

datatype order_side = BUY | SELL

datatype order_type =
    MARKET | LIMIT | STOP_MARKET | STOP_LIMIT | POST_ONLY | IOC | FOK | TRAILING_STOP | ICEBERG

datatype order_status =
    PENDING | NEW | PARTIALLY_FILLED | FILLED | CANCELED | REJECTED | EXPIRED

fun side_value :: "order_side \<Rightarrow> string" where
  "side_value BUY = ''buy''"
| "side_value SELL = ''sell''"

fun type_value :: "order_type \<Rightarrow> string" where
  "type_value MARKET = ''market''"
| "type_value LIMIT = ''limit''"
| "type_value STOP_MARKET = ''stop_market''"
| "type_value STOP_LIMIT = ''stop_limit''"
| "type_value POST_ONLY = ''post_only''"
| "type_value IOC = ''ioc''"
| "type_value FOK = ''fok''"
| "type_value TRAILING_STOP = ''trailing_stop''"
| "type_value ICEBERG = ''iceberg''"

fun status_value :: "order_status \<Rightarrow> string" where
  "status_value PENDING = ''pending''"
| "status_value NEW = ''new''"
| "status_value PARTIALLY_FILLED = ''partially_filled''"
| "status_value FILLED = ''filled''"
| "status_value CANCELED = ''canceled''"
| "status_value REJECTED = ''rejected''"
| "status_value EXPIRED = ''expired''"

text \<open>\<open>OrderSide(s)\<close>, \<open>OrderType(s)\<close>: the member whose value is \<open>s\<close>, else ValueError.\<close>

definition all_sides :: "order_side list" where
  "all_sides = [BUY, SELL]"

definition all_types :: "order_type list" where
  "all_types = [MARKET, LIMIT, STOP_MARKET, STOP_LIMIT, POST_ONLY, IOC, FOK, TRAILING_STOP, ICEBERG]"

definition OrderSide :: "string \<Rightarrow> (exn, order_side) result" where
  "OrderSide s = (case find (\<lambda>x. side_value x = s) all_sides of
     Some x \<Rightarrow> Inr x | None \<Rightarrow> Inl (ValueError ''not a valid OrderSide''))"

definition OrderType :: "string \<Rightarrow> (exn, order_type) result" where
  "OrderType s = (case find (\<lambda>x. type_value x = s) all_types of
     Some x \<Rightarrow> Inr x | None \<Rightarrow> Inl (ValueError ''not a valid OrderType''))"

lemma OrderSide_value [simp]: "OrderSide (side_value x) = Inr x"
  by (cases x) (simp_all add: OrderSide_def all_sides_def)

lemma OrderType_value [simp]: "OrderType (type_value x) = Inr x"
  by (cases x) (simp_all add: OrderType_def all_types_def)

subsection \<open>Lower case\<close>

definition lower_char :: "char \<Rightarrow> char" where
  "lower_char c = (let n = of_char c :: nat in if 65 \<le> n \<and> n \<le> 90 then char_of (n + 32) else c)"

definition lower :: "string \<Rightarrow> string" where
  "lower s = map lower_char s"

lemma lower_side [simp]: "lower (side_value s) = side_value s"
  by (cases s) (simp_all add: lower_def lower_char_def)

lemma lower_type [simp]: "lower (type_value t) = type_value t"
  by (cases t) (simp_all add: lower_def lower_char_def)

subsection \<open>Orders\<close>

record order =
  o_id :: int
  o_user_id :: int
  o_symbol :: string
  o_side :: order_side
  o_type :: order_type
  o_status :: order_status
  o_price :: "rat option"
  o_stop_price :: "rat option"
  o_trailing_delta :: "rat option"
  o_quantity :: rat
  o_filled_quantity :: rat
  o_filled_quote_qty :: rat
  o_visible_quantity :: "rat option"
  o_hidden_quantity :: "rat option"
  o_replace_count :: int
  o_replaces_id :: "int option"
  o_replaced_by_id :: "int option"
  o_parent_order_id :: "int option"
  o_sl_order_id :: "int option"
  o_tp_order_id :: "int option"
  o_bulk_id :: "string option"
  o_version :: int

definition remaining_quantity :: "order \<Rightarrow> rat" where
  "remaining_quantity o1 = o_quantity o1 - o_filled_quantity o1"

definition avg_fill_price :: "order \<Rightarrow> rat option" where
  "avg_fill_price o1 =
     (if o_filled_quantity o1 = 0 then None else Some (o_filled_quote_qty o1 / o_filled_quantity o1))"

definition is_iceberg :: "order \<Rightarrow> bool" where
  "is_iceberg o1 \<longleftrightarrow> o_type o1 = ICEBERG"

definition stop_type :: "order_type \<Rightarrow> bool" where
  "stop_type t \<longleftrightarrow> t \<in> {STOP_MARKET, STOP_LIMIT, TRAILING_STOP}"

definition is_stop_type :: "order \<Rightarrow> bool" where
  "is_stop_type o1 \<longleftrightarrow> stop_type (o_type o1)"

definition is_active :: "order \<Rightarrow> bool" where
  "is_active o1 \<longleftrightarrow> o_status o1 \<in> {NEW, PARTIALLY_FILLED, PENDING}"

subsection \<open>Balances\<close>

record balance =
  b_user_id :: int
  b_asset :: string
  total_balance :: rat
  locked_balance :: rat
  available_balance :: rat
  b_version :: int

definition check_invariant :: "balance \<Rightarrow> (exn, balance) result" where
  "check_invariant b =
     (if total_balance b \<noteq> locked_balance b + available_balance b
      then Inl (RuntimeError ''Balance invariant violated'') else Inr b)"

subsection \<open>Trading pairs and trades\<close>

record trading_pair =
  p_id :: int
  p_symbol :: string
  p_base_asset :: string
  p_quote_asset :: string
  p_price_precision :: int
  p_quantity_precision :: int
  p_min_lot_size :: rat
  p_max_lot_size :: rat
  p_tick_size :: rat
  p_maker_fee_bps :: rat
  p_taker_fee_bps :: rat
  p_is_active :: bool

record trade =
  t_id :: int
  t_taker_order_id :: int
  t_maker_order_id :: int
  t_symbol :: string
  t_price :: rat
  t_quantity :: rat
  t_quote_quantity :: rat
  t_side :: order_side
  t_taker_user_id :: int
  t_maker_user_id :: int
  t_taker_fee :: rat
  t_maker_fee :: rat
  t_executed_at :: int

subsection \<open>Users and API keys\<close>

text \<open>Instants are microseconds since the epoch, the resolution of a \<open>timestamptz\<close>.\<close>

record user =
  u_id :: int
  u_email :: string
  u_password_hash :: string
  u_is_active :: bool
  u_is_admin :: bool

record api_key =
  k_id :: int
  k_user_id :: int
  k_api_key :: string
  k_secret_hash :: string
  k_label :: "string option"
  k_permissions :: "string list"
  k_rate_limit_per_min :: int
  k_is_revoked :: bool
  k_last_used_at :: "int option"

definition has_permission :: "api_key \<Rightarrow> string \<Rightarrow> bool" where
  "has_permission k perm \<longleftrightarrow> perm \<in> set (k_permissions k)"

subsection \<open>Falsy values\<close>

text \<open>Python's \<open>d or 0\<close> on an optional decimal: zero is falsy, so both give zero.\<close>

definition or0 :: "rat option \<Rightarrow> rat" where
  "or0 x = (case x of None \<Rightarrow> 0 | Some v \<Rightarrow> v)"

text \<open>\<open>f(d) if d else None\<close>: a stored zero is treated like a missing value.\<close>

definition truthy :: "rat option \<Rightarrow> rat option" where
  "truthy x = (case x of None \<Rightarrow> None | Some v \<Rightarrow> if v = 0 then None else Some v)"

end
