(* ===== verification/Engine.thy ===== *)
theory Engine
  imports Domain
begin

section \<open>The matching engine\<close>

text \<open>
  \<open>matching/engine.pyx\<close> with the constants of \<open>matching/_constants.py\<close>. A price level's linked
  list (head, tail, next pointers into the node pool) is the list of its nodes from head to tail;
  a side is the list of its levels in array order; the trade buffer is the list of the trades
  emitted so far. Prices and quantities are doubles, on which every subtraction and addition
  rounds (\<open>dsub\<close>, \<open>dadd\<close>); the NaN price of a market order is \<open>None\<close>. The counters the code
  keeps beside the lists (\<open>total_volume\<close>, \<open>order_count\<close>, \<open>_node_pool_size\<close>) are kept here too. A
  failing realloc is not modelled.
\<close>

subsection \<open>Constants and data\<close>

definition C_BUY :: int where "C_BUY = 0"
definition C_SELL :: int where "C_SELL = 1"

definition C_MARKET :: int where "C_MARKET = 0"
definition C_LIMIT :: int where "C_LIMIT = 1"
definition C_IOC :: int where "C_IOC = 2"
definition C_FOK :: int where "C_FOK = 3"
definition C_POST_ONLY :: int where "C_POST_ONLY = 4"

definition C_OK :: int where "C_OK = 0"
definition C_FOK_REJECTED :: int where "C_FOK_REJECTED = 1"
definition C_POST_ONLY_CROSS :: int where "C_POST_ONLY_CROSS = 2"
definition C_NO_LIQUIDITY :: int where "C_NO_LIQUIDITY = 3"

definition INITIAL_NODE_POOL_CAP :: int where "INITIAL_NODE_POOL_CAP = 100000"
definition INITIAL_TRADES_CAP :: int where "INITIAL_TRADES_CAP = 1024"

lemmas code_defs = C_BUY_def C_SELL_def C_MARKET_def C_LIMIT_def C_IOC_def C_FOK_def C_POST_ONLY_def
  C_OK_def C_FOK_REJECTED_def C_POST_ONLY_CROSS_def C_NO_LIQUIDITY_def

record order_node =
  n_order_id :: int
  n_remaining :: rat
  n_visible :: rat
  n_is_iceberg :: bool

record price_level =
  l_price :: rat
  l_nodes :: "order_node list"
  l_total_volume :: rat
  l_order_count :: int

record book_side =
  s_levels :: "price_level list"
  s_is_descending :: bool

record corder =
  c_order_id :: int
  c_side :: int
  c_type :: int
  c_price :: "rat option"
  c_quantity :: rat
  c_remaining :: rat
  c_is_iceberg :: bool
  c_visible :: rat
  c_hidden :: rat

record trade_result =
  tr_taker :: int
  tr_maker :: int
  tr_price :: rat
  tr_quantity :: rat
  tr_side :: int

record engine =
  e_bids :: book_side
  e_asks :: book_side
  e_node_pool_size :: int
  e_trades :: "trade_result list"

definition new_engine :: engine where
  "new_engine = \<lparr>e_bids = \<lparr>s_levels = [], s_is_descending = True\<rparr>,
     e_asks = \<lparr>s_levels = [], s_is_descending = False\<rparr>, e_node_pool_size = 0, e_trades = []\<rparr>"

definition reset :: "engine \<Rightarrow> engine" where
  "reset e = e\<lparr>e_bids := (e_bids e)\<lparr>s_levels := []\<rparr>, e_asks := (e_asks e)\<lparr>s_levels := []\<rparr>,
     e_node_pool_size := 0, e_trades := []\<rparr>"

subsection \<open>Price levels\<close>

text \<open>Does a level at price \<open>p\<close> come strictly before one at price \<open>q\<close> on this side?\<close>

definition before :: "bool \<Rightarrow> rat \<Rightarrow> rat \<Rightarrow> bool" where
  "before desc p q \<longleftrightarrow> (desc \<and> p > q) \<or> (\<not> desc \<and> p < q)"

function find_idx :: "bool \<Rightarrow> price_level list \<Rightarrow> rat \<Rightarrow> int \<Rightarrow> int \<Rightarrow> int" where
  "find_idx desc levels price lo hi =
     (if lo \<le> hi then
        let mid = (lo + hi) div 2; mid_price = l_price (levels ! nat mid) in
        if mid_price = price then mid
        else if before desc mid_price price then find_idx desc levels price (mid + 1) hi
        else find_idx desc levels price lo (mid - 1)
      else - 1)"
  by pat_completeness auto

termination
  by (relation "measure (\<lambda>(desc, levels, price, lo, hi). nat (hi - lo + 1))") auto

definition find_level_idx :: "book_side \<Rightarrow> rat \<Rightarrow> int" where
  "find_level_idx side price =
     find_idx (s_is_descending side) (s_levels side) price 0 (int (length (s_levels side)) - 1)"

fun insert_pos :: "bool \<Rightarrow> rat \<Rightarrow> price_level list \<Rightarrow> nat" where
  "insert_pos desc price [] = 0"
| "insert_pos desc price (l # ls) =
     (if before desc price (l_price l) then 0 else Suc (insert_pos desc price ls))"

definition insert_level :: "book_side \<Rightarrow> rat \<Rightarrow> int \<times> book_side" where
  "insert_level side price =
     (let i = insert_pos (s_is_descending side) price (s_levels side);
          lvl = \<lparr>l_price = price, l_nodes = [], l_total_volume = 0, l_order_count = 0\<rparr> in
      (int i, side\<lparr>s_levels := take i (s_levels side) @ lvl # drop i (s_levels side)\<rparr>))"

definition append_order_to_level :: "price_level \<Rightarrow> order_node \<Rightarrow> price_level" where
  "append_order_to_level lvl node = lvl\<lparr>l_nodes := l_nodes lvl @ [node],
     l_total_volume := dadd (l_total_volume lvl) (n_remaining node),
     l_order_count := l_order_count lvl + 1\<rparr>"

definition remove_level :: "book_side \<Rightarrow> nat \<Rightarrow> book_side" where
  "remove_level side idx = side\<lparr>s_levels := take idx (s_levels side) @ drop (Suc idx) (s_levels side)\<rparr>"

definition maybe_compact_level :: "book_side \<Rightarrow> nat \<Rightarrow> book_side" where
  "maybe_compact_level side idx =
     (if l_order_count (s_levels side ! idx) = 0 then remove_level side idx else side)"

definition side_of :: "engine \<Rightarrow> int \<Rightarrow> book_side" where
  "side_of e side = (if side = C_BUY then e_bids e else e_asks e)"

definition set_side :: "engine \<Rightarrow> int \<Rightarrow> book_side \<Rightarrow> engine" where
  "set_side e side b = (if side = C_BUY then e\<lparr>e_bids := b\<rparr> else e\<lparr>e_asks := b\<rparr>)"

subsection \<open>Adding and cancelling resting orders\<close>

definition ensure_node_pool_cap :: "int \<Rightarrow> (exn, unit) result" where
  "ensure_node_pool_cap needed = (if INITIAL_NODE_POOL_CAP < needed then Inl MemoryError else Inr ())"

definition rest_on_side :: "book_side \<Rightarrow> rat \<Rightarrow> order_node \<Rightarrow> book_side" where
  "rest_on_side side price node =
     (let found = find_level_idx side price;
          (idx, side1) = (if found = - 1 then insert_level side price else (found, side)) in
      side1\<lparr>s_levels := (s_levels side1)[nat idx := append_order_to_level (s_levels side1 ! nat idx) node]\<rparr>)"

definition add_passive_order ::
  "int \<Rightarrow> int \<Rightarrow> rat \<Rightarrow> rat \<Rightarrow> bool \<Rightarrow> rat \<Rightarrow> engine \<Rightarrow> (exn, bool) result \<times> engine" where
  "add_passive_order order_id side price qty is_ice visible_qty e =
     (if side \<noteq> C_BUY \<and> side \<noteq> C_SELL then (Inl (ValueError ''Invalid side''), e)
      else if qty \<le> 0 then (Inl (ValueError ''qty must be positive''), e)
      else case ensure_node_pool_cap (e_node_pool_size e + 1) of
        Inl err \<Rightarrow> (Inl err, e)
      | Inr _ \<Rightarrow>
        (let e1 = e\<lparr>e_node_pool_size := e_node_pool_size e + 1\<rparr>;
             node = \<lparr>n_order_id = order_id, n_remaining = qty,
               n_visible = (if is_ice then visible_qty else qty), n_is_iceberg = is_ice\<rparr> in
         (Inr True, set_side e1 side (rest_on_side (side_of e1 side) price node))))"

fun unlink :: "int \<Rightarrow> order_node list \<Rightarrow> (order_node \<times> order_node list) option" where
  "unlink order_id [] = None"
| "unlink order_id (cur # rest) =
     (if n_order_id cur = order_id then Some (cur, rest)
      else map_option (\<lambda>(n, ns). (n, cur # ns)) (unlink order_id rest))"

definition cancel_order :: "int \<Rightarrow> int \<Rightarrow> rat \<Rightarrow> engine \<Rightarrow> (exn, bool) result \<times> engine" where
  "cancel_order order_id side price e =
     (if side \<noteq> C_BUY \<and> side \<noteq> C_SELL then (Inl (ValueError ''Invalid side''), e)
      else let b = side_of e side; idx = find_level_idx b price in
        if idx = - 1 then (Inr False, e)
        else let lvl = s_levels b ! nat idx in
          (case unlink order_id (l_nodes lvl) of
             None \<Rightarrow> (Inr False, e)
           | Some (cur, rest) \<Rightarrow>
             let lvl1 = lvl\<lparr>l_nodes := rest, l_total_volume := dsub (l_total_volume lvl) (n_remaining cur),
                   l_order_count := l_order_count lvl - 1\<rparr>;
                 b1 = b\<lparr>s_levels := (s_levels b)[nat idx := lvl1]\<rparr> in
             (Inr True, set_side e side (maybe_compact_level b1 (nat idx)))))"

definition snapshot :: "int \<Rightarrow> int \<Rightarrow> engine \<Rightarrow> (exn, rat list \<times> rat list) result" where
  "snapshot side depth e =
     (if side \<noteq> C_BUY \<and> side \<noteq> C_SELL then Inl (ValueError ''Invalid side'')
      else let top = take (nat depth) (s_levels (side_of e side)) in
        Inr (map l_price top, map l_total_volume top))"

subsection \<open>Pre-checks\<close>

definition opposite :: "engine \<Rightarrow> corder \<Rightarrow> book_side" where
  "opposite e c = (if c_side c = C_BUY then e_asks e else e_bids e)"

definition would_cross :: "engine \<Rightarrow> corder \<Rightarrow> bool" where
  "would_cross e c =
     (case s_levels (opposite e c) of
        [] \<Rightarrow> False
      | l # _ \<Rightarrow> (case c_price c of
          None \<Rightarrow> False
        | Some p \<Rightarrow> if c_side c = C_BUY then l_price l \<le> p else p \<le> l_price l))"

text \<open>The price check of the FOK walk and of the hot loop, negated: the level is acceptable.\<close>

definition acceptable :: "corder \<Rightarrow> rat \<Rightarrow> bool" where
  "acceptable c q = (case c_price c of
     None \<Rightarrow> True
   | Some p \<Rightarrow> \<not> (c_side c = C_BUY \<and> p < q) \<and> \<not> (c_side c = C_SELL \<and> q < p))"

fun fok_walk :: "corder \<Rightarrow> rat \<Rightarrow> price_level list \<Rightarrow> bool" where
  "fok_walk c cumulative [] = False"
| "fok_walk c cumulative (l # ls) =
     (if \<not> acceptable c (l_price l) then False
      else let cumulative1 = dadd cumulative (l_total_volume l) in
        if c_quantity c \<le> cumulative1 then True else fok_walk c cumulative1 ls)"

definition precheck_fok :: "engine \<Rightarrow> corder \<Rightarrow> bool" where
  "precheck_fok e c = fok_walk c 0 (s_levels (opposite e c))"

subsection \<open>The hot loop\<close>

definition visible_avail :: "order_node \<Rightarrow> rat" where
  "visible_avail maker =
     (if n_is_iceberg maker \<and> n_visible maker < n_remaining maker then n_visible maker else n_remaining maker)"

text \<open>One take from a maker: the filled quantity, the maker and the taker's remaining quantity.\<close>

definition take_from :: "rat \<Rightarrow> order_node \<Rightarrow> rat \<times> order_node \<times> rat" where
  "take_from rem maker =
     (if visible_avail maker \<le> rem
      then let fill = visible_avail maker; left = dsub (n_remaining maker) fill in
        (fill,
         maker\<lparr>n_remaining := left,
           n_visible := (if n_is_iceberg maker then (if 0 < left then left else 0) else n_visible maker)\<rparr>,
         dsub rem fill)
      else (rem,
        maker\<lparr>n_remaining := dsub (n_remaining maker) rem,
          n_visible := (if n_is_iceberg maker then dsub (n_visible maker) rem else n_visible maker)\<rparr>,
        0))"

record walk =
  w_rem :: rat
  w_vol :: rat
  w_count :: int
  w_trades :: "trade_result list"

definition needs_refill :: "order_node \<Rightarrow> bool" where
  "needs_refill m \<longleftrightarrow> n_is_iceberg m \<and> n_visible m < n_remaining m"

definition emit :: "corder \<Rightarrow> rat \<Rightarrow> order_node \<Rightarrow> rat \<Rightarrow> trade_result" where
  "emit c price maker fill = \<lparr>tr_taker = c_order_id c, tr_maker = n_order_id maker, tr_price = price,
     tr_quantity = fill, tr_side = c_side c\<rparr>"

lemma take_from_progress:
  assumes "take_from rem m = (fill, m1, rem1)" and "0 < n_remaining m1"
  shows "rem1 = 0 \<or> (needs_refill m \<and> \<not> needs_refill m1)"
  using assms
  by (auto simp: take_from_def visible_avail_def needs_refill_def Let_def dsub_pos split: if_splits)

text \<open>
  The walk along one level. \<open>skipped\<close> are the nodes the \<open>maker\<close> pointer has passed; unlinking
  sets the head to the maker's successor, which drops them.
\<close>

function walk_level ::
  "corder \<Rightarrow> rat \<Rightarrow> order_node list \<Rightarrow> order_node list \<Rightarrow> walk \<Rightarrow> order_node list \<times> walk \<times> bool" where
  "walk_level c price skipped [] w = (skipped, w, False)"
| "walk_level c price skipped (maker # rest) w =
     (if \<not> 0 < w_rem w then (skipped @ maker # rest, w, False)
      else let (fill, maker1, rem1) = take_from (w_rem w) maker;
               w1 = w\<lparr>w_rem := rem1, w_vol := dsub (w_vol w) fill\<rparr> in
        if INITIAL_TRADES_CAP \<le> int (length (w_trades w1)) then (skipped @ maker1 # rest, w1, True)
        else let w2 = w1\<lparr>w_trades := w_trades w1 @ [emit c price maker fill]\<rparr> in
          if n_remaining maker1 \<le> 0 then walk_level c price [] rest (w2\<lparr>w_count := w_count w2 - 1\<rparr>)
          else if n_visible maker1 \<le> 0 then walk_level c price (skipped @ [maker1]) rest w2
          else walk_level c price skipped (maker1 # rest) w2)"
  by pat_completeness auto

termination
proof (relation "measure (\<lambda>(c, price, skipped, makers, w).
    2 * length makers + (case makers of [] \<Rightarrow> 0 | m # _ \<Rightarrow> if needs_refill m then 1 else 0) + (if 0 < w_rem w then 2 else 0))",
    goal_cases)
  case 1
  then show ?case by simp
next
  case 2
  then show ?case by (auto split: list.split)
next
  case 3
  then show ?case by (auto split: list.split)
next
  case (4 c price skipped maker rest w x fill y maker1 rem1 w1 w2)
  then have "0 < n_remaining maker1" by simp
  with take_from_progress [of "w_rem w" maker fill maker1 rem1] 4 show ?case by auto
qed

fun walk_levels ::
  "corder \<Rightarrow> rat \<Rightarrow> trade_result list \<Rightarrow> price_level list \<Rightarrow> price_level list \<times> rat \<times> trade_result list \<times> bool" where
  "walk_levels c rem trades [] = ([], rem, trades, False)"
| "walk_levels c rem trades (l # ls) =
     (if \<not> 0 < rem \<or> \<not> acceptable c (l_price l) then (l # ls, rem, trades, False)
      else let (nodes, w, full) = walk_level c (l_price l) [] (l_nodes l)
                 \<lparr>w_rem = rem, w_vol = l_total_volume l, w_count = l_order_count l, w_trades = trades\<rparr>;
               l1 = l\<lparr>l_nodes := nodes, l_total_volume := w_vol w, l_order_count := w_count w\<rparr> in
        if full then (l1 # ls, w_rem w, w_trades w, True)
        else let (ls1, rem1, trades1, full1) = walk_levels c (w_rem w) (w_trades w) ls in
          (if l_order_count l1 = 0 then ls1 else l1 # ls1, rem1, trades1, full1))"

text \<open>\<open>_match_internal\<close>: the outcome, the engine, and what remains of the incoming order.\<close>

definition set_opposite :: "engine \<Rightarrow> corder \<Rightarrow> price_level list \<Rightarrow> engine" where
  "set_opposite e c ls = (if c_side c = C_BUY then e\<lparr>e_asks := (e_asks e)\<lparr>s_levels := ls\<rparr>\<rparr>
     else e\<lparr>e_bids := (e_bids e)\<lparr>s_levels := ls\<rparr>\<rparr>)"

definition match_internal :: "corder \<Rightarrow> engine \<Rightarrow> int \<times> engine \<times> rat" where
  "match_internal c e =
     (if c_type c = C_POST_ONLY then
        (if would_cross e c then C_POST_ONLY_CROSS else C_OK, e, c_remaining c)
      else if c_type c = C_FOK \<and> \<not> precheck_fok e c then (C_FOK_REJECTED, e, c_remaining c)
      else let (ls, rem, trades, full) = walk_levels c (c_remaining c) (e_trades e) (s_levels (opposite e c));
               e1 = (set_opposite e c ls)\<lparr>e_trades := trades\<rparr> in
        if full then (C_NO_LIQUIDITY, e1, rem)
        else if 0 < rem \<and> (c_type c = C_MARKET \<or> c_type c = C_IOC) \<and> trades = [] then (C_NO_LIQUIDITY, e1, rem)
        else (C_OK, e1, rem))"

definition match_active_order :: "corder \<Rightarrow> engine \<Rightarrow> (trade_result list \<times> int \<times> rat) \<times> engine" where
  "match_active_order c e =
     (let (outcome, e1, remaining) = match_internal c (e\<lparr>e_trades := []\<rparr>) in
      ((e_trades e1, outcome, remaining), e1))"

subsection \<open>The book invariant\<close>

definition node_ok :: "order_node \<Rightarrow> bool" where
  "node_ok n \<longleftrightarrow> 0 < n_remaining n \<and> 0 < n_visible n"

definition level_ok :: "price_level \<Rightarrow> bool" where
  "level_ok l \<longleftrightarrow> l_nodes l \<noteq> [] \<and> list_all node_ok (l_nodes l) \<and> l_order_count l = int (length (l_nodes l))"

definition side_ok :: "book_side \<Rightarrow> bool" where
  "side_ok b \<longleftrightarrow> list_all level_ok (s_levels b) \<and>
     sorted_wrt (before (s_is_descending b)) (map l_price (s_levels b))"

definition engine_ok :: "engine \<Rightarrow> bool" where
  "engine_ok e \<longleftrightarrow> side_ok (e_bids e) \<and> s_is_descending (e_bids e) \<and>
     side_ok (e_asks e) \<and> \<not> s_is_descending (e_asks e)"

text \<open>At most this many trades come out of these makers: an iceberg may be hit twice.\<close>

definition trade_bound :: "order_node list \<Rightarrow> nat" where
  "trade_bound ms = (\<Sum>m\<leftarrow>ms. if needs_refill m then 2 else 1)"

definition side_trade_bound :: "book_side \<Rightarrow> nat" where
  "side_trade_bound b = (\<Sum>l\<leftarrow>s_levels b. trade_bound (l_nodes l))"

lemma trade_bound_simps [simp]:
  "trade_bound [] = 0"
  "trade_bound (m # ms) = (if needs_refill m then 2 else 1) + trade_bound ms"
  by (simp_all add: trade_bound_def)

lemma take_from_ok:
  assumes "take_from rem m = (fill, m1, rem1)" and "0 < rem" and "node_ok m"
  shows "0 < fill" "fill \<le> rem" "0 \<le> rem1" "n_order_id m1 = n_order_id m"
    and "n_remaining m1 \<le> 0 \<or> node_ok m1"
    and "0 < n_remaining m1 \<Longrightarrow> rem1 = 0 \<or> needs_refill m \<and> \<not> needs_refill m1"
proof -
  show "0 < fill" "fill \<le> rem" "0 \<le> rem1" "n_order_id m1 = n_order_id m" "n_remaining m1 \<le> 0 \<or> node_ok m1"
    using assms
    by (auto simp: take_from_def visible_avail_def node_ok_def Let_def dsub_pos dsub_nonneg split: if_splits)
  show "0 < n_remaining m1 \<Longrightarrow> rem1 = 0 \<or> needs_refill m \<and> \<not> needs_refill m1"
    using take_from_progress [OF assms(1)] .
qed

text \<open>The record after one emitted trade, and induction along the walk of makers in order.\<close>

definition after_take :: "corder \<Rightarrow> rat \<Rightarrow> order_node \<Rightarrow> rat \<Rightarrow> rat \<Rightarrow> walk \<Rightarrow> walk" where
  "after_take c p m fill rem1 w =
     w\<lparr>w_rem := rem1, w_vol := dsub (w_vol w) fill, w_trades := w_trades w @ [emit c p m fill]\<rparr>"

lemma after_take_simps [simp]:
  "w_rem (after_take c p m fill rem1 w) = rem1"
  "w_vol (after_take c p m fill rem1 w) = dsub (w_vol w) fill"
  "w_count (after_take c p m fill rem1 w) = w_count w"
  "w_trades (after_take c p m fill rem1 w) = w_trades w @ [emit c p m fill]"
  by (simp_all add: after_take_def)

lemma emit_simps [simp]:
  "tr_quantity (emit c p m fill) = fill" "tr_price (emit c p m fill) = p"
  "tr_taker (emit c p m fill) = c_order_id c" "tr_side (emit c p m fill) = c_side c"
  "tr_maker (emit c p m fill) = n_order_id m"
  by (simp_all add: emit_def)

lemma walk_level_cons:
  assumes "take_from (w_rem w) m = (fill, m1, rem1)" and "0 < w_rem w" and "node_ok m"
  shows "walk_level c p [] (m # rest) w =
    (if INITIAL_TRADES_CAP \<le> int (length (w_trades w))
     then (m1 # rest, w\<lparr>w_rem := rem1, w_vol := dsub (w_vol w) fill\<rparr>, True)
     else if n_remaining m1 \<le> 0
     then walk_level c p [] rest ((after_take c p m fill rem1 w)\<lparr>w_count := w_count w - 1\<rparr>)
     else walk_level c p [] (m1 # rest) (after_take c p m fill rem1 w))"
proof -
  have "n_remaining m1 \<le> 0 \<or> 0 < n_visible m1" using take_from_ok(5) [OF assms] by (auto simp: node_ok_def)
  then show ?thesis
    using assms(1,2) by (auto simp only: walk_level.simps(2) [of c p "[]" m rest w] after_take_def Let_def split: if_splits)
      auto
qed

declare walk_level.simps(2) [simp del]

definition walk_measure :: "order_node list \<Rightarrow> walk \<Rightarrow> nat" where
  "walk_measure ms w = 2 * length ms + (case ms of [] \<Rightarrow> 0 | m # _ \<Rightarrow> if needs_refill m then 1 else 0) +
     (if 0 < w_rem w then 2 else 0)"

lemma walk_measure_gone:
  "0 < w_rem w \<Longrightarrow> walk_measure rest w' < walk_measure (m # rest) w"
  by (auto simp: walk_measure_def split: list.split)

lemma walk_measure_stays:
  "0 < w_rem w \<Longrightarrow> w_rem w' = 0 \<or> needs_refill m \<and> \<not> needs_refill m1 \<Longrightarrow>
    walk_measure (m1 # rest) w' < walk_measure (m # rest) w"
  by (auto simp: walk_measure_def)

lemma walk_ok_induct [case_names nil stop full gone stays]:
  assumes ok: "list_all node_ok ms" "0 \<le> w_rem w"
    and nil: "\<And>w. 0 \<le> w_rem w \<Longrightarrow> P [] w ([], w, False)"
    and stop: "\<And>m rest w. list_all node_ok (m # rest) \<Longrightarrow> w_rem w = 0 \<Longrightarrow> P (m # rest) w (m # rest, w, False)"
    and full: "\<And>m rest w fill m1 rem1. list_all node_ok (m # rest) \<Longrightarrow> 0 < w_rem w \<Longrightarrow>
      take_from (w_rem w) m = (fill, m1, rem1) \<Longrightarrow> INITIAL_TRADES_CAP \<le> int (length (w_trades w)) \<Longrightarrow>
      P (m # rest) w (m1 # rest, w\<lparr>w_rem := rem1, w_vol := dsub (w_vol w) fill\<rparr>, True)"
    and gone: "\<And>m rest w fill m1 rem1 r. list_all node_ok (m # rest) \<Longrightarrow> 0 < w_rem w \<Longrightarrow>
      take_from (w_rem w) m = (fill, m1, rem1) \<Longrightarrow> int (length (w_trades w)) < INITIAL_TRADES_CAP \<Longrightarrow>
      n_remaining m1 \<le> 0 \<Longrightarrow> P rest ((after_take c p m fill rem1 w)\<lparr>w_count := w_count w - 1\<rparr>) r \<Longrightarrow> P (m # rest) w r"
    and stays: "\<And>m rest w fill m1 rem1 r. list_all node_ok (m # rest) \<Longrightarrow> 0 < w_rem w \<Longrightarrow>
      take_from (w_rem w) m = (fill, m1, rem1) \<Longrightarrow> int (length (w_trades w)) < INITIAL_TRADES_CAP \<Longrightarrow>
      node_ok m1 \<Longrightarrow> P (m1 # rest) (after_take c p m fill rem1 w) r \<Longrightarrow> P (m # rest) w r"
  shows "P ms w (walk_level c p [] ms w)"
  using ok
proof (induction "walk_measure ms w" arbitrary: ms w rule: less_induct)
  case less
  show ?case
  proof (cases ms)
    case Nil
    then show ?thesis using nil less by simp
  next
    case (Cons m rest)
    show ?thesis
    proof (cases "0 < w_rem w")
      case False
      then show ?thesis using stop [of m rest w] less Cons by (simp add: walk_level.simps(2))
    next
      case True
      obtain fill m1 rem1 where tk: "take_from (w_rem w) m = (fill, m1, rem1)"
        by (cases "take_from (w_rem w) m")
      have m: "node_ok m" and rest: "list_all node_ok rest" and l: "list_all node_ok (m # rest)"
        using less Cons by simp_all
      note t = take_from_ok [OF tk True m]
      note eq = walk_level_cons [OF tk True m, of c p rest]
      consider (f) "INITIAL_TRADES_CAP \<le> int (length (w_trades w))"
        | (g) "int (length (w_trades w)) < INITIAL_TRADES_CAP" "n_remaining m1 \<le> 0"
        | (s) "int (length (w_trades w)) < INITIAL_TRADES_CAP" "0 < n_remaining m1" by linarith
      then show ?thesis
      proof cases
        case f
        then show ?thesis using full [OF l True tk] eq Cons by simp
      next
        case g
        let ?w = "(after_take c p m fill rem1 w)\<lparr>w_count := w_count w - 1\<rparr>"
        have "P rest ?w (walk_level c p [] rest ?w)"
          using less.hyps [of rest ?w] walk_measure_gone [OF True] rest t(3) Cons by simp
        then show ?thesis using gone [OF l True tk g] eq g Cons by simp
      next
        case s
        let ?w = "after_take c p m fill rem1 w"
        have "node_ok m1" using t(5) s by simp
        moreover have "walk_measure (m1 # rest) ?w < walk_measure ms w"
          using walk_measure_stays [OF True] t(6) s Cons by simp
        ultimately have "P (m1 # rest) ?w (walk_level c p [] (m1 # rest) ?w)"
          using less.hyps [of "m1 # rest" ?w] rest t(3) by simp
        then show ?thesis using stays [OF l True tk s(1) \<open>node_ok m1\<close>] eq s Cons by simp
      qed
    qed
  qed
qed

text \<open>What a walk along makers in order does, whatever the rounding.\<close>

definition walk_spec :: "corder \<Rightarrow> rat \<Rightarrow> order_node list \<Rightarrow> walk \<Rightarrow> order_node list \<times> walk \<times> bool \<Rightarrow> bool" where
  "walk_spec c p ms w r \<longleftrightarrow> (case r of (ns, w', full) \<Rightarrow>
     0 \<le> w_rem w' \<and> (w_rem w = 0 \<longrightarrow> \<not> full \<and> w_trades w' = w_trades w) \<and>
     (\<exists>ts. w_trades w' = w_trades w @ ts \<and> length ts \<le> trade_bound ms \<and>
        (full \<longrightarrow> length ts < trade_bound ms \<and> INITIAL_TRADES_CAP \<le> int (length (w_trades w'))) \<and>
        list_all (\<lambda>t. 0 < tr_quantity t \<and> tr_price t = p \<and> tr_taker t = c_order_id c \<and> tr_side t = c_side c \<and>
          tr_maker t \<in> n_order_id ` set ms) ts) \<and>
     (\<not> full \<longrightarrow> list_all node_ok ns \<and> w_count w' - int (length ns) = w_count w - int (length ms) \<and>
        (ns \<noteq> [] \<longrightarrow> w_rem w' = 0)))"

lemma trade_bound_pos: "ms \<noteq> [] \<Longrightarrow> 0 < trade_bound ms"
  by (cases ms) auto

lemma walk_level_spec:
  assumes "list_all node_ok ms" and "0 \<le> w_rem w"
  shows "walk_spec c p ms w (walk_level c p [] ms w)"
proof (rule walk_ok_induct [where P = "walk_spec c p", OF assms], goal_cases nil stop full gone stays)
  case (nil w)
  then show ?case by (simp add: walk_spec_def)
next
  case (stop m rest w)
  then show ?case by (simp add: walk_spec_def)
next
  case (full m rest w fill m1 rem1)
  then show ?case using take_from_ok(3) [OF full(3,2)] by (simp add: walk_spec_def)
next
  case (gone m rest w fill m1 rem1 r)
  have "0 < fill" using take_from_ok(1) [OF gone(3,2)] gone(1) by simp
  with gone show ?case by (auto simp: walk_spec_def list_all_iff)
next
  case (stays m rest w fill m1 rem1 r)
  note t = take_from_ok [OF stays(3,2)]
  have b: "rem1 = 0 \<or> needs_refill m \<and> \<not> needs_refill m1"
    using t(6) stays(1,5) by (simp add: node_ok_def)
  then show ?case using stays t(1,4) by (auto simp: walk_spec_def list_all_iff)
qed

text \<open>The walk over the levels: what is emitted, what is left, in which order.\<close>

definition trade_ok :: "corder \<Rightarrow> price_level list \<Rightarrow> trade_result \<Rightarrow> bool" where
  "trade_ok c ls t \<longleftrightarrow> 0 < tr_quantity t \<and> acceptable c (tr_price t) \<and> tr_taker t = c_order_id c \<and>
     tr_side t = c_side c \<and> (\<exists>l\<in>set ls. l_price l = tr_price t \<and> tr_maker t \<in> n_order_id ` set (l_nodes l))"

definition no_worse :: "bool \<Rightarrow> rat \<Rightarrow> rat \<Rightarrow> bool" where
  "no_worse desc p q \<longleftrightarrow> p = q \<or> before desc p q"

definition levels_bound :: "price_level list \<Rightarrow> nat" where
  "levels_bound ls = (\<Sum>l\<leftarrow>ls. trade_bound (l_nodes l))"

definition levels_spec :: "bool \<Rightarrow> corder \<Rightarrow> trade_result list \<Rightarrow> price_level list \<Rightarrow>
    price_level list \<times> rat \<times> trade_result list \<times> bool \<Rightarrow> bool" where
  "levels_spec desc c trades ls r \<longleftrightarrow> (case r of (ls', rem', trades', full) \<Rightarrow>
     0 \<le> rem' \<and>
     (\<exists>ts. trades' = trades @ ts \<and> length ts \<le> levels_bound ls \<and>
        (full \<longrightarrow> length ts < levels_bound ls \<and> INITIAL_TRADES_CAP \<le> int (length trades')) \<and>
        list_all (trade_ok c ls) ts \<and>
        (sorted_wrt (before desc) (map l_price ls) \<longrightarrow>
           sorted_wrt (no_worse desc) (map tr_price ts))) \<and>
     set (map l_price ls') \<subseteq> set (map l_price ls) \<and>
     (sorted_wrt (before desc) (map l_price ls) \<longrightarrow> sorted_wrt (before desc) (map l_price ls')) \<and>
     (\<not> full \<longrightarrow> list_all level_ok ls' \<and>
        (0 < rem' \<longrightarrow> (case ls' of [] \<Rightarrow> True | l # _ \<Rightarrow> \<not> acceptable c (l_price l)))))"

lemma levels_bound_simps [simp]:
  "levels_bound [] = 0" "levels_bound (l # ls) = trade_bound (l_nodes l) + levels_bound ls"
  by (simp_all add: levels_bound_def)

lemma trade_ok_mono: "trade_ok c ls t \<Longrightarrow> trade_ok c (l # ls) t"
  by (auto simp: trade_ok_def)

lemma no_worse_blocks:
  assumes "list_all (\<lambda>t. tr_price t = p) ts" and "list_all (trade_ok c ls) us"
    and "\<forall>q\<in>set (map l_price ls). before desc p q" and "sorted_wrt (no_worse desc) (map tr_price us)"
  shows "sorted_wrt (no_worse desc) (map tr_price (ts @ us))"
  using assms(1)
proof (induction ts)
  case Nil
  then show ?case using assms(4) by simp
next
  case (Cons t ts)
  have "no_worse desc p (tr_price u)" if "u \<in> set us" for u
    using assms(2,3) that by (fastforce simp: list_all_iff trade_ok_def no_worse_def)
  with Cons show ?case by (auto simp: list_all_iff no_worse_def)
qed

lemma walk_levels_spec:
  assumes "list_all level_ok ls" and "0 \<le> rem"
  shows "levels_spec desc c trades ls (walk_levels c rem trades ls)"
  using assms
proof (induction c rem trades ls rule: walk_levels.induct)
  case (1 c rem trades)
  then show ?case by (simp add: levels_spec_def)
next
  case (2 c rem trades l ls)
  let ?w = "\<lparr>w_rem = rem, w_vol = l_total_volume l, w_count = l_order_count l, w_trades = trades\<rparr>"
  show ?case
  proof (cases "0 < rem \<and> acceptable c (l_price l)")
    case False
    then show ?thesis using 2 by (auto simp: levels_spec_def)
  next
    case True
    obtain ns w full where wl: "walk_level c (l_price l) [] (l_nodes l) ?w = (ns, w, full)"
      by (cases "walk_level c (l_price l) [] (l_nodes l) ?w")
    let ?l1 = "l\<lparr>l_nodes := ns, l_total_volume := w_vol w, l_order_count := w_count w\<rparr>"
    have lok: "level_ok l" using 2 by simp
    have spec: "walk_spec c (l_price l) (l_nodes l) ?w (ns, w, full)"
      using walk_level_spec [of "l_nodes l" ?w c "l_price l"] lok 2 wl by (simp add: level_ok_def)
    then obtain ts where ts: "w_trades w = trades @ ts" "length ts \<le> trade_bound (l_nodes l)"
      "full \<longrightarrow> length ts < trade_bound (l_nodes l) \<and> INITIAL_TRADES_CAP \<le> int (length (w_trades w))"
      and tsok: "list_all (trade_ok c (l # ls)) ts" and tsp: "list_all (\<lambda>t. tr_price t = l_price l) ts"
      using True by (auto simp: walk_spec_def trade_ok_def list_all_iff)
    have srt: "sorted_wrt (no_worse desc) (map tr_price ts)"
      using no_worse_blocks [OF tsp, of c "[]" "[]" desc] by simp
    show ?thesis
    proof (cases full)
      case full: True
      then show ?thesis using True wl ts tsok srt spec by (auto simp: levels_spec_def walk_spec_def)
    next
      case room: False
      obtain ls1 rem1 trades1 full1 where wr: "walk_levels c (w_rem w) (w_trades w) ls = (ls1, rem1, trades1, full1)"
        by (cases "walk_levels c (w_rem w) (w_trades w) ls")
      have "levels_spec desc c (w_trades w) ls (ls1, rem1, trades1, full1)"
        using 2(1) [of "(ns, w, full)" ns "(w, full)" w full] True wl room 2(2) spec wr
        by (simp add: walk_spec_def)
      then obtain us where us: "trades1 = trades @ ts @ us" "length us \<le> levels_bound ls"
        "full1 \<longrightarrow> length us < levels_bound ls \<and> INITIAL_TRADES_CAP \<le> int (length trades1)"
        "list_all (trade_ok c ls) us"
        "sorted_wrt (before desc) (map l_price ls) \<longrightarrow> sorted_wrt (no_worse desc) (map tr_price us)"
        and rest: "0 \<le> rem1" "set (map l_price ls1) \<subseteq> set (map l_price ls)"
        "sorted_wrt (before desc) (map l_price ls) \<longrightarrow> sorted_wrt (before desc) (map l_price ls1)"
        "\<not> full1 \<longrightarrow> list_all level_ok ls1 \<and>
          (0 < rem1 \<longrightarrow> (case ls1 of [] \<Rightarrow> True | l # _ \<Rightarrow> \<not> acceptable c (l_price l)))"
        using ts(1) by (auto simp: levels_spec_def)
      have l1: "level_ok ?l1 \<or> w_count w = 0" "w_count w = 0 \<longleftrightarrow> ns = []"
        using spec lok room by (auto simp: walk_spec_def level_ok_def)
      have fin: "w_count w \<noteq> 0 \<Longrightarrow> rem1 = 0"
        using spec room l1(2) wr by (cases ls) (auto simp: walk_spec_def split: if_splits)
      have all: "list_all (trade_ok c (l # ls)) (ts @ us)"
        using tsok us(4) by (auto simp: list_all_iff trade_ok_mono)
      have eq: "walk_levels c rem trades (l # ls) = (if w_count w = 0 then ls1 else ?l1 # ls1, rem1, trades1, full1)"
        using True wl room wr by (simp add: Let_def)
      show ?thesis
        unfolding eq levels_spec_def prod.case
        using us rest ts(2) l1 fin all no_worse_blocks [OF tsp us(4), of desc]
        by (auto intro!: exI [of _ "ts @ us"])
    qed
  qed
qed

subsection \<open>Binary search finds the level\<close>

declare find_idx.simps [simp del]

lemma before_irrefl [simp]: "\<not> before desc p p"
  by (simp add: before_def)

lemma before_trans: "before desc p q \<Longrightarrow> before desc q r \<Longrightarrow> before desc p r"
  by (auto simp: before_def)

lemma before_total: "p \<noteq> q \<Longrightarrow> \<not> before desc p q \<Longrightarrow> before desc q p"
  by (auto simp: before_def)

lemma before_asym: "before desc p q \<Longrightarrow> \<not> before desc q p"
  by (auto simp: before_def)

lemma sorted_levels_nth:
  "sorted_wrt (before desc) (map l_price ls) \<Longrightarrow> i < j \<Longrightarrow> j < length ls \<Longrightarrow>
    before desc (l_price (ls ! i)) (l_price (ls ! j))"
  by (auto dest: sorted_wrt_nth_less)

lemma find_idx_correct:
  assumes srt: "sorted_wrt (before desc) (map l_price ls)"
    and "0 \<le> lo" and "hi < int (length ls)"
    and "\<forall>j < length ls. int j < lo \<longrightarrow> before desc (l_price (ls ! j)) price"
    and "\<forall>j < length ls. hi < int j \<longrightarrow> before desc price (l_price (ls ! j))"
  shows "(find_idx desc ls price lo hi = - 1 \<and> (\<forall>l\<in>set ls. l_price l \<noteq> price)) \<or>
    (0 \<le> find_idx desc ls price lo hi \<and> find_idx desc ls price lo hi < int (length ls) \<and>
     l_price (ls ! nat (find_idx desc ls price lo hi)) = price)"
  using assms(2-)
proof (induction "nat (hi - lo + 1)" arbitrary: lo hi rule: less_induct)
  case less
  let ?mid = "(lo + hi) div 2"
  let ?q = "l_price (ls ! nat ?mid)"
  note step = find_idx.simps [of desc ls price lo hi]
  show ?case
  proof (cases "lo \<le> hi")
    case False
    then have "l_price (ls ! j) \<noteq> price" if "j < length ls" for j
      using less.prems(3,4) that by (cases "int j < lo") (auto simp: before_def)
    then have "\<forall>l\<in>set ls. l_price l \<noteq> price" by (metis in_set_conv_nth)
    then show ?thesis using False by (simp add: step)
  next
    case True
    then have mid: "lo \<le> ?mid" "?mid \<le> hi" "0 \<le> ?mid" using less.prems(1) by auto
    then have len: "nat ?mid < length ls" "?mid < int (length ls)" using less.prems(2) by linarith+
    consider (eq) "?q = price" | (lt) "before desc ?q price" "?q \<noteq> price" | (gt) "before desc price ?q"
      using before_total by blast
    then show ?thesis
    proof cases
      case eq
      then show ?thesis using True mid len by (simp add: step Let_def)
    next
      case lt
      have "before desc (l_price (ls ! j)) price" if "j < length ls" "int j < ?mid + 1" for j
      proof (cases "j = nat ?mid")
        case False
        then have "j < nat ?mid" using that mid by linarith
        from before_trans [OF sorted_levels_nth [OF srt this len(1)] lt(1)] show ?thesis .
      qed (use lt in simp)
      then show ?thesis using less.hyps [of hi "?mid + 1"] lt True mid less.prems by (simp add: step Let_def)
    next
      case gt
      have "before desc price (l_price (ls ! j))" if "j < length ls" "?mid - 1 < int j" for j
      proof (cases "j = nat ?mid")
        case False
        then have "nat ?mid < j" using that mid by linarith
        from before_trans [OF gt sorted_levels_nth [OF srt this that(1)]] show ?thesis .
      qed (use gt in simp)
      moreover have "?q \<noteq> price" "\<not> before desc ?q price" using gt before_asym by auto
      ultimately show ?thesis using less.hyps [of "?mid - 1" lo] True mid less.prems by (simp add: step Let_def)
    qed
  qed
qed

lemma find_level_cases:
  assumes "side_ok b"
  obtains (missing) "find_level_idx b price = - 1" "\<forall>l\<in>set (s_levels b). l_price l \<noteq> price"
    | (found) i l where "find_level_idx b price = int i" "i < length (s_levels b)"
        "s_levels b ! i = l" "l_price l = price"
proof -
  let ?i = "find_level_idx b price"
  have "?i = - 1 \<and> (\<forall>l\<in>set (s_levels b). l_price l \<noteq> price) \<or>
      0 \<le> ?i \<and> ?i < int (length (s_levels b)) \<and> l_price (s_levels b ! nat ?i) = price"
    unfolding find_level_idx_def using assms by (intro find_idx_correct) (auto simp: side_ok_def)
  then show ?thesis using that(1) that(2) [of "nat ?i" "s_levels b ! nat ?i"] by auto
qed

text \<open>
  The binary search \<open>_find_level_idx\<close> on a book side in order returns the index of the level with
  the wanted price if there is one, and -1 exactly when there is none.
\<close>

theorem find_level_idx_correct:
  assumes "side_ok b"
  shows "(find_level_idx b price = - 1 \<longleftrightarrow> price \<notin> l_price ` set (s_levels b)) \<and>
    (find_level_idx b price \<noteq> - 1 \<longrightarrow> nat (find_level_idx b price) < length (s_levels b) \<and>
       l_price (s_levels b ! nat (find_level_idx b price)) = price)"
  using assms by (cases rule: find_level_cases [of b price]) (auto simp: image_iff)

theorem find_level_idx_correct_witness:
  "(let n = \<lparr>n_order_id = 1, n_remaining = 2, n_visible = 2, n_is_iceberg = False\<rparr>;
        lvl = (\<lambda>p. \<lparr>l_price = p, l_nodes = [n], l_total_volume = 2, l_order_count = 1\<rparr>);
        b = \<lparr>s_levels = [lvl 7, lvl 5, lvl 3], s_is_descending = True\<rparr> in
     side_ok b \<and> (find_level_idx b 4 = - 1 \<longleftrightarrow> 4 \<notin> l_price ` set (s_levels b)) \<and> find_level_idx b 3 = 2)"
proof -
  let ?n = "\<lparr>n_order_id = 1, n_remaining = 2, n_visible = 2, n_is_iceberg = False\<rparr>"
  let ?lvl = "\<lambda>p. \<lparr>l_price = p, l_nodes = [?n], l_total_volume = 2, l_order_count = 1\<rparr>"
  let ?b = "\<lparr>s_levels = [?lvl 7, ?lvl 5, ?lvl 3], s_is_descending = True\<rparr>"
  have ok: "side_ok ?b" by (simp add: side_ok_def level_ok_def node_ok_def before_def)
  moreover have "find_level_idx ?b 3 = 2" by code_simp
  ultimately show ?thesis using find_level_idx_correct [OF ok, of 4] by (simp add: Let_def)
qed

subsection \<open>Adding and cancelling keep the book in order\<close>

lemma insert_pos_split:
  assumes "sorted_wrt (before desc) (map l_price ls)" and "\<forall>l\<in>set ls. l_price l \<noteq> price"
  shows "(\<forall>l\<in>set (take (insert_pos desc price ls) ls). before desc (l_price l) price) \<and>
    (\<forall>l\<in>set (drop (insert_pos desc price ls) ls). before desc price (l_price l)) \<and>
    insert_pos desc price ls \<le> length ls"
  using assms
proof (induction ls)
  case Nil
  then show ?case by simp
next
  case (Cons l ls)
  then show ?case
    using before_total [of "l_price l" price desc] before_total [of price "l_price l" desc]
    by (auto intro: before_trans)
qed

definition empty_level :: "rat \<Rightarrow> price_level" where
  "empty_level price = \<lparr>l_price = price, l_nodes = [], l_total_volume = 0, l_order_count = 0\<rparr>"

lemma rest_on_side_cases:
  assumes "side_ok b"
  obtains pre l post where "s_levels (rest_on_side b price n) = pre @ append_order_to_level l n # post"
    "s_is_descending (rest_on_side b price n) = s_is_descending b" "l_price l = price"
    "s_levels b = pre @ l # post \<or> s_levels b = pre @ post \<and> l = empty_level price \<and>
       (\<forall>x\<in>set pre. before (s_is_descending b) (l_price x) price) \<and>
       (\<forall>x\<in>set post. before (s_is_descending b) price (l_price x))"
proof (cases rule: find_level_cases [OF assms, of price])
  case 1
  let ?i = "insert_pos (s_is_descending b) price (s_levels b)"
  note sp = insert_pos_split [OF _ 1(2), of "s_is_descending b"]
  have "rest_on_side b price n = b\<lparr>s_levels := take ?i (s_levels b) @
      append_order_to_level (empty_level price) n # drop ?i (s_levels b)\<rparr>"
    using 1(1) sp assms
    by (simp add: rest_on_side_def insert_level_def Let_def empty_level_def side_ok_def list_update_append nth_append)
  then show ?thesis
    using that [of "take ?i (s_levels b)" "empty_level price" "drop ?i (s_levels b)"] sp assms
    by (simp add: empty_level_def side_ok_def)
next
  case (2 i l)
  have split: "s_levels b = take i (s_levels b) @ l # drop (Suc i) (s_levels b)"
    using 2(2,3) by (metis id_take_nth_drop)
  have "rest_on_side b price n = b\<lparr>s_levels := take i (s_levels b) @
      append_order_to_level l n # drop (Suc i) (s_levels b)\<rparr>"
    using 2 by (simp add: rest_on_side_def upd_conv_take_nth_drop)
  then show ?thesis
    using that [of "take i (s_levels b)" l "drop (Suc i) (s_levels b)"] 2 split by simp
qed

lemma append_order_price [simp]: "l_price (append_order_to_level l n) = l_price l"
  by (simp add: append_order_to_level_def)

lemma level_ok_append: "level_ok l \<or> l = empty_level p \<Longrightarrow> node_ok n \<Longrightarrow> level_ok (append_order_to_level l n)"
  by (auto simp: level_ok_def append_order_to_level_def empty_level_def)

lemma rest_on_side_ok: "side_ok b \<Longrightarrow> node_ok n \<Longrightarrow> side_ok (rest_on_side b price n)"
proof -
  assume b: "side_ok b" and n: "node_ok n"
  obtain pre l post where r: "s_levels (rest_on_side b price n) = pre @ append_order_to_level l n # post"
    "s_is_descending (rest_on_side b price n) = s_is_descending b" "l_price l = price"
    and or: "s_levels b = pre @ l # post \<or> s_levels b = pre @ post \<and> l = empty_level price \<and>
       (\<forall>x\<in>set pre. before (s_is_descending b) (l_price x) price) \<and>
       (\<forall>x\<in>set post. before (s_is_descending b) price (l_price x))"
    using rest_on_side_cases [OF b] .
  have "level_ok (append_order_to_level l n)" using or b n by (auto simp: side_ok_def intro!: level_ok_append)
  moreover have "sorted_wrt (before (s_is_descending b)) (map l_price (s_levels (rest_on_side b price n)))"
    using or b r by (auto simp: side_ok_def sorted_wrt_append intro: before_trans)
  ultimately show ?thesis using or b r by (auto simp: side_ok_def)
qed

lemma unlink_some:
  "unlink i ns = Some (n, ms) \<Longrightarrow> n_order_id n = i \<and> (\<exists>pre post. ns = pre @ n # post \<and> ms = pre @ post)"
proof (induction ns arbitrary: ms)
  case Nil
  then show ?case by simp
next
  case (Cons a ns)
  show ?case
  proof (cases "n_order_id a = i")
    case True
    then show ?thesis using Cons.prems by (intro conjI exI [of _ "[]"] exI [of _ ns]) auto
  next
    case False
    then obtain ms' where "unlink i ns = Some (n, ms')" "ms = a # ms'" using Cons.prems by auto
    with Cons.IH [of ms'] show ?thesis by (metis append_Cons)
  qed
qed

lemma side_ok_replace:
  assumes "s_levels b = pre @ l # post" and "side_ok b" and "l_price l1 = l_price l" and "level_ok l1"
  shows "side_ok (b\<lparr>s_levels := pre @ l1 # post\<rparr>)"
  using assms by (auto simp: side_ok_def sorted_wrt_append)

lemma side_ok_drop:
  assumes "s_levels b = pre @ l # post" and "side_ok b"
  shows "side_ok (b\<lparr>s_levels := pre @ post\<rparr>)"
  using assms by (auto simp: side_ok_def sorted_wrt_append)

definition cancel_on_level :: "price_level \<Rightarrow> order_node \<Rightarrow> order_node list \<Rightarrow> price_level" where
  "cancel_on_level l n ns = l\<lparr>l_nodes := ns, l_total_volume := dsub (l_total_volume l) (n_remaining n),
     l_order_count := l_order_count l - 1\<rparr>"

lemma cancel_order_cases:
  assumes "side_ok (side_of e side)" and "side = C_BUY \<or> side = C_SELL"
  obtains (absent) "cancel_order i side price e = (Inr False, e)"
    "\<forall>l\<in>set (s_levels (side_of e side)). l_price l = price \<longrightarrow> unlink i (l_nodes l) = None"
    | (hit) pre l post n ns where "s_levels (side_of e side) = pre @ l # post" "l_price l = price"
      "unlink i (l_nodes l) = Some (n, ns)"
      "cancel_order i side price e = (Inr True, set_side e side ((side_of e side)\<lparr>s_levels :=
         pre @ (if ns = [] then [] else [cancel_on_level l n ns]) @ post\<rparr>))"
proof (cases rule: find_level_cases [OF assms(1), of price])
  case 1
  then show ?thesis using assms(2) absent by (auto simp: cancel_order_def Let_def)
next
  case (2 k l)
  let ?b = "side_of e side"
  let ?pre = "take k (s_levels ?b)"
  let ?post = "drop (Suc k) (s_levels ?b)"
  have split: "s_levels ?b = ?pre @ l # ?post" using 2(2,3) by (metis id_take_nth_drop)
  have lok: "level_ok l" using assms(1) 2 by (auto simp: side_ok_def list_all_iff)
  show ?thesis
  proof (cases "unlink i (l_nodes l)")
    case None
    have "l' = l" if "l' \<in> set (s_levels ?b)" "l_price l' = price" for l'
    proof -
      obtain j where j: "j < length (s_levels ?b)" "s_levels ?b ! j = l'" using \<open>l' \<in> _\<close> by (auto simp: in_set_conv_nth)
      have srt: "sorted_wrt (before (s_is_descending ?b)) (map l_price (s_levels ?b))"
        using assms(1) by (simp add: side_ok_def)
      have "j = k"
        using sorted_levels_nth [OF srt, of j k] sorted_levels_nth [OF srt, of k j] 2 j that(2)
        by (cases j k rule: linorder_cases) auto
      then show ?thesis using 2 j by simp
    qed
    then have "\<forall>l'\<in>set (s_levels ?b). l_price l' = price \<longrightarrow> unlink i (l_nodes l') = None"
      using None by metis
    moreover have "cancel_order i side price e = (Inr False, e)"
      using None 2 assms(2) by (auto simp: cancel_order_def Let_def)
    ultimately show ?thesis by (rule absent [rotated])
  next
    case (Some r)
    obtain n ns where r: "r = (n, ns)" by (cases r)
    have len: "length (l_nodes l) = Suc (length ns)" using unlink_some [of i "l_nodes l" n ns] Some r by auto
    have "cancel_order i side price e = (Inr True, set_side e side (?b\<lparr>s_levels :=
         ?pre @ (if ns = [] then [] else [cancel_on_level l n ns]) @ ?post\<rparr>))"
      using 2 Some r assms(2) len lok
      by (auto simp: cancel_order_def Let_def maybe_compact_level_def remove_level_def cancel_on_level_def
          level_ok_def upd_conv_take_nth_drop nth_append)
    then show ?thesis using hit [OF split 2(4)] Some r by simp
  qed
qed

lemma set_side_simps [simp]:
  "side_of (set_side e side b) side = b"
  "e_trades (set_side e side b) = e_trades e"
  by (simp_all add: side_of_def set_side_def)

lemma engine_ok_set_side:
  "engine_ok e \<Longrightarrow> side_ok b \<Longrightarrow> s_is_descending b = s_is_descending (side_of e side) \<Longrightarrow> engine_ok (set_side e side b)"
  by (auto simp: engine_ok_def set_side_def side_of_def)

lemma engine_ok_side: "engine_ok e \<Longrightarrow> side_ok (side_of e side)"
  by (simp add: engine_ok_def side_of_def)

lemma cancel_on_level_ok:
  "level_ok l \<Longrightarrow> unlink i (l_nodes l) = Some (n, ns) \<Longrightarrow> ns \<noteq> [] \<Longrightarrow> level_ok (cancel_on_level l n ns)"
  using unlink_some [of i "l_nodes l" n ns] by (auto simp: level_ok_def cancel_on_level_def)

lemma cancel_order_ok:
  assumes "engine_ok e"
  shows "engine_ok (snd (cancel_order i side price e))"
proof (cases "side = C_BUY \<or> side = C_SELL")
  case False
  then show ?thesis using assms by (simp add: cancel_order_def)
next
  case True
  show ?thesis
  proof (cases rule: cancel_order_cases [OF engine_ok_side [OF assms, of side] True, of i price])
    case 1
    then show ?thesis using assms by simp
  next
    case (2 pre l post n ns)
    note b = engine_ok_side [OF assms, of side]
    have "level_ok l" using b 2(1) by (simp add: side_ok_def)
    then have "side_ok ((side_of e side)\<lparr>s_levels := pre @ (if ns = [] then [] else [cancel_on_level l n ns]) @ post\<rparr>)"
      using side_ok_drop [OF 2(1) b] side_ok_replace [OF 2(1) b, of "cancel_on_level l n ns"] cancel_on_level_ok 2(3)
      by (simp add: cancel_on_level_def)
    then show ?thesis using 2(4) assms by (simp add: engine_ok_set_side)
  qed
qed

lemma add_passive_order_ok:
  assumes "engine_ok e" and "is_ice \<longrightarrow> 0 < vis"
  shows "engine_ok (snd (add_passive_order i side price qty is_ice vis e))"
proof -
  let ?e = "e\<lparr>e_node_pool_size := e_node_pool_size e + 1\<rparr>"
  let ?n = "\<lparr>n_order_id = i, n_remaining = qty, n_visible = (if is_ice then vis else qty), n_is_iceberg = is_ice\<rparr>"
  have e: "engine_ok ?e" using assms by (simp add: engine_ok_def)
  have "engine_ok (set_side ?e side (rest_on_side (side_of ?e side) price ?n))" if "0 < qty"
  proof (rule engine_ok_set_side [OF e])
    have "node_ok ?n" using that assms(2) by (simp add: node_ok_def)
    then show "side_ok (rest_on_side (side_of ?e side) price ?n)"
      using rest_on_side_ok [OF engine_ok_side [OF e, of side]] by simp
    show "s_is_descending (rest_on_side (side_of ?e side) price ?n) = s_is_descending (side_of ?e side)"
      by (rule rest_on_side_cases [OF engine_ok_side [OF e, of side], of price ?n])
  qed
  then show ?thesis
    using assms(1) by (auto simp: add_passive_order_def ensure_node_pool_cap_def Let_def)
qed

lemma opposite_ok: "engine_ok e \<Longrightarrow> side_ok (opposite e c)"
  by (simp add: engine_ok_def opposite_def)

lemma opposite_simps [simp]: "opposite (e\<lparr>e_trades := ts\<rparr>) c = opposite e c"
  "opposite (set_opposite e c ls) c = (opposite e c)\<lparr>s_levels := ls\<rparr>"
  by (simp_all add: opposite_def set_opposite_def)

lemma engine_ok_set_opposite:
  "engine_ok e \<Longrightarrow> side_ok ((opposite e c)\<lparr>s_levels := ls\<rparr>) \<Longrightarrow> engine_ok ((set_opposite e c ls)\<lparr>e_trades := ts\<rparr>)"
  by (auto simp: engine_ok_def set_opposite_def opposite_def split: if_splits)

text \<open>The trade buffer is never filled when the opposite side can produce at most 1024 trades.\<close>

definition fits_buffer :: "engine \<Rightarrow> corder \<Rightarrow> bool" where
  "fits_buffer e c \<longleftrightarrow> int (levels_bound (s_levels (opposite e c))) \<le> INITIAL_TRADES_CAP"

lemma match_walk:
  assumes "engine_ok e" and "fits_buffer e c" and "0 \<le> c_remaining c"
    and "walk_levels c (c_remaining c) [] (s_levels (opposite e c)) = (ls, rem, trades, full)"
  shows "\<not> full" and "levels_spec (s_is_descending (opposite e c)) c [] (s_levels (opposite e c)) (ls, rem, trades, False)"
    and "side_ok ((opposite e c)\<lparr>s_levels := ls\<rparr>)"
proof -
  have ok: "side_ok (opposite e c)" using opposite_ok [OF assms(1)] .
  then have spec: "levels_spec (s_is_descending (opposite e c)) c [] (s_levels (opposite e c)) (ls, rem, trades, full)"
    using walk_levels_spec [of "s_levels (opposite e c)" "c_remaining c" _ c "[]"] assms(3,4)
    by (metis side_ok_def)
  then show full: "\<not> full" using assms(2) by (auto simp: levels_spec_def fits_buffer_def)
  show "levels_spec (s_is_descending (opposite e c)) c [] (s_levels (opposite e c)) (ls, rem, trades, False)"
    using spec full by simp
  show "side_ok ((opposite e c)\<lparr>s_levels := ls\<rparr>)"
    using spec full ok by (simp add: levels_spec_def side_ok_def)
qed

lemma match_active_order_ok:
  assumes "engine_ok e" and "fits_buffer e c" and "0 \<le> c_remaining c"
  shows "engine_ok (snd (match_active_order c e))"
proof -
  obtain ls rem trades full where w: "walk_levels c (c_remaining c) [] (s_levels (opposite e c)) = (ls, rem, trades, full)"
    by (cases "walk_levels c (c_remaining c) [] (s_levels (opposite e c))")
  have e0: "engine_ok (e\<lparr>e_trades := []\<rparr>)" using assms(1) by (simp add: engine_ok_def)
  have "engine_ok ((set_opposite (e\<lparr>e_trades := []\<rparr>) c ls)\<lparr>e_trades := trades\<rparr>)"
    using engine_ok_set_opposite [OF e0] match_walk(3) [OF assms w] by simp
  then show ?thesis
    using w e0 match_walk(1) [OF assms w] by (auto simp: match_active_order_def match_internal_def Let_def)
qed

inductive reachable_engine :: "engine \<Rightarrow> bool" where
  new: "reachable_engine new_engine"
| reset: "reachable_engine e \<Longrightarrow> reachable_engine (reset e)"
| add: "reachable_engine e \<Longrightarrow> is_ice \<longrightarrow> 0 < vis \<Longrightarrow>
    reachable_engine (snd (add_passive_order i side price qty is_ice vis e))"
| cancel: "reachable_engine e \<Longrightarrow> reachable_engine (snd (cancel_order i side price e))"
| match: "reachable_engine e \<Longrightarrow> fits_buffer e c \<Longrightarrow> 0 \<le> c_remaining c \<Longrightarrow>
    reachable_engine (snd (match_active_order c e))"

lemma reachable_engine_ok: "reachable_engine e \<Longrightarrow> engine_ok e"
proof (induction rule: reachable_engine.induct)
  case new
  show ?case by (simp add: new_engine_def engine_ok_def side_ok_def)
next
  case (reset e)
  then show ?case by (simp add: reset_def engine_ok_def side_ok_def)
next
  case (add e is_ice vis i side price qty)
  then show ?case by (simp add: add_passive_order_ok)
next
  case (cancel e i side price)
  then show ?case by (simp add: cancel_order_ok)
next
  case (match e c)
  then show ?case by (simp add: match_active_order_ok)
qed

text \<open>
  C5. In every engine reachable by adds, cancels, matches and resets, bids are strictly descending
  and asks strictly ascending in price, no level is empty, every level's order count is the length of
  its list, and every resting order has a positive remaining and visible quantity.
\<close>

theorem engine_invariant:
  assumes "reachable_engine e" and "b = e_bids e \<or> b = e_asks e"
  shows "sorted_wrt (if b = e_bids e then (>) else (<)) (map l_price (s_levels b)) \<and>
    (\<forall>l\<in>set (s_levels b). l_nodes l \<noteq> [] \<and> l_order_count l = int (length (l_nodes l)) \<and>
       (\<forall>n\<in>set (l_nodes l). 0 < n_remaining n \<and> 0 < n_visible n))"
proof -
  have ok: "engine_ok e" using reachable_engine_ok [OF assms(1)] .
  have "before True = (>)" "before False = (<)" by (auto simp: before_def fun_eq_iff)
  then show ?thesis
    using ok assms(2) by (auto simp: engine_ok_def side_ok_def list_all_iff level_ok_def node_ok_def)
qed

theorem engine_invariant_witness:
  "(let e0 = snd (add_passive_order 7 C_SELL 100 5 True 2 new_engine);
        e1 = snd (add_passive_order 8 C_SELL 99 3 False 0 e0);
        e = snd (match_active_order \<lparr>c_order_id = 9, c_side = C_BUY, c_type = C_LIMIT, c_price = Some 100,
          c_quantity = 4, c_remaining = 4, c_is_iceberg = False, c_visible = 4, c_hidden = 0\<rparr> e1) in
     reachable_engine e \<and> map l_price (s_levels (e_asks e)) = [100] \<and>
     (\<forall>l\<in>set (s_levels (e_asks e)). l_order_count l = int (length (l_nodes l))))"
proof -
  let ?e0 = "snd (add_passive_order 7 C_SELL 100 5 True 2 new_engine)"
  let ?e1 = "snd (add_passive_order 8 C_SELL 99 3 False 0 ?e0)"
  let ?c = "\<lparr>c_order_id = 9, c_side = C_BUY, c_type = C_LIMIT, c_price = Some 100,
          c_quantity = 4, c_remaining = 4, c_is_iceberg = False, c_visible = 4, c_hidden = 0\<rparr>"
  let ?e = "snd (match_active_order ?c ?e1)"
  have "reachable_engine ?e1" by (intro reachable_engine.intros) simp_all
  moreover have "fits_buffer ?e1 ?c" by code_simp
  ultimately have r: "reachable_engine ?e" by (intro reachable_engine.match) simp_all
  have "map l_price (s_levels (e_asks ?e)) = [100]" by code_simp
  then show ?thesis using engine_invariant [OF r, of "e_asks ?e"] r by (auto simp: Let_def)
qed

subsection \<open>Which trades a match produces\<close>

text \<open>The result of a match that gets past the pre-checks.\<close>

lemma match_runs:
  assumes "engine_ok e" and "fits_buffer e c" and "0 \<le> c_remaining c"
    and "c_type c \<noteq> C_POST_ONLY" and "c_type c = C_FOK \<longrightarrow> precheck_fok e c"
    and "walk_levels c (c_remaining c) [] (s_levels (opposite e c)) = (ls, rem, trades, full)"
  shows "match_active_order c e =
    ((trades, if 0 < rem \<and> (c_type c = C_MARKET \<or> c_type c = C_IOC) \<and> trades = [] then C_NO_LIQUIDITY else C_OK, rem),
     (set_opposite (e\<lparr>e_trades := []\<rparr>) c ls)\<lparr>e_trades := trades\<rparr>)"
proof -
  have "precheck_fok (e\<lparr>e_trades := []\<rparr>) c = precheck_fok e c" by (simp add: precheck_fok_def)
  then show ?thesis
    using assms(4-) match_walk(1) [OF assms(1-3,6)] by (auto simp: match_active_order_def match_internal_def Let_def)
qed

lemma match_rejects:
  "c_type c = C_POST_ONLY \<Longrightarrow> match_active_order c e =
     (([], if would_cross e c then C_POST_ONLY_CROSS else C_OK, c_remaining c), e\<lparr>e_trades := []\<rparr>)"
  "c_type c = C_FOK \<Longrightarrow> \<not> precheck_fok e c \<Longrightarrow> match_active_order c e =
     (([], C_FOK_REJECTED, c_remaining c), e\<lparr>e_trades := []\<rparr>)"
  by (auto simp: match_active_order_def match_internal_def code_defs would_cross_def precheck_fok_def)

text \<open>
  C13. Whatever the rounding of the doubles, every trade of a match has a positive quantity, a price
  within the taker's limit, and the price of a level on which its maker rests; the trades run from
  the best price to the worst, and the taker is never filled beyond its quantity into the negative.
\<close>

theorem match_trades_sound:
  assumes "reachable_engine e" and "fits_buffer e c" and "0 \<le> c_remaining c"
    and "match_active_order c e = ((ts, outcome, rem), e1)"
  shows "0 \<le> rem \<and> list_all (trade_ok c (s_levels (opposite e c))) ts \<and>
    sorted_wrt (no_worse (s_is_descending (opposite e c))) (map tr_price ts)"
proof -
  have ok: "engine_ok e" using reachable_engine_ok [OF assms(1)] .
  obtain ls rem' trades full where w: "walk_levels c (c_remaining c) [] (s_levels (opposite e c)) = (ls, rem', trades, full)"
    by (cases "walk_levels c (c_remaining c) [] (s_levels (opposite e c))")
  show ?thesis
  proof (cases "c_type c = C_POST_ONLY \<or> c_type c = C_FOK \<and> \<not> precheck_fok e c")
    case True
    then show ?thesis using assms(3,4) match_rejects [of c e] by auto
  next
    case False
    then have "ts = trades" "rem = rem'" using match_runs [OF ok assms(2,3) _ _ w] assms(4) by auto
    then show ?thesis
      using match_walk(2) [OF ok assms(2,3) w] opposite_ok [OF ok, of c] by (auto simp: levels_spec_def side_ok_def)
  qed
qed

theorem match_trades_sound_witness:
  "(let e0 = snd (add_passive_order 7 C_SELL 100 5 True 2 new_engine);
        e1 = snd (add_passive_order 8 C_SELL 99 3 False 0 e0);
        c = \<lparr>c_order_id = 9, c_side = C_BUY, c_type = C_LIMIT, c_price = Some 100,
          c_quantity = 7, c_remaining = 7, c_is_iceberg = False, c_visible = 7, c_hidden = 0\<rparr>;
        r = match_active_order c e1 in
     map (\<lambda>t. (tr_maker t, tr_price t, tr_quantity t)) (fst (fst r)) = [(8, 99, 3), (7, 100, 2), (7, 100, 2)] \<and>
     list_all (trade_ok c (s_levels (opposite e1 c))) (fst (fst r)))"
proof -
  let ?e0 = "snd (add_passive_order 7 C_SELL 100 5 True 2 new_engine)"
  let ?e1 = "snd (add_passive_order 8 C_SELL 99 3 False 0 ?e0)"
  let ?c = "\<lparr>c_order_id = 9, c_side = C_BUY, c_type = C_LIMIT, c_price = Some 100,
          c_quantity = 7, c_remaining = 7, c_is_iceberg = False, c_visible = 7, c_hidden = 0\<rparr>"
  let ?r = "match_active_order ?c ?e1"
  have r: "reachable_engine ?e1" by (intro reachable_engine.intros) simp_all
  have f: "fits_buffer ?e1 ?c" by code_simp
  have "map (\<lambda>t. (tr_maker t, tr_price t, tr_quantity t)) (fst (fst ?r)) = [(8, 99, 3), (7, 100, 2), (7, 100, 2)]"
    by code_simp
  moreover have "?r = ((fst (fst ?r), fst (snd (fst ?r)), snd (snd (fst ?r))), snd ?r)" by simp
  ultimately show ?thesis
    using match_trades_sound [OF r f, of "fst (fst ?r)" "fst (snd (fst ?r))" "snd (snd (fst ?r))" "snd ?r"]
    by (simp add: Let_def)
qed

subsection \<open>The book is never left crossed\<close>

lemma would_cross_iff_head:
  assumes "c_side c = C_BUY \<or> c_side c = C_SELL" and "c_price c = Some p"
  shows "would_cross e c \<longleftrightarrow> (case s_levels (opposite e c) of [] \<Rightarrow> False | l # _ \<Rightarrow> acceptable c (l_price l))"
  using assms by (auto simp: would_cross_def acceptable_def code_defs not_less split: list.split)

lemma acceptable_head:
  assumes "engine_ok e" and "l \<in> set (s_levels (opposite e c))" and "acceptable c (l_price l)"
    and "s_levels (opposite e c) = k # ls" and "c_side c = C_BUY \<or> c_side c = C_SELL"
  shows "acceptable c (l_price k)"
proof -
  have "sorted_wrt (before (s_is_descending (opposite e c))) (map l_price (s_levels (opposite e c)))"
    using opposite_ok [OF assms(1), of c] by (simp add: side_ok_def)
  then have "l_price k = l_price l \<or> before (s_is_descending (opposite e c)) (l_price k) (l_price l)"
    using assms(2,4) by auto
  then show ?thesis
    using assms(1,3,5) by (auto simp: acceptable_def before_def opposite_def engine_ok_def code_defs split: option.splits)
qed

text \<open>
  C24. When a limit order has been matched and something of it remains, the opposite side holds no
  level at an acceptable price any more, so resting the remainder cannot cross the book.
\<close>

theorem match_leaves_uncrossed:
  assumes "reachable_engine e" and "fits_buffer e c" and "c_side c = C_BUY \<or> c_side c = C_SELL"
    and "c_type c = C_LIMIT" and "c_price c = Some p" and "0 \<le> c_remaining c"
    and "match_active_order c e = ((ts, outcome, rem), e1)" and "0 < rem"
  shows "outcome = C_OK \<and> \<not> would_cross e1 c \<and> (\<forall>l\<in>set (s_levels (opposite e1 c)). \<not> acceptable c (l_price l))"
proof -
  have ok: "engine_ok e" using reachable_engine_ok [OF assms(1)] .
  obtain ls rem' trades full where w: "walk_levels c (c_remaining c) [] (s_levels (opposite e c)) = (ls, rem', trades, full)"
    by (cases "walk_levels c (c_remaining c) [] (s_levels (opposite e c))")
  have t: "c_type c \<noteq> C_POST_ONLY" "c_type c \<noteq> C_FOK" "c_type c \<noteq> C_MARKET" "c_type c \<noteq> C_IOC"
    using assms(4) by (simp_all add: code_defs)
  have m: "outcome = C_OK" "rem = rem'" "e1 = (set_opposite (e\<lparr>e_trades := []\<rparr>) c ls)\<lparr>e_trades := trades\<rparr>"
    using match_runs [OF ok assms(2,6) t(1) _ w] t assms(7) by auto
  then have lv: "s_levels (opposite e1 c) = ls" by simp
  have head: "case ls of [] \<Rightarrow> True | l # _ \<Rightarrow> \<not> acceptable c (l_price l)"
    using match_walk(2) [OF ok assms(2,6) w] assms(8) m(2) by (simp add: levels_spec_def)
  have ok1: "engine_ok e1" using match_active_order_ok [OF ok assms(2,6)] assms(7) by simp
  have "\<not> acceptable c (l_price l)" if "l \<in> set ls" for l
    using acceptable_head [OF ok1, of l c] that lv head assms(3) by (cases ls) auto
  then show ?thesis using m(1) lv head would_cross_iff_head [OF assms(3,5), of e1] by (auto split: list.splits)
qed

theorem match_leaves_uncrossed_witness:
  "(let e1 = snd (add_passive_order 8 C_SELL 99 3 False 0 (snd (add_passive_order 7 C_SELL 101 5 True 2 new_engine)));
        c = \<lparr>c_order_id = 9, c_side = C_BUY, c_type = C_LIMIT, c_price = Some 100,
          c_quantity = 7, c_remaining = 7, c_is_iceberg = False, c_visible = 7, c_hidden = 0\<rparr>;
        r = match_active_order c e1 in
     snd (snd (fst r)) = 4 \<and> \<not> would_cross (snd r) c)"
proof -
  let ?e1 = "snd (add_passive_order 8 C_SELL 99 3 False 0 (snd (add_passive_order 7 C_SELL 101 5 True 2 new_engine)))"
  let ?c = "\<lparr>c_order_id = 9, c_side = C_BUY, c_type = C_LIMIT, c_price = Some 100,
          c_quantity = 7, c_remaining = 7, c_is_iceberg = False, c_visible = 7, c_hidden = 0\<rparr>"
  let ?r = "match_active_order ?c ?e1"
  have r: "reachable_engine ?e1" by (intro reachable_engine.intros) simp_all
  have f: "fits_buffer ?e1 ?c" by code_simp
  have four: "snd (snd (fst ?r)) = 4" by code_simp
  have "?r = ((fst (fst ?r), fst (snd (fst ?r)), snd (snd (fst ?r))), snd ?r)" by simp
  then show ?thesis
    using match_leaves_uncrossed [OF r f, of 100 "fst (fst ?r)" "fst (snd (fst ?r))" "snd (snd (fst ?r))" "snd ?r"] four
    by (simp add: Let_def)
qed

text \<open>
  A post-only order never trades and never changes the book, and it is refused exactly when some
  resting order of the opposite side has a price its limit accepts.
\<close>

theorem post_only_never_takes:
  assumes "reachable_engine e" and "c_type c = C_POST_ONLY" and "c_price c = Some p"
    and "c_side c = C_BUY \<or> c_side c = C_SELL"
  shows "match_active_order c e =
    (([], if \<exists>l\<in>set (s_levels (opposite e c)). acceptable c (l_price l) then C_POST_ONLY_CROSS else C_OK,
      c_remaining c), e\<lparr>e_trades := []\<rparr>)"
proof -
  have ok: "engine_ok e" using reachable_engine_ok [OF assms(1)] .
  have "would_cross e c \<longleftrightarrow> (\<exists>l\<in>set (s_levels (opposite e c)). acceptable c (l_price l))"
    using would_cross_iff_head [OF assms(4,3), of e] acceptable_head [OF ok, of _ c] assms(4)
    by (cases "s_levels (opposite e c)") auto
  then show ?thesis using match_rejects(1) [OF assms(2)] by simp
qed

theorem post_only_never_takes_witness:
  "(let e = snd (add_passive_order 8 C_SELL 99 3 False 0 new_engine);
        c = \<lparr>c_order_id = 9, c_side = C_BUY, c_type = C_POST_ONLY, c_price = Some 100,
          c_quantity = 7, c_remaining = 7, c_is_iceberg = False, c_visible = 7, c_hidden = 0\<rparr> in
     match_active_order c e = (([], C_POST_ONLY_CROSS, 7), e\<lparr>e_trades := []\<rparr>))"
proof -
  let ?e = "snd (add_passive_order 8 C_SELL 99 3 False 0 new_engine)"
  let ?c = "\<lparr>c_order_id = 9, c_side = C_BUY, c_type = C_POST_ONLY, c_price = Some 100,
          c_quantity = 7, c_remaining = 7, c_is_iceberg = False, c_visible = 7, c_hidden = 0\<rparr>"
  have r: "reachable_engine ?e" by (intro reachable_engine.intros) simp_all
  have "\<exists>l\<in>set (s_levels (opposite ?e ?c)). acceptable ?c (l_price l)" by code_simp
  then show ?thesis using post_only_never_takes [OF r, of ?c 100] by (simp add: Let_def)
qed

subsection \<open>The loop over a level ends\<close>

text \<open>
  The same loop run for at most the given number of turns, \<open>None\<close> when they are used up before the loop condition is false.
\<close>

fun level_loop :: "nat \<Rightarrow> corder \<Rightarrow> rat \<Rightarrow> order_node list \<Rightarrow> order_node list \<Rightarrow> walk \<Rightarrow> (order_node list \<times> walk \<times> bool) option" where
  "level_loop n c price skipped [] w = Some (skipped, w, False)"
| "level_loop 0 c price skipped (maker # rest) w = (if \<not> 0 < w_rem w then Some (skipped @ maker # rest, w, False) else None)"
| "level_loop (Suc n) c price skipped (maker # rest) w =
     (if \<not> 0 < w_rem w then Some (skipped @ maker # rest, w, False)
      else let (fill, maker1, rem1) = take_from (w_rem w) maker;
               w1 = w\<lparr>w_rem := rem1, w_vol := dsub (w_vol w) fill\<rparr> in
        if INITIAL_TRADES_CAP \<le> int (length (w_trades w1)) then Some (skipped @ maker1 # rest, w1, True)
        else let w2 = w1\<lparr>w_trades := w_trades w1 @ [emit c price maker fill]\<rparr> in
          if n_remaining maker1 \<le> 0 then level_loop n c price [] rest (w2\<lparr>w_count := w_count w2 - 1\<rparr>)
          else if n_visible maker1 \<le> 0 then level_loop n c price (skipped @ [maker1]) rest w2
          else level_loop n c price skipped (maker1 # rest) w2)"

lemma level_loop_enough: "walk_measure makers w \<le> n \<Longrightarrow> level_loop n c price skipped makers w = Some (walk_level c price skipped makers w)"
proof (induction n arbitrary: skipped makers w)
  case 0
  then show ?case by (cases makers) (auto simp: walk_measure_def)
next
  case (Suc n)
  show ?case
  proof (cases makers)
    case Nil
    then show ?thesis by simp
  next
    case (Cons maker rest)
    obtain fill maker1 rem1 where take: "take_from (w_rem w) maker = (fill, maker1, rem1)" by (cases "take_from (w_rem w) maker")
    show ?thesis
    proof (cases "0 < w_rem w")
      case False
      then show ?thesis by (simp add: Cons walk_level.simps(2))
    next
      case True
      have gone: "walk_measure rest w' \<le> n" for w'
        using walk_measure_gone [OF True, of rest w' maker] Suc.prems Cons by simp
      have stays: "walk_measure (maker1 # rest) w' \<le> n" if "\<not> n_remaining maker1 \<le> 0" "w_rem w' = rem1" for w'
        using walk_measure_stays [OF True, of w' maker maker1 rest] take_from_progress [OF take] that Suc.prems Cons by simp
      show ?thesis
        using True gone stays by (simp add: Cons take walk_level.simps(2) Suc.IH Let_def)
    qed
  qed
qed

text \<open>
  C28. The hot loop terminates: whatever the book holds, with icebergs and rounding, two turns for every
  resting order of a level and three more are enough, and then the result is the one the matching properties are about.
\<close>

theorem level_loop_terminates:
  "level_loop (2 * length makers + 3 + n) c price skipped makers w = Some (walk_level c price skipped makers w)"
  by (rule level_loop_enough) (auto simp: walk_measure_def split: list.split)

end
