(* ===== verification/Matching_Spec.thy ===== *)
theory Matching_Spec
  imports Engine
begin

section \<open>Price-time priority: the engine refines a queue\<close>

text \<open>
  The contract of the matching engine as a function on one queue: the resting orders of the opposite
  side, best price first and oldest first within a price. A taker consumes the queue from its
  front for as long as its limit accepts the price. The engine's levels, counters, buffer and iceberg
  chunks implement this function when the quantities are multiples of a power of two below
  2^53 of its units, on which the doubles of the engine are exact (\<open>fine\<close>).
\<close>

subsection \<open>The abstract matcher\<close>

type_synonym fill = "(int \<times> rat) \<times> rat"

fun fill_queue :: "(rat \<Rightarrow> bool) \<Rightarrow> rat \<Rightarrow> fill list \<Rightarrow> fill list \<times> rat \<times> fill list" where
  "fill_queue acc rem [] = ([], rem, [])"
| "fill_queue acc rem (((i, p), q) # queue) =
     (if rem \<le> 0 \<or> \<not> acc p then ([], rem, ((i, p), q) # queue)
      else if q \<le> rem then
        (let (fs, left, rest) = fill_queue acc (rem - q) queue in (((i, p), q) # fs, left, rest))
      else ([((i, p), rem)], 0, ((i, p), q - rem) # queue))"

text \<open>Consecutive fills of one maker at one price count as one: an iceberg is hit chunk by chunk.\<close>

fun join_fill :: "fill \<Rightarrow> fill list \<Rightarrow> fill list" where
  "join_fill (k, a) [] = [(k, a)]"
| "join_fill (k, a) ((k', b) # fs) = (if k = k' then (k, a + b) # fs else (k, a) # (k', b) # fs)"

definition merge_fills :: "fill list \<Rightarrow> fill list" where
  "merge_fills fs = foldr join_fill fs []"

definition level_queue :: "rat \<Rightarrow> order_node list \<Rightarrow> fill list" where
  "level_queue p ns = map (\<lambda>n. ((n_order_id n, p), n_remaining n)) ns"

definition book_queue :: "price_level list \<Rightarrow> fill list" where
  "book_queue ls = concat (map (\<lambda>l. level_queue (l_price l) (l_nodes l)) ls)"

definition trade_fill :: "trade_result \<Rightarrow> fill" where
  "trade_fill t = ((tr_maker t, tr_price t), tr_quantity t)"

definition queue_volume :: "fill list \<Rightarrow> rat" where
  "queue_volume q = (\<Sum>f\<leftarrow>q. snd f)"

lemma join_join: "join_fill (k, a) (join_fill (k, b) fs) = join_fill (k, a + b) fs"
  by (cases fs) (auto simp: add.assoc)

lemma join_foldr: "foldr join_fill (join_fill x m) z = join_fill x (foldr join_fill m z)"
proof (cases x)
  case (Pair k a)
  then show ?thesis
  proof (cases m)
    case Nil
    with Pair show ?thesis by simp
  next
    case (Cons y m')
    with Pair show ?thesis by (cases y) (auto simp: join_join)
  qed
qed

lemma foldr_join_merge: "foldr join_fill xs z = foldr join_fill (merge_fills xs) z"
  by (induction xs) (auto simp: merge_fills_def join_foldr)

lemma merge_append: "merge_fills (xs @ ys) = foldr join_fill (merge_fills xs) (merge_fills ys)"
  using foldr_join_merge [of xs "merge_fills ys"] by (simp add: merge_fills_def)

lemma merge_simps [simp]:
  "merge_fills [] = []" "merge_fills (x # xs) = join_fill x (merge_fills xs)"
  by (simp_all add: merge_fills_def)

lemma queue_volume_simps [simp]:
  "queue_volume [] = 0" "queue_volume (x # xs) = snd x + queue_volume xs"
  "queue_volume (xs @ ys) = queue_volume xs + queue_volume ys"
  by (simp_all add: queue_volume_def)

lemma queue_volume_join: "queue_volume (join_fill x fs) = snd x + queue_volume fs"
  by (cases x; cases fs) auto

lemma queue_volume_merge: "queue_volume (merge_fills fs) = queue_volume fs"
  by (induction fs) (simp_all add: queue_volume_join)

text \<open>The abstract matcher conserves quantities, stops for a reason, and serves in queue order.\<close>

lemma fill_queue_conserves:
  "fill_queue acc rem q = (fs, left, rest) \<Longrightarrow>
    queue_volume fs + left = rem \<and> queue_volume q = queue_volume fs + queue_volume rest"
proof (induction acc rem q arbitrary: fs left rest rule: fill_queue.induct)
  case (1 acc rem)
  then show ?case by simp
next
  case (2 acc rem i p x queue)
  then show ?case by (fastforce split: if_splits prod.splits)
qed

lemma fill_queue_append:
  "fill_queue acc rem (q1 @ q2) = (let (f1, r1, s1) = fill_queue acc rem q1 in
     if s1 = [] then (let (f2, r2, s2) = fill_queue acc r1 q2 in (f1 @ f2, r2, s2)) else (f1, r1, s1 @ q2))"
  by (induction acc rem q1 rule: fill_queue.induct) (auto simp: Let_def split: prod.split if_splits)

lemma fill_queue_chunk:
  assumes "0 < v" and "v \<le> rem" and "v < r" and "acc p"
  shows "\<exists>fs0 fs left rest. fill_queue acc rem (((i, p), r) # q) = (fs0, left, rest) \<and>
    fill_queue acc (rem - v) (((i, p), r - v) # q) = (fs, left, rest) \<and>
    merge_fills fs0 = join_fill ((i, p), v) (merge_fills fs)"
proof (cases "rem = v")
  case True
  then show ?thesis using assms by simp
next
  case False
  obtain fs left rest where f: "fill_queue acc (rem - r) q = (fs, left, rest)"
    by (cases "fill_queue acc (rem - r) q")
  show ?thesis using assms False f by (auto simp: join_join)
qed

lemma fill_queue_left:
  assumes "0 \<le> rem" and "\<forall>f\<in>set q. 0 \<le> snd f"
    and "rem \<le> queue_volume (takeWhile (\<lambda>f. acc (snd (fst f))) q)"
  shows "fst (snd (fill_queue acc rem q)) = 0"
  using assms
proof (induction acc rem q rule: fill_queue.induct)
  case (1 acc rem)
  then show ?case by simp
next
  case (2 acc rem i p x queue)
  then show ?case by (auto simp: Let_def split: prod.split if_splits)
qed

subsection \<open>Exact quantities\<close>

definition fine :: "int \<Rightarrow> rat \<Rightarrow> bool" where
  "fine s x \<longleftrightarrow> grid s x \<and> 0 \<le> x \<and> x < 2 ^ 53 * 2 powi s"

lemma fine_sub: "fine s a \<Longrightarrow> fine s b \<Longrightarrow> b \<le> a \<Longrightarrow> fine s (a - b)"
  by (auto simp: fine_def grid_diff)

lemma fine_dsub: "fine s a \<Longrightarrow> fine s b \<Longrightarrow> b \<le> a \<Longrightarrow> dsub a b = a - b"
  using fine_sub [of s a b] unfolding dsub_def by (intro rnd_grid [of s]) (auto simp: fine_def)

lemma fine_dadd: "fine s a \<Longrightarrow> fine s b \<Longrightarrow> a + b < 2 ^ 53 * 2 powi s \<Longrightarrow> dadd a b = a + b \<and> fine s (a + b)"
  unfolding dadd_def by (auto simp: fine_def grid_add intro!: rnd_grid [of s])

lemma fine_0 [simp]: "fine s 0"
  by (simp add: fine_def)

lemma grid_of_int: "grid 0 0" "grid 0 1" "grid 0 (numeral k)"
  by (auto simp: grid_def intro: exI [of _ 1] exI [of _ "numeral k"])

definition node_fine :: "int \<Rightarrow> order_node \<Rightarrow> bool" where
  "node_fine s n \<longleftrightarrow> node_ok n \<and> fine s (n_remaining n) \<and> fine s (n_visible n)"

definition volume :: "order_node list \<Rightarrow> rat" where
  "volume ns = (\<Sum>n\<leftarrow>ns. n_remaining n)"

definition level_fine :: "int \<Rightarrow> price_level \<Rightarrow> bool" where
  "level_fine s l \<longleftrightarrow> level_ok l \<and> list_all (node_fine s) (l_nodes l) \<and> l_total_volume l = volume (l_nodes l) \<and>
     fine s (l_total_volume l)"

definition side_fine :: "int \<Rightarrow> book_side \<Rightarrow> bool" where
  "side_fine s b \<longleftrightarrow> list_all (level_fine s) (s_levels b) \<and>
     (\<Sum>l\<leftarrow>s_levels b. l_total_volume l) < 2 ^ 53 * 2 powi s"

lemma volume_simps [simp]: "volume [] = 0" "volume (n # ns) = n_remaining n + volume ns"
  by (simp_all add: volume_def)

lemma level_queue_simps [simp]:
  "level_queue p [] = []" "level_queue p (n # ns) = ((n_order_id n, p), n_remaining n) # level_queue p ns"
  "level_queue p ns = [] \<longleftrightarrow> ns = []"
  by (auto simp: level_queue_def)

lemma book_queue_simps [simp]:
  "book_queue [] = []" "book_queue (l # ls) = level_queue (l_price l) (l_nodes l) @ book_queue ls"
  by (simp_all add: book_queue_def)

lemma volume_nonneg: "list_all node_ok ns \<Longrightarrow> 0 \<le> volume ns"
  by (induction ns) (auto simp: node_ok_def)

lemma queue_volume_level: "queue_volume (level_queue p ns) = volume ns"
  by (induction ns) auto

text \<open>One take, exactly.\<close>

lemma take_from_exact:
  assumes "take_from rem m = (fill, m1, rem1)" and "0 < rem" and "fine s rem" and "node_fine s m"
  shows "fine s fill" "fill \<le> n_remaining m" "n_remaining m1 = n_remaining m - fill" "rem1 = rem - fill"
    "fine s rem1" "fine s (n_remaining m1)" "fine s (n_visible m1)"
    and "n_remaining m1 \<le> 0 \<Longrightarrow> fill = n_remaining m"
    and "0 < n_remaining m1 \<Longrightarrow> fill = rem \<or> fill < n_remaining m \<and> fill \<le> rem"
proof -
  have f: "fine s (n_remaining m)" "fine s (n_visible m)" "0 < n_visible m"
    using assms(4) by (auto simp: node_fine_def node_ok_def)
  then have va: "fine s (visible_avail m)" "visible_avail m \<le> n_remaining m" by (auto simp: visible_avail_def)
  have e: "dsub (n_remaining m) (visible_avail m) = n_remaining m - visible_avail m"
    using fine_dsub [OF f(1) va(1)] va(2) by simp
  show fill: "fine s fill" "fill \<le> n_remaining m"
    using assms va by (auto simp: take_from_def Let_def split: if_splits)
  show rest: "n_remaining m1 = n_remaining m - fill" "rem1 = rem - fill"
    using assms va e fine_dsub [OF assms(3) va(1)] fine_dsub [OF f(1) assms(3)]
    by (auto simp: take_from_def Let_def split: if_splits)
  have le: "fill \<le> rem" using assms by (auto simp: take_from_def Let_def split: if_splits)
  show "fine s rem1" "fine s (n_remaining m1)"
    using rest fine_sub [OF assms(3) fill(1) le] fine_sub [OF f(1) fill] by simp_all
  have "rem \<le> n_visible m" if "\<not> visible_avail m \<le> rem" "n_is_iceberg m"
    using that by (auto simp: visible_avail_def split: if_splits)
  then show "fine s (n_visible m1)"
    using assms(1) e f fine_sub [OF f(1) va] fine_dsub [OF f(2) assms(3)] fine_sub [OF f(2) assms(3)]
    by (auto simp: take_from_def Let_def split: if_splits)
  show "n_remaining m1 \<le> 0 \<Longrightarrow> fill = n_remaining m" using rest fill by simp
  show "0 < n_remaining m1 \<Longrightarrow> fill = rem \<or> fill < n_remaining m \<and> fill \<le> rem" using rest le by simp
qed

text \<open>The walk along one level is the abstract matcher on that level's queue.\<close>

definition walk_refines :: "int \<Rightarrow> (rat \<Rightarrow> bool) \<Rightarrow> rat \<Rightarrow> order_node list \<Rightarrow> walk \<Rightarrow>
    order_node list \<times> walk \<times> bool \<Rightarrow> bool" where
  "walk_refines s acc p ms w r \<longleftrightarrow>
     (list_all (node_fine s) ms \<and> fine s (w_rem w) \<and> fine s (w_vol w) \<and> w_vol w = volume ms \<longrightarrow>
      (case r of (ns, w', full) \<Rightarrow> \<not> full \<longrightarrow>
        (\<exists>fs ts. fill_queue acc (w_rem w) (level_queue p ms) = (fs, w_rem w', level_queue p ns) \<and>
           w_trades w' = w_trades w @ ts \<and> merge_fills (map trade_fill ts) = merge_fills fs \<and>
           list_all (node_fine s) ns \<and> fine s (w_rem w') \<and> fine s (w_vol w') \<and> w_vol w' = volume ns)))"

lemma walk_level_refines:
  assumes "list_all node_ok ms" and "0 \<le> w_rem w" and acc: "acc p"
  shows "walk_refines s acc p ms w (walk_level c p [] ms w)"
proof (rule walk_ok_induct [where P = "walk_refines s acc p", OF assms(1,2)], goal_cases nil stop full gone stays)
  case (nil w)
  then show ?case by (simp add: walk_refines_def)
next
  case (stop m rest w)
  then show ?case by (auto simp: walk_refines_def)
next
  case (full m rest w fill m1 rem1)
  then show ?case by (simp add: walk_refines_def)
next
  case (gone m rest w fill m1 rem1 r)
  show ?case
    unfolding walk_refines_def
  proof (intro impI)
    assume h: "list_all (node_fine s) (m # rest) \<and> fine s (w_rem w) \<and> fine s (w_vol w) \<and> w_vol w = volume (m # rest)"
    then have m: "node_fine s m" "fine s (w_rem w)" and v: "fine s (w_vol w)" "w_vol w = n_remaining m + volume rest"
      by auto
    note t = take_from_exact [OF gone(3,2) m(2,1)]
    have fill: "fill = n_remaining m" using t(8) gone(5) .
    have "0 \<le> volume rest" using volume_nonneg gone(1) by simp
    then have "dsub (w_vol w) fill = volume rest" "fine s (volume rest)"
      using fine_dsub [OF v(1) t(1)] fine_sub [OF v(1) t(1)] v(2) fill by auto
    then have vol: "dsub (w_vol w) fill = volume rest" "fine s (volume rest)" by simp_all
    show "case r of (ns, w', full) \<Rightarrow> \<not> full \<longrightarrow>
        (\<exists>fs ts. fill_queue acc (w_rem w) (level_queue p (m # rest)) = (fs, w_rem w', level_queue p ns) \<and>
           w_trades w' = w_trades w @ ts \<and> merge_fills (map trade_fill ts) = merge_fills fs \<and>
           list_all (node_fine s) ns \<and> fine s (w_rem w') \<and> fine s (w_vol w') \<and> w_vol w' = volume ns)"
    proof (cases r)
      case (fields ns w' full)
      show ?thesis
        unfolding fields prod.case
      proof (rule impI)
        assume "\<not> full"
        with gone(6) h vol t(4,5) fields obtain fs ts
          where f: "fill_queue acc (w_rem w - fill) (level_queue p rest) = (fs, w_rem w', level_queue p ns)"
            "w_trades w' = w_trades w @ emit c p m fill # ts" "merge_fills (map trade_fill ts) = merge_fills fs"
            "list_all (node_fine s) ns \<and> fine s (w_rem w') \<and> fine s (w_vol w') \<and> w_vol w' = volume ns"
          by (auto simp: walk_refines_def)
        have "fill \<le> w_rem w" using take_from_ok(2) [OF gone(3,2)] gone(1) by simp
        then have "fill_queue acc (w_rem w) (level_queue p (m # rest)) =
            (((n_order_id m, p), fill) # fs, w_rem w', level_queue p ns)"
          using f(1) fill acc gone(2) by simp
        moreover have "merge_fills (map trade_fill (emit c p m fill # ts)) = merge_fills (((n_order_id m, p), fill) # fs)"
          using f(3) by (simp add: trade_fill_def)
        ultimately show "\<exists>fs ts. fill_queue acc (w_rem w) (level_queue p (m # rest)) = (fs, w_rem w', level_queue p ns) \<and>
           w_trades w' = w_trades w @ ts \<and> merge_fills (map trade_fill ts) = merge_fills fs \<and>
           list_all (node_fine s) ns \<and> fine s (w_rem w') \<and> fine s (w_vol w') \<and> w_vol w' = volume ns"
          using f(2,4) by blast
      qed
    qed
  qed
next
  case (stays m rest w fill m1 rem1 r)
  show ?case
    unfolding walk_refines_def
  proof (intro impI)
    assume h: "list_all (node_fine s) (m # rest) \<and> fine s (w_rem w) \<and> fine s (w_vol w) \<and> w_vol w = volume (m # rest)"
    then have m: "node_fine s m" "fine s (w_rem w)" and v: "fine s (w_vol w)" "w_vol w = n_remaining m + volume rest"
      by auto
    note t = take_from_exact [OF stays(3,2) m(2,1)]
    note t' = take_from_ok [OF stays(3,2)]
    have m1: "node_fine s m1" "n_order_id m1 = n_order_id m" using t(6,7) t'(4) stays(1,5) by (simp_all add: node_fine_def)
    have "0 \<le> volume rest" using volume_nonneg stays(1) by simp
    then have le: "fill \<le> w_vol w" using v(2) t(2) by simp
    have e: "w_vol w - fill = volume (m1 # rest)" using v(2) t(3) by simp
    have vol: "dsub (w_vol w) fill = volume (m1 # rest)" "fine s (volume (m1 # rest))"
      using fine_dsub [OF v(1) t(1) le] fine_sub [OF v(1) t(1) le] unfolding e .
    have "0 < fill" "fill \<le> w_rem w" "fill < n_remaining m"
      using t'(1,2) stays(1,5) t(3) by (auto simp: node_ok_def)
    then obtain fs0 fs left queue where q: "fill_queue acc (w_rem w) (level_queue p (m # rest)) = (fs0, left, queue)"
      "fill_queue acc (w_rem w - fill) (((n_order_id m, p), n_remaining m - fill) # level_queue p rest) = (fs, left, queue)"
      "merge_fills fs0 = join_fill ((n_order_id m, p), fill) (merge_fills fs)"
      using fill_queue_chunk [of fill "w_rem w" "n_remaining m" acc p "n_order_id m" "level_queue p rest"] acc
      unfolding level_queue_simps by blast
    show "case r of (ns, w', full) \<Rightarrow> \<not> full \<longrightarrow>
        (\<exists>fs ts. fill_queue acc (w_rem w) (level_queue p (m # rest)) = (fs, w_rem w', level_queue p ns) \<and>
           w_trades w' = w_trades w @ ts \<and> merge_fills (map trade_fill ts) = merge_fills fs \<and>
           list_all (node_fine s) ns \<and> fine s (w_rem w') \<and> fine s (w_vol w') \<and> w_vol w' = volume ns)"
    proof (cases r)
      case (fields ns w' full)
      have "\<exists>ts. w_trades w' = w_trades w @ emit c p m fill # ts \<and> merge_fills (map trade_fill ts) = merge_fills fs \<and>
          left = w_rem w' \<and> queue = level_queue p ns \<and> list_all (node_fine s) ns \<and> fine s (w_rem w') \<and>
          fine s (w_vol w') \<and> w_vol w' = volume ns" if "\<not> full"
        using stays(6) h m1 vol t(3,4,5) q(2) that fields by (auto simp: walk_refines_def)
      then show ?thesis
        using fields q(1,3) by (fastforce simp: trade_fill_def)
    qed
  qed
qed

lemma fill_queue_idle: "\<not> 0 < rem \<or> (case q of [] \<Rightarrow> True | f # _ \<Rightarrow> \<not> acc (snd (fst f))) \<Longrightarrow> fill_queue acc rem q = ([], rem, q)"
  by (cases q) (auto split: prod.split)

lemma walk_levels_refines:
  assumes "list_all (level_fine s) ls" and "fine s rem" and "walk_levels c rem trades ls = (ls', rem', trades', False)"
  shows "\<exists>fs ts. fill_queue (acceptable c) rem (book_queue ls) = (fs, rem', book_queue ls') \<and>
    trades' = trades @ ts \<and> merge_fills (map trade_fill ts) = merge_fills fs"
  using assms
proof (induction c rem trades ls arbitrary: ls' rem' trades' rule: walk_levels.induct)
  case (1 c rem trades)
  then show ?case by simp
next
  case (2 c rem trades l ls)
  let ?w = "\<lparr>w_rem = rem, w_vol = l_total_volume l, w_count = l_order_count l, w_trades = trades\<rparr>"
  have l: "level_fine s l" "level_ok l" "l_nodes l \<noteq> []" using 2(2) by (auto simp: level_fine_def level_ok_def)
  show ?case
  proof (cases "0 < rem \<and> acceptable c (l_price l)")
    case False
    then have "fill_queue (acceptable c) rem (book_queue (l # ls)) = ([], rem, book_queue (l # ls))"
      using l(3) by (intro fill_queue_idle) (cases "l_nodes l"; auto)
    then show ?thesis using False 2(4) by auto
  next
    case True
    obtain ns w full where wl: "walk_level c (l_price l) [] (l_nodes l) ?w = (ns, w, full)"
      by (cases "walk_level c (l_price l) [] (l_nodes l) ?w")
    obtain ls1 rem1 trades1 full1 where wr: "walk_levels c (w_rem w) (w_trades w) ls = (ls1, rem1, trades1, full1)"
      by (cases "walk_levels c (w_rem w) (w_trades w) ls")
    have full: "\<not> full" using 2(4) True wl by (auto split: if_splits)
    have res: "ls' = (if w_count w = 0 then ls1 else l\<lparr>l_nodes := ns, l_total_volume := w_vol w, l_order_count := w_count w\<rparr> # ls1)"
      "rem1 = rem'" "trades1 = trades'" "\<not> full1"
      using 2(4) True wl wr full by (auto simp: Let_def)
    have spec: "walk_spec c (l_price l) (l_nodes l) ?w (ns, w, full)"
      using walk_level_spec [of "l_nodes l" ?w c "l_price l"] l(2) 2(3) wl by (simp add: level_ok_def fine_def)
    have cnt: "w_count w = 0 \<longleftrightarrow> ns = []" "ns \<noteq> [] \<Longrightarrow> w_rem w = 0"
      using spec full l(2) by (auto simp: walk_spec_def level_ok_def)
    have "walk_refines s (acceptable c) (l_price l) (l_nodes l) ?w (ns, w, full)"
      using walk_level_refines [of "l_nodes l" ?w "acceptable c" "l_price l" s c] True l 2(3) wl
      by (simp add: level_ok_def fine_def)
    then obtain fs ts where f: "fill_queue (acceptable c) rem (level_queue (l_price l) (l_nodes l)) =
        (fs, w_rem w, level_queue (l_price l) ns)" "w_trades w = trades @ ts"
      "merge_fills (map trade_fill ts) = merge_fills fs" "fine s (w_rem w)"
      using full l(1) 2(3) by (auto simp: walk_refines_def level_fine_def)
    obtain gs us where g: "fill_queue (acceptable c) (w_rem w) (book_queue ls) = (gs, rem', book_queue ls1)"
      "trades' = w_trades w @ us" "merge_fills (map trade_fill us) = merge_fills gs"
      using 2(1) [of "(ns, w, full)" ns "(w, full)" w full _ ls1 rem' trades'] True wl full 2(2) f(4) wr res by auto
    have m: "merge_fills (map trade_fill (ts @ us)) = merge_fills (fs @ gs)"
      using f(3) g(3) by (simp add: merge_append)
    show ?thesis
    proof (cases "ns = []")
      case True
      then show ?thesis using f g res cnt m
        by (auto simp: fill_queue_append simp del: map_append intro!: exI [of _ "fs @ gs"] exI [of _ "ts @ us"])
    next
      case False
      then have "gs = []" "rem' = w_rem w" "book_queue ls1 = book_queue ls" "us = []" if "ls = []"
        using g wr res that by auto
      have z: "w_rem w = 0" using cnt False by simp
      have "walk_levels c (w_rem w) (w_trades w) ls = (ls, w_rem w, w_trades w, False)"
        using z by (cases ls) auto
      then have "ls1 = ls" "rem' = w_rem w" "trades' = w_trades w" using wr res by auto
      then show ?thesis using f g res cnt False by (auto simp: fill_queue_append)
    qed
  qed
qed



subsection \<open>Conservation and fill-or-kill\<close>

text \<open>
  Conservation: on exact quantities the trades of a match add up to what the taker lost, and to what
  the opposite side lost.
\<close>

theorem match_conserves:
  assumes "reachable_engine e" and "fits_buffer e c" and "side_fine s (opposite e c)" and "fine s (c_remaining c)"
    and "match_active_order c e = ((ts, outcome, rem), e1)"
  shows "(\<Sum>t\<leftarrow>ts. tr_quantity t) + rem = c_remaining c \<and>
    queue_volume (book_queue (s_levels (opposite e c))) =
      (\<Sum>t\<leftarrow>ts. tr_quantity t) + queue_volume (book_queue (s_levels (opposite e1 c)))"
proof (cases "c_type c = C_POST_ONLY \<or> c_type c = C_FOK \<and> \<not> precheck_fok e c")
  case True
  then have "ts = []" "rem = c_remaining c" "e1 = e\<lparr>e_trades := []\<rparr>"
    using assms(5) match_rejects [of c e] by auto
  then show ?thesis by simp
next
  case False
  have ok: "engine_ok e" using reachable_engine_ok [OF assms(1)] .
  have nn: "0 \<le> c_remaining c" using assms(4) by (simp add: fine_def)
  obtain ls rem' trades full where w: "walk_levels c (c_remaining c) [] (s_levels (opposite e c)) = (ls, rem', trades, full)"
    by (cases "walk_levels c (c_remaining c) [] (s_levels (opposite e c))")
  have m: "ts = trades" "rem = rem'" "s_levels (opposite e1 c) = ls"
    using match_runs [OF ok assms(2) nn _ _ w] assms(5) False by auto
  have "\<not> full" using match_walk(1) [OF ok assms(2) nn w] .
  with w have w': "walk_levels c (c_remaining c) [] (s_levels (opposite e c)) = (ls, rem', trades, False)" by simp
  have "queue_volume (map trade_fill ts) = (\<Sum>t\<leftarrow>ts. tr_quantity t)"
    by (induction ts) (auto simp: trade_fill_def)
  moreover obtain fs where "fill_queue (acceptable c) (c_remaining c) (book_queue (s_levels (opposite e c))) =
      (fs, rem, book_queue ls)" "merge_fills (map trade_fill ts) = merge_fills fs"
    using walk_levels_refines [OF _ assms(4) w'] assms(3) m by (auto simp: side_fine_def)
  ultimately show ?thesis
    using fill_queue_conserves [of "acceptable c" "c_remaining c" _ fs rem "book_queue ls"] m(3)
      queue_volume_merge [of fs] queue_volume_merge [of "map trade_fill ts"] by auto
qed

theorem match_conserves_witness:
  "(let e = snd (add_passive_order 8 C_SELL 99 3 False 0 new_engine);
        c = \<lparr>c_order_id = 9, c_side = C_BUY, c_type = C_IOC, c_price = Some 100,
          c_quantity = 7, c_remaining = 7, c_is_iceberg = False, c_visible = 7, c_hidden = 0\<rparr>;
        r = match_active_order c e in
     (\<Sum>t\<leftarrow>fst (fst r). tr_quantity t) + snd (snd (fst r)) = 7 \<and> snd (snd (fst r)) = 4)"
proof -
  let ?e = "snd (add_passive_order 8 C_SELL 99 3 False 0 new_engine)"
  let ?c = "\<lparr>c_order_id = 9, c_side = C_BUY, c_type = C_IOC, c_price = Some 100,
          c_quantity = 7, c_remaining = 7, c_is_iceberg = False, c_visible = 7, c_hidden = 0\<rparr>"
  let ?r = "match_active_order ?c ?e"
  have r: "reachable_engine ?e" by (intro reachable_engine.intros) simp_all
  have f: "fits_buffer ?e ?c" by code_simp
  have lv: "s_levels (opposite ?e ?c) =
      [\<lparr>l_price = 99, l_nodes = [\<lparr>n_order_id = 8, n_remaining = 3, n_visible = 3, n_is_iceberg = False\<rparr>],
         l_total_volume = 3, l_order_count = 1\<rparr>]"
    by code_simp
  have g: "side_fine 0 (opposite ?e ?c)"
    by (simp add: side_fine_def lv level_fine_def level_ok_def node_fine_def node_ok_def fine_def grid_of_int)
  have q: "fine 0 (c_remaining ?c)" by (simp add: fine_def grid_of_int)
  have "snd (snd (fst ?r)) = 4" by code_simp
  moreover have "?r = ((fst (fst ?r), fst (snd (fst ?r)), snd (snd (fst ?r))), snd ?r)" by simp
  ultimately show ?thesis
    using match_conserves [OF r f g q, of "fst (fst ?r)" "fst (snd (fst ?r))" "snd (snd (fst ?r))" "snd ?r"]
    by (simp add: Let_def)
qed

definition acceptable_volume :: "corder \<Rightarrow> price_level list \<Rightarrow> rat" where
  "acceptable_volume c ls = (\<Sum>l\<leftarrow>takeWhile (\<lambda>l. acceptable c (l_price l)) ls. volume (l_nodes l))"

lemma acceptable_volume_simps [simp]:
  "acceptable_volume c [] = 0"
  "acceptable_volume c (l # ls) = (if acceptable c (l_price l) then volume (l_nodes l) + acceptable_volume c ls else 0)"
  by (simp_all add: acceptable_volume_def)

lemma level_fine_volume: "level_fine s l \<Longrightarrow> 0 \<le> volume (l_nodes l)"
  by (auto simp: level_fine_def level_ok_def intro: volume_nonneg)

lemma acceptable_volume_nonneg: "list_all (level_fine s) ls \<Longrightarrow> 0 \<le> acceptable_volume c ls"
  by (induction ls) (auto dest: level_fine_volume)

lemma total_volume_nonneg: "list_all (level_fine s) ls \<Longrightarrow> 0 \<le> (\<Sum>l\<leftarrow>ls. l_total_volume l)"
  by (induction ls) (auto simp: level_fine_def fine_def)

lemma fok_walk_exact:
  assumes "list_all (level_fine s) ls" and "fine s cum" and "cum + (\<Sum>l\<leftarrow>ls. l_total_volume l) < 2 ^ 53 * 2 powi s"
    and "cum < c_quantity c"
  shows "fok_walk c cum ls \<longleftrightarrow> c_quantity c \<le> cum + acceptable_volume c ls"
  using assms
proof (induction c cum ls rule: fok_walk.induct)
  case (1 c cum)
  then show ?case by simp
next
  case (2 c cum l ls)
  have l: "level_fine s l" "list_all (level_fine s) ls" "fine s (l_total_volume l)" "l_total_volume l = volume (l_nodes l)"
    using 2(2) level_fine_def [of s l] by auto
  have "cum + l_total_volume l < 2 ^ 53 * 2 powi s" using 2(4) total_volume_nonneg [OF l(2)] by simp
  then have d: "dadd cum (l_total_volume l) = cum + l_total_volume l" "fine s (cum + l_total_volume l)"
    using fine_dadd [OF 2(3) l(3)] by auto
  show ?case
  proof (cases "acceptable c (l_price l) \<and> \<not> c_quantity c \<le> cum + l_total_volume l")
    case True
    then show ?thesis using 2(1) [OF _ refl] d l 2(4) by (simp add: add.assoc)
  next
    case False
    then show ?thesis using 2(5) d l acceptable_volume_nonneg [OF l(2), of c] by auto
  qed
qed

lemma takeWhile_level:
  "takeWhile (\<lambda>f. acc (snd (fst f))) (level_queue p ns @ q) =
    (if acc p then level_queue p ns @ takeWhile (\<lambda>f. acc (snd (fst f))) q
     else if ns = [] then takeWhile (\<lambda>f. acc (snd (fst f))) q else [])"
  by (induction ns) auto

lemma acceptable_volume_queue:
  "list_all (level_fine s) ls \<Longrightarrow>
    queue_volume (takeWhile (\<lambda>f. acceptable c (snd (fst f))) (book_queue ls)) = acceptable_volume c ls"
  by (induction ls) (auto simp: takeWhile_level queue_volume_level level_fine_def level_ok_def)

lemma book_queue_nonneg: "list_all (level_fine s) ls \<Longrightarrow> \<forall>f\<in>set (book_queue ls). 0 \<le> snd f"
  by (induction ls) (fastforce simp: level_queue_def level_fine_def node_fine_def fine_def list_all_iff)+



subsection \<open>Where an added order stands, and cancelling it\<close>

lemma sorted_split_unique:
  assumes "sorted_wrt R (map f (xs @ x # ys))" and "xs @ x # ys = us @ u # vs" and "f x = f u"
    and "\<And>a. \<not> R a a"
  shows "us = xs \<and> u = x \<and> vs = ys"
  using assms
proof (induction xs arbitrary: us)
  case Nil
  then show ?case by (cases us) (auto simp: in_set_conv_decomp)
next
  case (Cons a xs)
  then obtain us' where us: "us = a # us'" "xs @ x # ys = us' @ u # vs" by (cases us) auto
  have "us' = xs \<and> u = x \<and> vs = ys" using Cons.prems(1,4) by (intro Cons.IH us(2) Cons.prems(3)) auto
  with us show ?case by simp
qed

lemma empty_level_simps [simp]: "l_nodes (empty_level p) = []" "l_price (empty_level p) = p"
  by (simp_all add: empty_level_def)

lemma book_queue_append: "book_queue (xs @ ys) = book_queue xs @ book_queue ys"
  by (simp add: book_queue_def)

lemma level_queue_append: "level_queue p (xs @ ys) = level_queue p xs @ level_queue p ys"
  by (simp add: level_queue_def)

lemma book_queue_prices: "f \<in> set (book_queue ls) \<Longrightarrow> \<exists>l\<in>set ls. snd (fst f) = l_price l"
  by (auto simp: book_queue_def level_queue_def)

lemma append_order_nodes: "l_nodes (append_order_to_level l n) = l_nodes l @ [n]"
  by (simp add: append_order_to_level_def)

lemma rest_on_side_queue:
  assumes "side_ok b"
  shows "\<exists>q1 q2. book_queue (s_levels b) = q1 @ q2 \<and>
    book_queue (s_levels (rest_on_side b price n)) = q1 @ ((n_order_id n, price), n_remaining n) # q2 \<and>
    (\<forall>f\<in>set q1. no_worse (s_is_descending b) (snd (fst f)) price) \<and>
    (\<forall>f\<in>set q2. before (s_is_descending b) price (snd (fst f)))"
proof -
  obtain pre l post where r: "s_levels (rest_on_side b price n) = pre @ append_order_to_level l n # post"
    "l_price l = price"
    and cases: "s_levels b = pre @ l # post \<or> s_levels b = pre @ post \<and> l = empty_level price \<and>
       (\<forall>x\<in>set pre. before (s_is_descending b) (l_price x) price) \<and>
       (\<forall>x\<in>set post. before (s_is_descending b) price (l_price x))"
    using rest_on_side_cases [OF assms, of price n] by metis
  let ?q1 = "book_queue pre @ level_queue price (l_nodes l)"
  have srt: "sorted_wrt (before (s_is_descending b)) (map l_price (s_levels b))"
    using assms by (simp add: side_ok_def)
  have ord: "(\<forall>x\<in>set pre. before (s_is_descending b) (l_price x) price) \<and>
      (\<forall>x\<in>set post. before (s_is_descending b) price (l_price x))"
    using cases srt r(2) by (auto simp: sorted_wrt_append)
  have "s_levels b = pre @ l # post \<or> s_levels b = pre @ post \<and> l_nodes l = []" using cases by auto
  then have "book_queue (s_levels b) = ?q1 @ book_queue post"
    using r(2) by (auto simp: book_queue_append)
  moreover have "book_queue (s_levels (rest_on_side b price n)) = ?q1 @ ((n_order_id n, price), n_remaining n) # book_queue post"
    using r by (simp add: book_queue_append append_order_nodes level_queue_append)
  moreover have "\<forall>f\<in>set ?q1. no_worse (s_is_descending b) (snd (fst f)) price"
    using ord by (auto simp: no_worse_def level_queue_def dest!: book_queue_prices)
  moreover have "\<forall>f\<in>set (book_queue post). before (s_is_descending b) price (snd (fst f))"
    using ord by (auto dest!: book_queue_prices)
  ultimately show ?thesis by blast
qed

text \<open>
  An accepted resting order is placed behind every resting order of its side at the same or a
  better price and in front of every one at a worse price, and nothing else of the book changes.
\<close>

theorem add_passive_order_position:
  assumes "reachable_engine e" and "side = C_BUY \<or> side = C_SELL" and "0 < qty"
    and "e_node_pool_size e < INITIAL_NODE_POOL_CAP"
  shows "\<exists>e1 q1 q2. add_passive_order i side price qty is_ice vis e = (Inr True, e1) \<and>
    book_queue (s_levels (side_of e side)) = q1 @ q2 \<and>
    book_queue (s_levels (side_of e1 side)) = q1 @ ((i, price), qty) # q2 \<and>
    (\<forall>f\<in>set q1. no_worse (s_is_descending (side_of e side)) (snd (fst f)) price) \<and>
    (\<forall>f\<in>set q2. before (s_is_descending (side_of e side)) price (snd (fst f))) \<and>
    (if side = C_BUY then e_asks e1 = e_asks e else e_bids e1 = e_bids e)"
proof -
  let ?n = "\<lparr>n_order_id = i, n_remaining = qty, n_visible = (if is_ice then vis else qty), n_is_iceberg = is_ice\<rparr>"
  let ?e1 = "set_side (e\<lparr>e_node_pool_size := e_node_pool_size e + 1\<rparr>) side (rest_on_side (side_of e side) price ?n)"
  have s: "side_of (e\<lparr>e_node_pool_size := x\<rparr>) side = side_of e side" for x by (simp add: side_of_def)
  have "add_passive_order i side price qty is_ice vis e = (Inr True, ?e1)"
    using assms(2-4) by (auto simp: add_passive_order_def ensure_node_pool_cap_def Let_def s)
  moreover have "if side = C_BUY then e_asks ?e1 = e_asks e else e_bids ?e1 = e_bids e"
    by (simp add: set_side_def)
  ultimately show ?thesis
    using rest_on_side_queue [OF engine_ok_side [OF reachable_engine_ok [OF assms(1)], of side], of price ?n] by fastforce
qed

theorem add_passive_order_position_witness:
  "(let e = snd (add_passive_order 8 C_SELL 99 3 False 0 (snd (add_passive_order 7 C_SELL 101 9 False 0 new_engine)));
        e1 = snd (add_passive_order 5 C_SELL 99 2 False 0 e) in
     book_queue (s_levels (e_asks e1)) = [((8, 99), 3), ((5, 99), 2), ((7, 101), 9)] \<and>
     (\<exists>q1 q2. book_queue (s_levels (e_asks e)) = q1 @ q2 \<and>
       book_queue (s_levels (e_asks e1)) = q1 @ ((5, 99), 2) # q2))"
proof -
  let ?e = "snd (add_passive_order 8 C_SELL 99 3 False 0 (snd (add_passive_order 7 C_SELL 101 9 False 0 new_engine)))"
  let ?r = "add_passive_order 5 C_SELL 99 2 False 0 ?e"
  have r: "reachable_engine ?e" by (intro reachable_engine.intros) simp_all
  have p: "e_node_pool_size ?e < INITIAL_NODE_POOL_CAP" by code_simp
  have q: "book_queue (s_levels (e_asks (snd ?r))) = [((8, 99), 3), ((5, 99), 2), ((7, 101), 9)]" by code_simp
  have "side_of e C_SELL = e_asks e" for e by (simp add: side_of_def code_defs)
  then show ?thesis
    using add_passive_order_position [OF r, of C_SELL 2 5 99 False 0] p q by (simp add: Let_def) (metis snd_conv)
qed

lemma unlink_append: "unlink i (ns @ [n]) = (case unlink i ns of
     Some (m, ms) \<Rightarrow> Some (m, ms @ [n])
   | None \<Rightarrow> if n_order_id n = i then Some (n, ns) else None)"
  by (induction ns) (auto split: option.split)

lemma unlink_none: "unlink i ns = None \<longleftrightarrow> (\<forall>n\<in>set ns. n_order_id n \<noteq> i)"
  by (induction ns) auto

text \<open>
  Cancelling an order right after resting it finds it and gives back the book as it was: the same orders
  with the same quantities in the same priority, for any book without another order of that id at
  that price.
\<close>

theorem cancel_undoes_add:
  assumes "reachable_engine e" and "side = C_BUY \<or> side = C_SELL" and "0 < qty"
    and "e_node_pool_size e < INITIAL_NODE_POOL_CAP" and "is_ice \<longrightarrow> 0 < vis"
    and "\<forall>f\<in>set (book_queue (s_levels (side_of e side))). fst f \<noteq> (i, price)"
  shows "\<exists>e1 e2. add_passive_order i side price qty is_ice vis e = (Inr True, e1) \<and>
    cancel_order i side price e1 = (Inr True, e2) \<and>
    book_queue (s_levels (e_bids e2)) = book_queue (s_levels (e_bids e)) \<and>
    book_queue (s_levels (e_asks e2)) = book_queue (s_levels (e_asks e))"
proof -
  let ?n = "\<lparr>n_order_id = i, n_remaining = qty, n_visible = (if is_ice then vis else qty), n_is_iceberg = is_ice\<rparr>"
  let ?b = "rest_on_side (side_of e side) price ?n"
  let ?e1 = "set_side (e\<lparr>e_node_pool_size := e_node_pool_size e + 1\<rparr>) side ?b"
  have s: "side_of (e\<lparr>e_node_pool_size := x\<rparr>) side = side_of e side" for x by (simp add: side_of_def)
  have ok: "engine_ok e" using reachable_engine_ok [OF assms(1)] .
  have add: "add_passive_order i side price qty is_ice vis e = (Inr True, ?e1)"
    using assms(2-4) by (auto simp: add_passive_order_def ensure_node_pool_cap_def Let_def s)
  have ok1: "engine_ok ?e1" using add_passive_order_ok [OF ok assms(5), of i side price qty] add by simp
  obtain pre l post where r: "s_levels ?b = pre @ append_order_to_level l ?n # post" "l_price l = price"
    and old: "s_levels (side_of e side) = pre @ l # post \<or> s_levels (side_of e side) = pre @ post \<and> l_nodes l = []"
    using rest_on_side_cases [OF engine_ok_side [OF ok, of side], of price ?n] empty_level_simps(1) by metis
  have "n_order_id n \<noteq> i" if "n \<in> set (l_nodes l)" for n
    using old assms(6) r(2) that by (force simp: book_queue_append level_queue_def)
  then have "unlink i (l_nodes l) = None" unfolding unlink_none by blast
  then have ul: "unlink i (l_nodes (append_order_to_level l ?n)) = Some (?n, l_nodes l)"
    by (simp add: append_order_nodes unlink_append)
  have srt: "sorted_wrt (before (s_is_descending ?b)) (map l_price (s_levels ?b))"
    using engine_ok_side [OF ok1, of side] by (simp add: side_ok_def)
  show ?thesis
  proof (cases rule: cancel_order_cases [OF engine_ok_side [OF ok1, of side] assms(2), of i price])
    case 1
    then show ?thesis using r ul by auto
  next
    case (2 pre' l' post' n' ns')
    have eq: "pre' = pre \<and> l' = append_order_to_level l ?n \<and> post' = post"
      using 2(1,2) r srt by (intro sorted_split_unique [where R = "before (s_is_descending ?b)" and f = l_price]) auto
    then have n': "n' = ?n" "ns' = l_nodes l" using 2(3) ul by auto
    let ?e2 = "set_side ?e1 side (?b\<lparr>s_levels := pre @ (if l_nodes l = [] then []
        else [cancel_on_level (append_order_to_level l ?n) ?n (l_nodes l)]) @ post\<rparr>)"
    have c: "cancel_order i side price ?e1 = (Inr True, ?e2)" using 2(4) eq n' by simp
    have q: "book_queue (s_levels (side_of ?e2 side)) = book_queue (s_levels (side_of e side))"
      using old r(2) by (auto simp: book_queue_append cancel_on_level_def)
    then show ?thesis using add c assms(2) by (auto simp: side_of_def set_side_def code_defs split: if_splits)
  qed
qed

theorem cancel_undoes_add_witness:
  "(let e = snd (add_passive_order 8 C_SELL 99 3 False 0 (snd (add_passive_order 7 C_SELL 101 9 False 0 new_engine))) in
     \<exists>e1 e2. add_passive_order 5 C_SELL 100 2 False 0 e = (Inr True, e1) \<and> cancel_order 5 C_SELL 100 e1 = (Inr True, e2) \<and>
       book_queue (s_levels (e_asks e2)) = [((8, 99), 3), ((7, 101), 9)])"
proof -
  let ?e = "snd (add_passive_order 8 C_SELL 99 3 False 0 (snd (add_passive_order 7 C_SELL 101 9 False 0 new_engine)))"
  have r: "reachable_engine ?e" by (intro reachable_engine.intros) simp_all
  have p: "e_node_pool_size ?e < INITIAL_NODE_POOL_CAP" by code_simp
  have q: "book_queue (s_levels (e_asks ?e)) = [((8, 99), 3), ((7, 101), 9)]" by code_simp
  have s: "side_of e C_SELL = e_asks e" for e by (simp add: side_of_def code_defs)
  have "\<forall>f\<in>set (book_queue (s_levels (side_of ?e C_SELL))). fst f \<noteq> (5, 100)" by (simp add: s q)
  from cancel_undoes_add [OF r _ _ p _ this, of 2 False 0] q show ?thesis by (auto simp: Let_def)
qed

end
