(* ===== verification/Redis.thy ===== *)
theory Redis
  imports Domain "HOL-Library.Char_ord" "HOL-Library.List_Lexorder"
begin

section \<open>The Redis server and the values stored in it\<close>

text \<open>
  Redis is a service outside the repository. The commands the code issues are a parameter: a
  record of operations on a server state of any type. The locale \<open>redis_server\<close> states what the code relies
  on, the documented effect of each command on the sorted sets, hashes, sets, lists and counters of the
  server (\<open>view\<close>); keys of different kinds never collide in this code base. The last section
  interprets the locale on an in-memory server, which the witnesses run on. A pipeline is the
  sequence of its commands.

  Hash values are texts; a number is kept as the value its text denotes, because \<open>float(str(x))\<close>
  of a decimal or a double is determined by that value.
\<close>

subsection \<open>Integers as text\<close>

fun digits :: "nat \<Rightarrow> string" where
  "digits n = (if n < 10 then [char_of (48 + n)] else digits (n div 10) @ [char_of (48 + n mod 10)])"

declare digits.simps [simp del]

definition str_int :: "int \<Rightarrow> string" where
  "str_int i = (if i < 0 then CHR ''-'' # digits (nat (- i)) else digits (nat i))"

definition digit_val :: "char \<Rightarrow> nat option" where
  "digit_val c = (let n = of_char c :: nat in if 48 \<le> n \<and> n \<le> 57 then Some (n - 48) else None)"

fun read_digits :: "nat \<Rightarrow> string \<Rightarrow> nat option" where
  "read_digits acc [] = Some acc"
| "read_digits acc (c # cs) = (case digit_val c of None \<Rightarrow> None | Some d \<Rightarrow> read_digits (10 * acc + d) cs)"

definition read_nat :: "string \<Rightarrow> nat option" where
  "read_nat s = (if s = [] then None else read_digits 0 s)"

text \<open>\<open>int(s)\<close> on the texts that occur: an optional minus sign and digits.\<close>

definition int_str :: "string \<Rightarrow> (exn, int) result" where
  "int_str s = (case (case s of
       [] \<Rightarrow> None
     | c # cs \<Rightarrow> if c = CHR ''-'' then map_option (\<lambda>n. - int n) (read_nat cs) else map_option int (read_nat s)) of
     None \<Rightarrow> Inl (ValueError ''invalid literal for int()'') | Some i \<Rightarrow> Inr i)"

lemma digit_val_digit: "d < 10 \<Longrightarrow> digit_val (char_of (48 + d)) = Some d"
  by (simp add: digit_val_def Let_def of_char_of)

lemma digits_not_Nil: "digits n \<noteq> []"
  by (subst digits.simps) auto

lemma read_digits_append:
  "read_digits a (xs @ [c]) = (case read_digits a xs of None \<Rightarrow> None | Some n \<Rightarrow> map_option (\<lambda>d. 10 * n + d) (digit_val c))"
  by (induction a xs rule: read_digits.induct) (auto split: option.split)

lemma read_digits_digits: "read_digits 0 (digits n) = Some n"
proof (induction n rule: less_induct)
  case (less n)
  show ?case
  proof (cases "n < 10")
    case True
    then show ?thesis using digit_val_digit [of n] by (simp add: digits.simps [of n])
  next
    case False
    then have "read_digits 0 (digits (n div 10)) = Some (n div 10)" by (intro less) auto
    moreover have "digit_val (char_of (48 + n mod 10)) = Some (n mod 10)" by (rule digit_val_digit) simp
    ultimately show ?thesis using False by (simp add: digits.simps [of n] read_digits_append)
  qed
qed

lemma digits_no_minus: "CHR ''-'' \<notin> set (digits n)"
proof (induction n rule: less_induct)
  case (less n)
  have no: "CHR ''-'' \<noteq> char_of (48 + d)" if "d < 10" for d :: nat
  proof
    assume "CHR ''-'' = char_of (48 + d)"
    then have "(of_char (CHR ''-'') :: nat) = of_char (char_of (48 + d) :: char)" by simp
    then show False using that by (simp add: of_char_of)
  qed
  show ?case
  proof (cases "n < 10")
    case True
    then show ?thesis using no [of n] by (simp add: digits.simps [of n])
  next
    case False
    then show ?thesis using no [of "n mod 10"] less [of "n div 10"] by (simp add: digits.simps [of n])
  qed
qed

lemma read_nat_digits: "read_nat (digits n) = Some n"
  by (simp add: read_nat_def digits_not_Nil read_digits_digits)

lemma int_str_str_int [simp]: "int_str (str_int i) = Inr i"
proof (cases "i < 0")
  case True
  then show ?thesis by (simp add: int_str_def str_int_def read_nat_digits)
next
  case False
  obtain c cs where c: "digits (nat i) = c # cs" using digits_not_Nil by (cases "digits (nat i)") auto
  then have "c \<noteq> CHR ''-''" using digits_no_minus [of "nat i"] by auto
  then show ?thesis using False c read_nat_digits [of "nat i"] by (simp add: int_str_def str_int_def)
qed

lemma str_int_inject [simp]: "str_int i = str_int j \<longleftrightarrow> i = j"
  by (metis int_str_str_int sum.inject(2))

subsection \<open>Stored values\<close>

datatype hval = HStr string | HNum rat

text \<open>\<open>str(v)\<close> for the kinds of values the code stores; None is stored as the empty text.\<close>

definition h_int :: "int \<Rightarrow> hval" where "h_int i = HNum (of_int i)"

definition h_opt :: "rat option \<Rightarrow> hval" where
  "h_opt x = (case x of None \<Rightarrow> HStr '''' | Some q \<Rightarrow> HNum q)"

definition h_bool :: "bool \<Rightarrow> hval" where
  "h_bool b = HStr (if b then ''True'' else ''False'')"

text \<open>Python truth of a stored text, and \<open>a or b\<close> on results of \<open>dict.get\<close>.\<close>

definition h_truthy :: "hval option \<Rightarrow> bool" where
  "h_truthy v = (case v of None \<Rightarrow> False | Some (HStr s) \<Rightarrow> s \<noteq> [] | Some (HNum q) \<Rightarrow> True)"

definition h_or :: "hval option \<Rightarrow> hval option \<Rightarrow> hval option" where
  "h_or a b = (if h_truthy a then a else b)"

definition h_text :: "hval option \<Rightarrow> string" where
  "h_text v = (case v of Some (HStr s) \<Rightarrow> s | _ \<Rightarrow> '''')"

text \<open>\<open>float(text)\<close>\<close>

definition h_float :: "hval option \<Rightarrow> (exn, rat) result" where
  "h_float v = (case v of Some (HNum q) \<Rightarrow> Inr (rnd q) | _ \<Rightarrow> Inl (ValueError ''could not convert string to float''))"

subsection \<open>Queue items\<close>

text \<open>
  The JSON payloads of \<open>queue:orders\<close> (\<open>build_order_action_payload\<close>): an absent key is \<open>None\<close>. JSON keeps
  strings, integers and doubles, so encoding and decoding an item gives it back. The time stamp \<open>ts\<close>, which no
  consumer reads, is left out.
\<close>

record order_action =
  a_action :: string
  a_order_id :: int
  a_symbol :: string
  a_user_id :: int
  a_side :: string
  a_type :: string
  a_price :: "rat option"
  a_stop_price :: "rat option"
  a_quantity :: rat
  a_is_iceberg :: bool
  a_visible_qty :: "rat option"
  a_hidden_qty :: "rat option"
  a_parent_order_id :: "int option"
  a_replaces_id :: "int option"
  a_bulk_id :: "string option"

datatype queue_item =
    Action order_action
  | TradeBatch "(int \<times> int \<times> rat \<times> rat) list"
  | DeadLetter string queue_item exn

subsection \<open>Commands\<close>

record 's redis_ops =
  r_zadd :: "string \<Rightarrow> string \<Rightarrow> rat \<Rightarrow> 's \<Rightarrow> 's"
  r_zrem :: "string \<Rightarrow> string \<Rightarrow> 's \<Rightarrow> int \<times> 's"
  r_zrange :: "string \<Rightarrow> int \<Rightarrow> int \<Rightarrow> 's \<Rightarrow> (string \<times> rat) list"
  r_zrevrange :: "string \<Rightarrow> int \<Rightarrow> int \<Rightarrow> 's \<Rightarrow> (string \<times> rat) list"
  r_zrangebyscore :: "string \<Rightarrow> rat \<Rightarrow> rat option \<Rightarrow> 's \<Rightarrow> string list"
  r_zremrangebyscore :: "string \<Rightarrow> rat \<Rightarrow> rat \<Rightarrow> 's \<Rightarrow> 's"
  r_zcard :: "string \<Rightarrow> 's \<Rightarrow> int"
  r_hset :: "string \<Rightarrow> (string \<times> hval) list \<Rightarrow> 's \<Rightarrow> 's"
  r_hgetall :: "string \<Rightarrow> 's \<Rightarrow> (string \<times> hval) list"
  r_hget :: "string \<Rightarrow> string \<Rightarrow> 's \<Rightarrow> hval option"
  r_del :: "string \<Rightarrow> 's \<Rightarrow> int \<times> 's"
  r_incr :: "string \<Rightarrow> 's \<Rightarrow> int \<times> 's"
  r_sadd :: "string \<Rightarrow> string \<Rightarrow> 's \<Rightarrow> 's"
  r_srem :: "string \<Rightarrow> string \<Rightarrow> 's \<Rightarrow> 's"
  r_smembers :: "string \<Rightarrow> 's \<Rightarrow> string list"
  r_scard :: "string \<Rightarrow> 's \<Rightarrow> int"
  r_sismember :: "string \<Rightarrow> string \<Rightarrow> 's \<Rightarrow> bool"
  r_lpush :: "string \<Rightarrow> queue_item \<Rightarrow> 's \<Rightarrow> 's"
  r_rpop :: "string \<Rightarrow> 's \<Rightarrow> queue_item option \<times> 's"
  r_lrange :: "string \<Rightarrow> int \<Rightarrow> int \<Rightarrow> 's \<Rightarrow> queue_item list"
  r_llen :: "string \<Rightarrow> 's \<Rightarrow> int"

text \<open>What the server holds, as far as the code can observe it.\<close>

record redis_state =
  zsets :: "string \<Rightarrow> (string \<times> rat) list"
  hashes :: "string \<Rightarrow> string \<rightharpoonup> hval"
  rsets :: "string \<Rightarrow> string set"
  lists :: "string \<Rightarrow> queue_item list"
  counters :: "string \<Rightarrow> int"

text \<open>A sorted set lists its members by score and, at equal scores, by name.\<close>

definition z_less :: "string \<times> rat \<Rightarrow> string \<times> rat \<Rightarrow> bool" where
  "z_less a b \<longleftrightarrow> snd a < snd b \<or> snd a = snd b \<and> fst a < fst b"

definition z_ok :: "(string \<times> rat) list \<Rightarrow> bool" where
  "z_ok z \<longleftrightarrow> sorted_wrt z_less z \<and> distinct (map fst z)"

fun z_insert :: "string \<times> rat \<Rightarrow> (string \<times> rat) list \<Rightarrow> (string \<times> rat) list" where
  "z_insert a [] = [a]"
| "z_insert a (b # z) = (if z_less a b then a # b # z else b # z_insert a z)"

definition z_remove :: "string \<Rightarrow> (string \<times> rat) list \<Rightarrow> (string \<times> rat) list" where
  "z_remove m z = filter (\<lambda>p. fst p \<noteq> m) z"

definition z_add :: "string \<Rightarrow> rat \<Rightarrow> (string \<times> rat) list \<Rightarrow> (string \<times> rat) list" where
  "z_add m x z = z_insert (m, x) (z_remove m z)"

text \<open>The slice from index \<open>i\<close> to index \<open>j\<close> inclusive; negative indices count from the end.\<close>

definition slice :: "int \<Rightarrow> int \<Rightarrow> 'a list \<Rightarrow> 'a list" where
  "slice i j xs = (let n = int (length xs); a = (if i < 0 then max 0 (n + i) else i);
     b = (if j < 0 then n + j else j) in take (nat (b - a + 1)) (drop (nat a) xs))"

definition in_scores :: "rat \<Rightarrow> rat option \<Rightarrow> rat \<Rightarrow> bool" where
  "in_scores lo hi x \<longleftrightarrow> lo \<le> x \<and> (case hi of None \<Rightarrow> True | Some h \<Rightarrow> x \<le> h)"

definition h_update :: "(string \<times> hval) list \<Rightarrow> (string \<rightharpoonup> hval) \<Rightarrow> (string \<rightharpoonup> hval)" where
  "h_update kvs m = fold (\<lambda>(k, v) m. m(k \<mapsto> v)) kvs m"

definition key_exists :: "string \<Rightarrow> redis_state \<Rightarrow> bool" where
  "key_exists k v \<longleftrightarrow> zsets v k \<noteq> [] \<or> hashes v k \<noteq> Map.empty \<or> rsets v k \<noteq> {} \<or> lists v k \<noteq> [] \<or> counters v k \<noteq> 0"

definition forget :: "string \<Rightarrow> redis_state \<Rightarrow> redis_state" where
  "forget k v = v\<lparr>zsets := (zsets v)(k := []), hashes := (hashes v)(k := Map.empty),
     rsets := (rsets v)(k := {}), lists := (lists v)(k := []), counters := (counters v)(k := 0)\<rparr>"

locale redis_server =
  fixes R :: "'s redis_ops" and view :: "'s \<Rightarrow> redis_state"
  assumes zsets_ok: "z_ok (zsets (view (s :: 's)) (k :: string))"
    and zadd: "view (r_zadd R k (m :: string) (x :: rat) s) = (view s)\<lparr>zsets := (zsets (view s))(k := z_add m x (zsets (view s) k))\<rparr>"
    and zrem_count: "fst (r_zrem R k m s) = (if m \<in> fst ` set (zsets (view s) k) then 1 else 0)"
    and zrem: "view (snd (r_zrem R k m s)) = (view s)\<lparr>zsets := (zsets (view s))(k := z_remove m (zsets (view s) k))\<rparr>"
    and zrange: "r_zrange R k (i :: int) (j :: int) s = slice i j (zsets (view s) k)"
    and zrevrange: "r_zrevrange R k i j s = slice i j (rev (zsets (view s) k))"
    and zrangebyscore: "r_zrangebyscore R k (lo :: rat) (hi :: rat option) s = map fst (filter (\<lambda>p. in_scores lo hi (snd p)) (zsets (view s) k))"
    and zremrangebyscore: "view (r_zremrangebyscore R k lo (upto_score :: rat) s) =
      (view s)\<lparr>zsets := (zsets (view s))(k := filter (\<lambda>p. \<not> in_scores lo (Some upto_score) (snd p)) (zsets (view s) k))\<rparr>"
    and hset: "view (r_hset R k (kvs :: (string \<times> hval) list) s) = (view s)\<lparr>hashes := (hashes (view s))(k := h_update kvs (hashes (view s) k))\<rparr>"
    and hgetall: "map_of (r_hgetall R k s) = hashes (view s) k"
    and del_count: "fst (r_del R k s) = (if key_exists k (view s) then 1 else 0)"
    and del: "view (snd (r_del R k s)) = forget k (view s)"
    and incr_result: "fst (r_incr R k s) = counters (view s) k + 1"
    and incr: "view (snd (r_incr R k s)) = (view s)\<lparr>counters := (counters (view s))(k := counters (view s) k + 1)\<rparr>"
    and sadd: "view (r_sadd R k m s) = (view s)\<lparr>rsets := (rsets (view s))(k := insert m (rsets (view s) k))\<rparr>"
    and srem: "view (r_srem R k m s) = (view s)\<lparr>rsets := (rsets (view s))(k := rsets (view s) k - {m})\<rparr>"
    and smembers: "set (r_smembers R k s) = rsets (view s) k" "distinct (r_smembers R k s)"
    and lpush: "view (r_lpush R k (q :: queue_item) s) = (view s)\<lparr>lists := (lists (view s))(k := q # lists (view s) k)\<rparr>"
    and rpop_item: "fst (r_rpop R k s) = (if lists (view s) k = [] then None else Some (last (lists (view s) k)))"
    and rpop: "view (snd (r_rpop R k s)) = (view s)\<lparr>lists := (lists (view s))(k := butlast (lists (view s) k))\<rparr>"
    and lrange: "r_lrange R k i j s = slice i j (lists (view s) k)"
    and hget: "r_hget R k m s = hashes (view s) k m"
    and zcard: "r_zcard R k s = int (length (zsets (view s) k))"
    and scard: "r_scard R k s = int (card (rsets (view s) k))"
    and sismember: "r_sismember R k m s \<longleftrightarrow> m \<in> rsets (view s) k"
    and llen: "r_llen R k s = int (length (lists (view s) k))"
begin

lemmas view_after = zadd zrem zremrangebyscore hset del incr sadd srem lpush rpop

lemmas read_results = zrem_count zrange zrevrange zrangebyscore del_count incr_result rpop_item lrange hget zcard scard
  sismember llen

lemma hgetall_empty: "r_hgetall R k s = [] \<longleftrightarrow> hashes (view s) k = Map.empty"
  using hgetall [of k s] by (metis map_of_eq_empty_iff)

end

subsection \<open>An in-memory server\<close>

record mem_state =
  m_zsets :: "string \<Rightarrow> (string \<times> rat) list"
  m_hashes :: "string \<Rightarrow> (string \<times> hval) list"
  m_sets :: "string \<Rightarrow> string list"
  m_lists :: "string \<Rightarrow> queue_item list"
  m_counters :: "string \<Rightarrow> int"

fun put_assoc :: "string \<Rightarrow> hval \<Rightarrow> (string \<times> hval) list \<Rightarrow> (string \<times> hval) list" where
  "put_assoc k v [] = [(k, v)]"
| "put_assoc k v ((k', v') # kvs) = (if k = k' then (k, v) # kvs else (k', v') # put_assoc k v kvs)"

lemma z_less_trans: "z_less a b \<Longrightarrow> z_less b c \<Longrightarrow> z_less a c"
  by (auto simp: z_less_def)

lemma z_less_total: "fst a \<noteq> fst b \<Longrightarrow> \<not> z_less a b \<Longrightarrow> z_less b a"
  by (auto simp: z_less_def)

lemma set_z_insert [simp]: "set (z_insert a z) = insert a (set z)"
  by (induction z) auto

lemma sorted_z_insert: "sorted_wrt z_less z \<Longrightarrow> fst a \<notin> fst ` set z \<Longrightarrow> sorted_wrt z_less (z_insert a z)"
proof (induction z)
  case Nil
  then show ?case by simp
next
  case (Cons b z)
  then show ?case using z_less_total [of a b] by (auto intro: z_less_trans)
qed

lemma distinct_z_insert: "distinct (map fst z) \<Longrightarrow> fst a \<notin> fst ` set z \<Longrightarrow> distinct (map fst (z_insert a z))"
  by (induction z) auto

lemma z_ok_remove: "z_ok z \<Longrightarrow> z_ok (z_remove m z)"
  by (auto simp: z_ok_def z_remove_def intro: sorted_wrt_filter_sub distinct_map_filter)

lemma z_ok_filter: "z_ok z \<Longrightarrow> z_ok (filter P z)"
  by (auto simp: z_ok_def intro: sorted_wrt_filter_sub distinct_map_filter)

lemma z_ok_add: "z_ok z \<Longrightarrow> z_ok (z_add m x z)"
  using z_ok_remove [of z m]
  by (auto simp: z_ok_def z_add_def z_remove_def intro!: sorted_z_insert distinct_z_insert)

definition mz :: "mem_state \<Rightarrow> string \<Rightarrow> (string \<times> rat) list" where
  "mz s k = (if z_ok (m_zsets s k) then m_zsets s k else [])"

definition mem_redis :: "mem_state redis_ops" where
  "mem_redis = \<lparr>
     r_zadd = (\<lambda>k m x s. s\<lparr>m_zsets := (m_zsets s)(k := z_add m x (mz s k))\<rparr>),
     r_zrem = (\<lambda>k m s. (if m \<in> fst ` set (mz s k) then 1 else 0, s\<lparr>m_zsets := (m_zsets s)(k := z_remove m (mz s k))\<rparr>)),
     r_zrange = (\<lambda>k i j s. slice i j (mz s k)),
     r_zrevrange = (\<lambda>k i j s. slice i j (rev (mz s k))),
     r_zrangebyscore = (\<lambda>k lo hi s. map fst (filter (\<lambda>p. in_scores lo hi (snd p)) (mz s k))),
     r_zremrangebyscore = (\<lambda>k lo hi s. s\<lparr>m_zsets := (m_zsets s)(k := filter (\<lambda>p. \<not> in_scores lo (Some hi) (snd p)) (mz s k))\<rparr>),
     r_zcard = (\<lambda>k s. int (length (mz s k))),
     r_hset = (\<lambda>k kvs s. s\<lparr>m_hashes := (m_hashes s)(k := fold (\<lambda>(f, v) h. put_assoc f v h) kvs (m_hashes s k))\<rparr>),
     r_hgetall = (\<lambda>k s. m_hashes s k),
     r_hget = (\<lambda>k f s. map_of (m_hashes s k) f),
     r_del = (\<lambda>k s. (if mz s k \<noteq> [] \<or> m_hashes s k \<noteq> [] \<or> m_sets s k \<noteq> [] \<or> m_lists s k \<noteq> [] \<or> m_counters s k \<noteq> 0
        then 1 else 0,
        s\<lparr>m_zsets := (m_zsets s)(k := []), m_hashes := (m_hashes s)(k := []), m_sets := (m_sets s)(k := []),
          m_lists := (m_lists s)(k := []), m_counters := (m_counters s)(k := 0)\<rparr>)),
     r_incr = (\<lambda>k s. (m_counters s k + 1, s\<lparr>m_counters := (m_counters s)(k := m_counters s k + 1)\<rparr>)),
     r_sadd = (\<lambda>k m s. s\<lparr>m_sets := (m_sets s)(k := List.insert m (m_sets s k))\<rparr>),
     r_srem = (\<lambda>k m s. s\<lparr>m_sets := (m_sets s)(k := filter (\<lambda>x. x \<noteq> m) (m_sets s k))\<rparr>),
     r_smembers = (\<lambda>k s. remdups (m_sets s k)),
     r_scard = (\<lambda>k s. int (length (remdups (m_sets s k)))),
     r_sismember = (\<lambda>k m s. m \<in> set (m_sets s k)),
     r_lpush = (\<lambda>k x s. s\<lparr>m_lists := (m_lists s)(k := x # m_lists s k)\<rparr>),
     r_rpop = (\<lambda>k s. (if m_lists s k = [] then None else Some (last (m_lists s k)),
        s\<lparr>m_lists := (m_lists s)(k := butlast (m_lists s k))\<rparr>)),
     r_lrange = (\<lambda>k i j s. slice i j (m_lists s k)),
     r_llen = (\<lambda>k s. int (length (m_lists s k)))\<rparr>"

definition mem_view :: "mem_state \<Rightarrow> redis_state" where
  "mem_view s = \<lparr>zsets = mz s, hashes = (\<lambda>k. map_of (m_hashes s k)), rsets = (\<lambda>k. set (m_sets s k)),
     lists = m_lists s, counters = m_counters s\<rparr>"

definition empty_redis :: mem_state where
  "empty_redis = \<lparr>m_zsets = (\<lambda>k. []), m_hashes = (\<lambda>k. []), m_sets = (\<lambda>k. []), m_lists = (\<lambda>k. []),
     m_counters = (\<lambda>k. 0)\<rparr>"

lemma map_of_put_assoc: "map_of (put_assoc k v kvs) = (map_of kvs)(k \<mapsto> v)"
  by (induction kvs) (auto simp: fun_eq_iff)

lemma map_of_fold_put: "map_of (fold (\<lambda>(f, v) h. put_assoc f v h) kvs h) = h_update kvs (map_of h)"
  by (induction kvs arbitrary: h) (auto simp: h_update_def map_of_put_assoc)

lemma z_ok_Nil [simp]: "z_ok []"
  by (simp add: z_ok_def)

lemma mz_ok: "z_ok (mz s k)"
  by (simp add: mz_def)

lemma mz_upd: "z_ok z \<Longrightarrow> mz (s\<lparr>m_zsets := (m_zsets s)(k := z)\<rparr>) = (mz s)(k := z)"
  by (auto simp: mz_def fun_eq_iff)

lemma mz_other [simp]:
  "mz (s\<lparr>m_hashes := h\<rparr>) = mz s" "mz (s\<lparr>m_sets := x\<rparr>) = mz s" "mz (s\<lparr>m_lists := l\<rparr>) = mz s" "mz (s\<lparr>m_counters := c\<rparr>) = mz s"
  by (simp_all add: mz_def fun_eq_iff)

interpretation mem: redis_server mem_redis mem_view
proof (unfold_locales, goal_cases)
  case (11 k s)
  have "(map_of (m_hashes s k) = Map.empty) = (m_hashes s k = [])" by (metis map_of_eq_empty_iff)
  then show ?case by (simp add: mem_redis_def mem_view_def key_exists_def)
next
  case 12
  then show ?case
    using mz_upd [OF z_ok_Nil] by (simp add: mem_redis_def mem_view_def forget_def fun_eq_iff mz_def)
qed (auto simp: mem_redis_def mem_view_def mz_ok mz_upd z_ok_add z_ok_remove z_ok_filter map_of_fold_put
    key_exists_def fun_eq_iff length_remdups_card_conv)

end
