(* ===== verification/Orderbook.thy ===== *)
theory Orderbook
  imports Redis
begin

section \<open>The order book in Redis\<close>

text \<open>
  \<open>redis_client/orderbook.py\<close>: the score encoding of (price, sequence), the order hashes, the sorted
  sets of bids and asks, and the reads the matching worker and the order service make. Every
  operation takes the Redis commands \<open>R\<close> as its first argument and is a program over the server
  state. A side argument is its string.
\<close>

subsection \<open>Commands as programs\<close>

definition cmdP :: "('s \<Rightarrow> 'a \<times> 's) \<Rightarrow> ('s, 'e, 'a) prog" where
  "cmdP f s = (let (x, t) = f s in (Inr x, t))"

definition liftP :: "('e, 'a) result \<Rightarrow> ('s, 'e, 'a) prog" where
  "liftP r s = (r, s)"

fun map_result :: "('a \<Rightarrow> ('e, 'b) result) \<Rightarrow> 'a list \<Rightarrow> ('e, 'b list) result" where
  "map_result f [] = Inr []"
| "map_result f (x # xs) = bind_result (f x) (\<lambda>y. bind_result (map_result f xs) (\<lambda>ys. Inr (y # ys)))"

declare cmdP_def [exec_defs] liftP_def [exec_defs]

lemma map_result_Inr: "map_result f xs = Inr ys \<longleftrightarrow> list_all2 (\<lambda>x y. f x = Inr y) xs ys"
  by (induction xs arbitrary: ys) (auto simp: bind_result_Inr list_all2_Cons1)

subsection \<open>Keys\<close>

definition bids_key :: "string \<Rightarrow> string" where
  "bids_key symbol = ''ob:'' @ symbol @ '':bids''"

definition asks_key :: "string \<Rightarrow> string" where
  "asks_key symbol = ''ob:'' @ symbol @ '':asks''"

definition order_hash_key :: "int \<Rightarrow> string" where
  "order_hash_key order_id = ''order:'' @ str_int order_id"

definition seq_key :: "string \<Rightarrow> string" where
  "seq_key symbol = ''seq:orders:'' @ symbol"

definition side_key :: "string \<Rightarrow> string \<Rightarrow> (exn, string) result" where
  "side_key symbol side = (if lower side = side_value BUY then Inr (bids_key symbol)
     else if lower side = side_value SELL then Inr (asks_key symbol)
     else Inl (ValueError ''Invalid side''))"

definition opposite_side_key :: "string \<Rightarrow> string \<Rightarrow> (exn, string) result" where
  "opposite_side_key symbol side = (if lower side = side_value BUY then Inr (asks_key symbol)
     else if lower side = side_value SELL then Inr (bids_key symbol)
     else Inl (ValueError ''Invalid side''))"

subsection \<open>Score encoding\<close>

definition PRICE_SCALE :: int where "PRICE_SCALE = 10000"
definition SCORE_MULTIPLIER :: int where "SCORE_MULTIPLIER = 1000000"

definition encode_score :: "rat \<Rightarrow> int \<Rightarrow> (exn, rat) result" where
  "encode_score price seq =
     (let p = rnd price in
      if p < 0 then Inl (ValueError ''price must be non-negative'')
      else if 9200000000 < p then Inl (ValueError ''price too large for score encoding'')
      else if \<not> (0 \<le> seq \<and> seq < SCORE_MULTIPLIER) then Inl (ValueError ''seq out of range'')
      else let price_int = rhe (dmul p (of_int PRICE_SCALE)) in
        Inr (rnd (of_int (price_int * SCORE_MULTIPLIER + seq))))"

definition decode_score :: "rat \<Rightarrow> rat \<times> int" where
  "decode_score score =
     (let s = rhe score; price_int = s div SCORE_MULTIPLIER in
      (rnd (of_int price_int / of_int PRICE_SCALE), s - price_int * SCORE_MULTIPLIER))"

subsection \<open>Order hashes and the sequence counter\<close>

definition ORDER_HASH_FIELDS :: "string list" where
  "ORDER_HASH_FIELDS = [''order_id'', ''user_id'', ''symbol'', ''side'', ''type'', ''status'', ''price'', ''stop_price'',
     ''quantity'', ''filled_quantity'', ''visible_quantity'', ''hidden_quantity'', ''is_iceberg'', ''parent_order_id'',
     ''sl_order_id'', ''tp_order_id'', ''bulk_id'', ''created_at_ts'']"

definition store_order_hash :: "'s redis_ops \<Rightarrow> int \<Rightarrow> (string \<times> hval) list \<Rightarrow> ('s, exn, unit) prog" where
  "store_order_hash R order_id metadata =
     (let flat = List.map_filter (\<lambda>f. map_option (Pair f) (map_of metadata f)) ORDER_HASH_FIELDS in
      if flat = [] then retP () else modP (r_hset R (order_hash_key order_id) flat))"

definition get_order_hash :: "'s redis_ops \<Rightarrow> int \<Rightarrow> ('s, exn, (string \<times> hval) list option) prog" where
  "get_order_hash R order_id = bindP (getP (r_hgetall R (order_hash_key order_id))) (\<lambda>raw.
     retP (if raw = [] then None else Some raw))"

definition delete_order_hash :: "'s redis_ops \<Rightarrow> int \<Rightarrow> ('s, exn, unit) prog" where
  "delete_order_hash R order_id = bindP (cmdP (r_del R (order_hash_key order_id))) (\<lambda>_. retP ())"

definition update_order_hash_fields :: "'s redis_ops \<Rightarrow> int \<Rightarrow> (string \<times> hval) list \<Rightarrow> ('s, exn, unit) prog" where
  "update_order_hash_fields R order_id flat =
     (if flat = [] then retP () else modP (r_hset R (order_hash_key order_id) flat))"

definition next_seq :: "'s redis_ops \<Rightarrow> string \<Rightarrow> ('s, exn, int) prog" where
  "next_seq R symbol = bindP (cmdP (r_incr R (seq_key symbol))) (\<lambda>seq. retP (seq mod SCORE_MULTIPLIER))"

subsection \<open>Adding and removing resting orders\<close>

definition add_resting_order ::
  "'s redis_ops \<Rightarrow> int \<Rightarrow> string \<Rightarrow> string \<Rightarrow> rat \<Rightarrow> (string \<times> hval) list \<Rightarrow> ('s, exn, int) prog" where
  "add_resting_order R order_id symbol side price metadata =
     bindP (next_seq R symbol) (\<lambda>seq.
     bindP (liftP (encode_score price seq)) (\<lambda>score.
     bindP (liftP (side_key symbol side)) (\<lambda>zset_key.
     let flat = filter (\<lambda>(f, v). f \<in> set ORDER_HASH_FIELDS) metadata in
     seqP (if flat = [] then retP () else modP (r_hset R (order_hash_key order_id) flat))
       (seqP (modP (r_zadd R zset_key (str_int order_id) score)) (retP seq)))))"

definition remove_resting_order :: "'s redis_ops \<Rightarrow> int \<Rightarrow> string \<Rightarrow> string \<Rightarrow> ('s, exn, bool) prog" where
  "remove_resting_order R order_id symbol side =
     bindP (liftP (side_key symbol side)) (\<lambda>zset_key.
     bindP (cmdP (r_zrem R zset_key (str_int order_id))) (\<lambda>removed_count. retP (0 < removed_count)))"

subsection \<open>Reads\<close>

definition get_best_bid :: "'s redis_ops \<Rightarrow> string \<Rightarrow> ('s, exn, (rat \<times> int) option) prog" where
  "get_best_bid R symbol = bindP (getP (r_zrevrange R (bids_key symbol) 0 0)) (\<lambda>res. case res of
     [] \<Rightarrow> retP None
   | (member, score) # _ \<Rightarrow> bindP (liftP (int_str member)) (\<lambda>oid. retP (Some (fst (decode_score score), oid))))"

definition get_best_ask :: "'s redis_ops \<Rightarrow> string \<Rightarrow> ('s, exn, (rat \<times> int) option) prog" where
  "get_best_ask R symbol = bindP (getP (r_zrange R (asks_key symbol) 0 0)) (\<lambda>res. case res of
     [] \<Rightarrow> retP None
   | (member, score) # _ \<Rightarrow> bindP (liftP (int_str member)) (\<lambda>oid. retP (Some (fst (decode_score score), oid))))"

definition get_spread :: "'s redis_ops \<Rightarrow> string \<Rightarrow> ('s, exn, rat option \<times> rat option \<times> rat option) prog" where
  "get_spread R symbol = bindP (get_best_bid R symbol) (\<lambda>bid. bindP (get_best_ask R symbol) (\<lambda>ask.
     let bid_price = map_option fst bid; ask_price = map_option fst ask in
     retP (bid_price, ask_price,
       case (bid_price, ask_price) of (Some b, Some a) \<Rightarrow> Some (dsub a b) | _ \<Rightarrow> None)))"

text \<open>The volume shown for one entry of a side: the visible quantity, else the quantity, else zero.\<close>

definition shown_quantity :: "(string \<times> hval) list \<Rightarrow> (exn, rat) result" where
  "shown_quantity h = h_float (h_or (h_or (map_of h ''visible_quantity'') (map_of h ''quantity'')) (Some (HNum 0)))"

fun add_level :: "rat \<Rightarrow> rat \<Rightarrow> (rat \<times> rat) list \<Rightarrow> (rat \<times> rat) list" where
  "add_level price qty [] = [(price, dadd 0 qty)]"
| "add_level price qty ((p, q) # levels) =
     (if p = price then (p, dadd q qty) # levels else (p, q) # add_level price qty levels)"

fun aggregate :: "((string \<times> rat) \<times> (string \<times> hval) list) list \<Rightarrow> (rat \<times> rat) list \<Rightarrow> (exn, (rat \<times> rat) list) result" where
  "aggregate [] levels = Inr levels"
| "aggregate (((member, score), h) # rest) levels =
     (if h = [] then aggregate rest levels
      else bind_result (shown_quantity h) (\<lambda>qty. aggregate rest (add_level (fst (decode_score score)) qty levels)))"

definition load_hashes :: "'s redis_ops \<Rightarrow> (string \<times> rat) list \<Rightarrow>
    ('s, exn, ((string \<times> rat) \<times> (string \<times> hval) list) list) prog" where
  "load_hashes R raw = bindP (liftP (map_result (\<lambda>p. int_str (fst p)) raw)) (\<lambda>ids.
     getP (\<lambda>s. zip raw (map (\<lambda>i. r_hgetall R (order_hash_key i) s) ids)))"

definition aggregate_side :: "'s redis_ops \<Rightarrow> bool \<Rightarrow> (string \<times> rat) list \<Rightarrow> ('s, exn, (rat \<times> rat) list) prog" where
  "aggregate_side R rev_order raw = (if raw = [] then retP []
     else bindP (load_hashes R raw) (\<lambda>entries. bindP (liftP (aggregate entries [])) (\<lambda>levels.
       retP (if rev_order then rev (sort_key fst levels) else sort_key fst levels))))"

definition get_book_snapshot :: "'s redis_ops \<Rightarrow> string \<Rightarrow> int \<Rightarrow> ('s, exn, (rat \<times> rat) list \<times> (rat \<times> rat) list) prog" where
  "get_book_snapshot R symbol depth =
     bindP (getP (r_zrevrange R (bids_key symbol) 0 (depth - 1))) (\<lambda>bids_raw.
     bindP (getP (r_zrange R (asks_key symbol) 0 (depth - 1))) (\<lambda>asks_raw.
     bindP (aggregate_side R True bids_raw) (\<lambda>bids.
     bindP (aggregate_side R (asks_raw = bids_raw) asks_raw) (\<lambda>asks. retP (bids, asks)))))"

record book_order =
  bo_order_id :: int
  bo_side :: string
  bo_price :: rat
  bo_quantity :: rat
  bo_visible_quantity :: rat
  bo_hidden_quantity :: rat
  bo_is_iceberg :: bool
  bo_seq :: int

definition decode_order :: "string \<times> rat \<Rightarrow> (string \<times> hval) list \<Rightarrow> (exn, book_order) result" where
  "decode_order entry h = (case decode_score (snd entry) of (price, seq) \<Rightarrow>
     bind_result (int_str (fst entry)) (\<lambda>order_id.
     bind_result (h_float (h_or (map_of h ''quantity'') (Some (HNum 0)))) (\<lambda>quantity.
     bind_result (shown_quantity h) (\<lambda>visible.
     bind_result (h_float (h_or (map_of h ''hidden_quantity'') (Some (HNum 0)))) (\<lambda>hidden.
     Inr \<lparr>bo_order_id = order_id, bo_side = h_text (map_of h ''side''), bo_price = price, bo_quantity = quantity,
       bo_visible_quantity = visible, bo_hidden_quantity = hidden,
       bo_is_iceberg = (map_of h ''is_iceberg'' = Some (HStr ''1'')), bo_seq = seq\<rparr>)))))"

definition get_opposite_orders_for_match ::
  "'s redis_ops \<Rightarrow> string \<Rightarrow> string \<Rightarrow> int \<Rightarrow> ('s, exn, book_order list) prog" where
  "get_opposite_orders_for_match R symbol taker_side limit =
     bindP (liftP (opposite_side_key symbol taker_side)) (\<lambda>zset_key.
     bindP (getP (if lower taker_side = side_value BUY then r_zrange R zset_key 0 (limit - 1)
         else r_zrevrange R zset_key 0 (limit - 1))) (\<lambda>raw.
     if raw = [] then retP []
     else bindP (load_hashes R raw) (\<lambda>entries.
       liftP (map_result (\<lambda>(entry, h). decode_order entry h) (filter (\<lambda>(entry, h). h \<noteq> []) entries)))))"

subsection \<open>Applying match results and maintenance\<close>

definition apply_match_results ::
  "'s redis_ops \<Rightarrow> (int \<times> rat) list \<Rightarrow> int \<Rightarrow> (string \<times> hval) list \<Rightarrow> ('s, exn, unit) prog" where
  "apply_match_results R trades taker_order_id taker_metadata =
     seqP (forP trades (\<lambda>(maker_id, quantity). modP (r_hset R (order_hash_key maker_id)
         [(''_last_taker_id'', h_int taker_order_id), (''_last_trade_qty'', HNum (dec_of_float quantity))])))
       (let flat = filter (\<lambda>(f, v). f \<in> set ORDER_HASH_FIELDS) taker_metadata in
        if flat = [] then retP () else modP (r_hset R (order_hash_key taker_order_id) flat))"

fun del_all :: "'s redis_ops \<Rightarrow> string list \<Rightarrow> ('s, exn, int) prog" where
  "del_all R [] = retP 0"
| "del_all R (k # ks) = bindP (cmdP (r_del R k)) (\<lambda>n. bindP (del_all R ks) (\<lambda>m. retP (n + m)))"

definition clear_symbol_book :: "'s redis_ops \<Rightarrow> string \<Rightarrow> ('s, exn, int) prog" where
  "clear_symbol_book R symbol =
     bindP (getP (\<lambda>s. r_zrange R (bids_key symbol) 0 (- 1) s @ r_zrange R (asks_key symbol) 0 (- 1) s)) (\<lambda>all_members.
     bindP (liftP (map_result (\<lambda>p. int_str (fst p)) all_members)) (\<lambda>ids.
     del_all R ([bids_key symbol, asks_key symbol, seq_key symbol] @ map order_hash_key ids)))"

subsection \<open>The score encoding is exact and order preserving\<close>

definition valid_score :: "int \<Rightarrow> int \<Rightarrow> bool" where
  "valid_score k seq \<longleftrightarrow> 0 \<le> k \<and> 0 \<le> seq \<and> seq < SCORE_MULTIPLIER \<and> k * SCORE_MULTIPLIER + seq < 2 ^ 53"

lemma rnd_close: "0 \<le> x \<Longrightarrow> \<bar>rnd x - x\<bar> \<le> x / 2 ^ 53"
  using rnd_error [of x] by (cases "x = 0") auto

lemma price_int_exact:
  assumes "0 \<le> k" and "k < 2 ^ 34"
  shows "rhe (dmul (rnd (of_int k / 10000)) 10000) = k"
proof -
  let ?x = "of_int k / 10000 :: rat"
  let ?p = "rnd ?x"
  have "(of_int k :: rat) < of_int (2 ^ 34)" using assms(2) by (simp only: of_int_less_iff)
  then have k: "0 \<le> (of_int k :: rat)" "(of_int k :: rat) < 2 ^ 34" using assms(1) by simp_all
  have x: "0 \<le> ?x" using k by simp
  have p: "0 \<le> ?p" "\<bar>?p - ?x\<bar> \<le> ?x / 2 ^ 53" using x rnd_close [OF x] by simp_all
  have q: "\<bar>?p * 10000 - of_int k\<bar> \<le> of_int k / 2 ^ 53"
    using p(2) by (simp add: abs_le_iff field_simps)
  have "0 \<le> ?p * 10000" using p(1) by simp
  from rnd_close [OF this] have "\<bar>rnd (?p * 10000) - ?p * 10000\<bar> \<le> ?p * 10000 / 2 ^ 53" .
  moreover have "of_int k / 2 ^ 53 \<le> (of_int k :: rat)" using k by (simp add: field_simps)
  moreover have "?p * 10000 - of_int k \<le> of_int k / 2 ^ 53" using q by (rule abs_le_D1)
  ultimately have "\<bar>rnd (?p * 10000) - ?p * 10000\<bar> \<le> 2 * of_int k / 2 ^ 53"
    by (simp add: field_simps)
  with q have "\<bar>rnd (?p * 10000) - of_int k\<bar> \<le> 3 * of_int k / 2 ^ 53"
    using abs_triangle_ineq [of "rnd (?p * 10000) - ?p * 10000" "?p * 10000 - of_int k"] by (simp add: field_simps)
  also have "\<dots> < 1 / 2" using k by (simp add: field_simps)
  finally show ?thesis unfolding dmul_def by (rule rhe_unique)
qed

lemma valid_score_small: "valid_score k seq \<Longrightarrow> k < 2 ^ 34"
  by (simp add: valid_score_def SCORE_MULTIPLIER_def)

lemma price_in_range:
  assumes "0 \<le> k" and "k < 2 ^ 34"
  shows "rnd (of_int k / 10000) \<le> 9200000000"
proof -
  have "(of_int k :: rat) \<le> of_int (2 ^ 34)" using assms(2) by (simp only: of_int_le_iff)
  then have "rnd (of_int k / 10000) \<le> rnd (of_int 2000000)" by (intro rnd_mono) (simp add: field_simps)
  also have "rnd (of_int 2000000) = of_int 2000000" by (rule rnd_of_int) simp
  finally show ?thesis by simp
qed

lemma encode_valid:
  assumes "valid_score k seq"
  shows "encode_score (of_int k / 10000) seq = Inr (of_int (k * SCORE_MULTIPLIER + seq))"
proof -
  have k: "0 \<le> k" "k < 2 ^ 34" using assms valid_score_small by (auto simp: valid_score_def)
  have "rnd (of_int (k * SCORE_MULTIPLIER + seq)) = of_int (k * SCORE_MULTIPLIER + seq)"
    using assms by (intro rnd_of_int) (auto simp: valid_score_def SCORE_MULTIPLIER_def)
  then show ?thesis
    using k price_in_range [OF k] price_int_exact [OF k] assms
    by (simp add: encode_score_def Let_def PRICE_SCALE_def valid_score_def not_less del: of_int_add of_int_mult)
qed

lemma decode_valid:
  assumes "valid_score k seq"
  shows "decode_score (of_int (k * SCORE_MULTIPLIER + seq)) = (rnd (of_int k / 10000), seq)"
proof -
  have "(k * SCORE_MULTIPLIER + seq) div SCORE_MULTIPLIER = k"
    using assms by (simp add: valid_score_def SCORE_MULTIPLIER_def)
  then show ?thesis by (simp add: decode_score_def Let_def PRICE_SCALE_def del: of_int_add of_int_mult)
qed

lemma rnd_price_less:
  assumes "valid_score k s" and "valid_score l t" and "k < l"
  shows "rnd (of_int k / 10000) < rnd (of_int l / 10000)"
proof -
  have "rnd (of_int k / 10000) \<le> rnd (of_int l / 10000)" using assms(3) by (intro rnd_mono) (simp add: field_simps)
  moreover have "rnd (of_int k / 10000) \<noteq> rnd (of_int l / 10000)"
    using price_int_exact [of k] price_int_exact [of l] valid_score_small assms
    by (auto simp: valid_score_def)
  ultimately show ?thesis by simp
qed

text \<open>
  The score encoding is exact as long as the packed integer stays below 2^53: for a price with four
  decimals (k / 10000) and a sequence number below one million, \<open>encode_score\<close> gives the integer
  k * 10^6 + seq and \<open>decode_score\<close> gives back the price as a double and the sequence number;
  scores compare like (price, sequence) pairs.
\<close>

theorem score_roundtrip:
  assumes "valid_score k seq" and "valid_score l seq'"
  shows "\<exists>a b. encode_score (of_int k / 10000) seq = Inr a \<and> decode_score a = (rnd (of_int k / 10000), seq) \<and>
    encode_score (of_int l / 10000) seq' = Inr b \<and> (a < b \<longleftrightarrow> k < l \<or> k = l \<and> seq < seq')"
proof -
  have "k * SCORE_MULTIPLIER + seq < l * SCORE_MULTIPLIER + seq' \<longleftrightarrow> k < l \<or> k = l \<and> seq < seq'"
    using assms by (auto simp: valid_score_def SCORE_MULTIPLIER_def)
  then have "(of_int (k * SCORE_MULTIPLIER + seq) :: rat) < of_int (l * SCORE_MULTIPLIER + seq') \<longleftrightarrow> k < l \<or> k = l \<and> seq < seq'"
    by (simp only: of_int_less_iff)
  then show ?thesis
    using encode_valid [OF assms(1)] encode_valid [OF assms(2)] decode_valid [OF assms(1)] by blast
qed

theorem score_roundtrip_witness:
  "\<exists>a b. encode_score (of_int 1234567 / 10000) 5 = Inr a \<and> decode_score a = (rnd (1234567 / 10000), 5) \<and>
    encode_score (of_int 1234568 / 10000) 2 = Inr b \<and> a < b"
  using score_roundtrip [of 1234567 5 1234568 2] by (simp add: valid_score_def SCORE_MULTIPLIER_def)

text \<open>
  Above that range the sequence number is lost although the price is accepted: at a price of
  2,000,000 two different sequence numbers get the same score, so arrival order is no longer encoded.
\<close>

theorem score_loses_sequence:
  "encode_score 2000000 1 = encode_score 2000000 0 \<and> is_ok (encode_score 2000000 1)"
  by code_simp

subsection \<open>In which order the worker sees the opposite side\<close>

definition valid_entry :: "string \<times> rat \<Rightarrow> bool" where
  "valid_entry p \<longleftrightarrow> (\<exists>k seq. valid_score k seq \<and> snd p = of_int (k * SCORE_MULTIPLIER + seq))"

lemma valid_entryI: "valid_score k seq \<Longrightarrow> valid_entry (m, of_int (k * SCORE_MULTIPLIER + seq))"
  by (auto simp: valid_entry_def)

text \<open>Lexicographic by price and then by arrival.\<close>

definition price_time :: "book_order \<Rightarrow> book_order \<Rightarrow> bool" where
  "price_time a b \<longleftrightarrow> bo_price a < bo_price b \<or> bo_price a = bo_price b \<and> bo_seq a \<le> bo_seq b"

lemma decode_order_score:
  "decode_order p h = Inr b \<Longrightarrow> (bo_price b, bo_seq b) = decode_score (snd p)"
  by (auto simp: decode_order_def bind_result_Inr split: prod.splits)

lemma decode_monotone:
  assumes "valid_entry p" and "valid_entry q" and "snd p \<le> snd q"
    and "decode_order p h = Inr a" and "decode_order q h' = Inr b"
  shows "price_time a b"
proof -
  obtain k s l t where kl: "valid_score k s" "snd p = of_int (k * SCORE_MULTIPLIER + s)"
    "valid_score l t" "snd q = of_int (l * SCORE_MULTIPLIER + t)"
    using assms(1,2) by (auto simp: valid_entry_def)
  have a: "bo_price a = rnd (of_int k / 10000)" "bo_seq a = s"
    and b: "bo_price b = rnd (of_int l / 10000)" "bo_seq b = t"
    using decode_order_score [OF assms(4)] decode_order_score [OF assms(5)] decode_valid [OF kl(1)] decode_valid [OF kl(3)] kl
    by auto
  have "k * SCORE_MULTIPLIER + s \<le> l * SCORE_MULTIPLIER + t"
    using assms(3) kl by (simp only: of_int_le_iff)
  then have "k < l \<or> k = l \<and> s \<le> t"
    using kl(1,3) by (auto simp: valid_score_def SCORE_MULTIPLIER_def)
  then show ?thesis
    using rnd_price_less [OF kl(1,3)] a b by (auto simp: price_time_def)
qed

lemma sorted_slice: "sorted_wrt P xs \<Longrightarrow> sorted_wrt P (slice i j xs)"
  by (simp add: slice_def Let_def sorted_wrt_take sorted_wrt_drop)

lemma set_slice: "set (slice i j xs) \<subseteq> set xs"
  by (auto simp: slice_def Let_def dest: in_set_takeD in_set_dropD)

lemma z_ok_scores: "z_ok z \<Longrightarrow> sorted_wrt (\<lambda>p q. snd p \<le> snd q) z"
  unfolding z_ok_def by (auto elim!: sorted_wrt_mono_rel [rotated] simp: z_less_def)

text \<open>Decoding a score-ordered list of entries gives orders related in the same way.\<close>

lemma list_all2_right: "list_all2 P xs ys \<Longrightarrow> y \<in> set ys \<Longrightarrow> \<exists>x\<in>set xs. P x y"
  by (induction rule: list_all2_induct) auto

lemma decoded_sorted:
  assumes "sorted_wrt P raw" and "map_result (\<lambda>(entry, h). decode_order entry h) (filter (\<lambda>(entry, h). h \<noteq> []) (zip raw hs)) = Inr os"
    and "\<And>p q h h' a b. P p q \<Longrightarrow> p \<in> set raw \<Longrightarrow> q \<in> set raw \<Longrightarrow> decode_order p h = Inr a \<Longrightarrow> decode_order q h' = Inr b \<Longrightarrow> Q a b"
  shows "sorted_wrt Q os"
  using assms
proof (induction raw arbitrary: hs os)
  case Nil
  then show ?case by simp
next
  case (Cons p raw)
  show ?case
  proof (cases hs)
    case Nil
    then show ?thesis using Cons.prems(2) by simp
  next
    case (Cons h hs')
    have IH: "sorted_wrt Q os'"
      if "map_result (\<lambda>(entry, h). decode_order entry h) (filter (\<lambda>(entry, h). h \<noteq> []) (zip raw hs')) = Inr os'" for os'
      using Cons.IH [OF _ that] Cons.prems(1,3) by simp
    show ?thesis
    proof (cases "h = []")
      case True
      then show ?thesis using IH [of os] Cons.prems(2) Cons by simp
    next
      case False
      then obtain a os' where a: "decode_order p h = Inr a" "os = a # os'"
        and os': "map_result (\<lambda>(entry, h). decode_order entry h) (filter (\<lambda>(entry, h). h \<noteq> []) (zip raw hs')) = Inr os'"
        using Cons.prems(2) Cons by (auto simp: bind_result_Inr)
      have "Q a b" if "b \<in> set os'" for b
      proof -
        have "list_all2 (\<lambda>x y. (case x of (entry, h) \<Rightarrow> decode_order entry h) = Inr y)
            (filter (\<lambda>(entry, h). h \<noteq> []) (zip raw hs')) os'"
          using os' by (simp add: map_result_Inr)
        from list_all2_right [OF this that] obtain q h'' where q: "(q, h'') \<in> set (zip raw hs')" "decode_order q h'' = Inr b"
          by auto
        have "q \<in> set raw" using q(1) by (rule set_zip_leftD)
        then show ?thesis using Cons.prems(1) by (intro Cons.prems(3) [OF _ _ _ a(1) q(2)]) auto
      qed
      then show ?thesis using a IH [OF os'] by simp
    qed
  qed
qed

lemma get_opposite_result:
  assumes "get_opposite_orders_for_match R symbol side limit s = (Inr os, s')" and "lower side = side_value d"
  shows "s' = s \<and> (\<exists>raw hs. raw = (if d = BUY then r_zrange R (asks_key symbol) 0 (limit - 1) s
      else r_zrevrange R (bids_key symbol) 0 (limit - 1) s) \<and>
    map_result (\<lambda>(entry, h). decode_order entry h) (filter (\<lambda>(entry, h). h \<noteq> []) (zip raw hs)) = Inr os)"
proof -
  let ?raw = "if d = BUY then r_zrange R (asks_key symbol) 0 (limit - 1) s else r_zrevrange R (bids_key symbol) 0 (limit - 1) s"
  have nil: "map_result (\<lambda>(entry, h). decode_order entry h) (filter (\<lambda>(entry, h). h \<noteq> []) (zip [] [])) = Inr []" by simp
  show ?thesis
    using assms nil
    by (cases d; cases "?raw = []")
      (auto simp: get_opposite_orders_for_match_def opposite_side_key_def load_hashes_def prog_defs liftP_def
        split: sum.splits)
qed

text \<open>
  A buy taker meets the asks in price-time priority: when every entry of the ask set was encoded
  within range, the orders loaded for the matcher are sorted by price and, at one price, by arrival.
\<close>

theorem asks_in_price_time_order:
  assumes "redis_server R view" and "\<forall>p\<in>set (zsets (view s) (asks_key symbol)). valid_entry p"
    and "get_opposite_orders_for_match R symbol ''buy'' limit s = (Inr os, s')"
  shows "s' = s \<and> sorted_wrt price_time os"
proof -
  have "lower ''buy'' = side_value BUY" by (simp add: lower_def lower_char_def)
  from get_opposite_result [OF assms(3) this] obtain hs where "s' = s" and
    m: "map_result (\<lambda>(entry, h). decode_order entry h) (filter (\<lambda>(entry, h). h \<noteq> [])
      (zip (slice 0 (limit - 1) (zsets (view s) (asks_key symbol))) hs)) = Inr os"
    using redis_server.zrange [OF assms(1)] by auto
  have "sorted_wrt (\<lambda>p q. snd p \<le> snd q) (slice 0 (limit - 1) (zsets (view s) (asks_key symbol)))"
    using z_ok_scores [OF redis_server.zsets_ok [OF assms(1)]] by (rule sorted_slice)
  from decoded_sorted [OF this m, of price_time] have "sorted_wrt price_time os"
    using decode_monotone assms(2) set_slice by (metis (no_types, lifting) subsetD)
  with \<open>s' = s\<close> show ?thesis by simp
qed

theorem asks_in_price_time_order_witness:
  "(let s = empty_redis\<lparr>m_zsets := (\<lambda>k. if k = asks_key ''X'' then [(''3'', 990000000003), (''1'', 1000000000001), (''2'', 1000000000002)] else []),
          m_hashes := (\<lambda>k. [(''side'', HStr ''sell''), (''quantity'', HNum 1)])\<rparr>;
        r = get_opposite_orders_for_match mem_redis ''X'' ''buy'' 5 s in
     \<exists>os. fst r = Inr os \<and> map bo_order_id os = [3, 1, 2] \<and> sorted_wrt price_time os)"
proof -
  let ?s = "empty_redis\<lparr>m_zsets := (\<lambda>k. if k = asks_key ''X'' then [(''3'', 990000000003), (''1'', 1000000000001), (''2'', 1000000000002)] else []),
          m_hashes := (\<lambda>k. [(''side'', HStr ''sell''), (''quantity'', HNum 1)])\<rparr>"
  let ?r = "get_opposite_orders_for_match mem_redis ''X'' ''buy'' 5 ?s"
  have z: "zsets (mem_view ?s) (asks_key ''X'') = [(''3'', 990000000003), (''1'', 1000000000001), (''2'', 1000000000002)]"
    by code_simp
  have "valid_score 990000 3" "valid_score 1000000 1" "valid_score 1000000 2"
    by (simp_all add: valid_score_def SCORE_MULTIPLIER_def)
  from this [THEN valid_entryI] have v: "\<forall>p\<in>set (zsets (mem_view ?s) (asks_key ''X'')). valid_entry p"
    unfolding z by (simp add: SCORE_MULTIPLIER_def)
  have "map_sum (\<lambda>e. ()) (map bo_order_id) (fst ?r) = Inr [3, 1, 2]" by code_simp
  then obtain os where os: "fst ?r = Inr os" "map bo_order_id os = [3, 1, 2]" by (cases "fst ?r") auto
  then have "?r = (Inr os, snd ?r)" by (metis prod.collapse)
  from asks_in_price_time_order [OF mem.redis_server_axioms v this] os show ?thesis by (simp add: Let_def)
qed

text \<open>
  C39. A sell taker meets the bids from the best price down, but at one price from the newest to the
  oldest: the set is read in reverse score order, and the sequence number is part of the score. Time
  priority holds for asks only.
\<close>

theorem bids_newest_first:
  assumes "redis_server R view" and "\<forall>p\<in>set (zsets (view s) (bids_key symbol)). valid_entry p"
    and "get_opposite_orders_for_match R symbol ''sell'' limit s = (Inr os, s')"
  shows "s' = s \<and> sorted_wrt (\<lambda>a b. bo_price b < bo_price a \<or> bo_price a = bo_price b \<and> bo_seq b \<le> bo_seq a) os"
proof -
  have "lower ''sell'' = side_value SELL" by (simp add: lower_def lower_char_def)
  from get_opposite_result [OF assms(3) this] obtain hs where "s' = s" and
    m: "map_result (\<lambda>(entry, h). decode_order entry h) (filter (\<lambda>(entry, h). h \<noteq> [])
      (zip (slice 0 (limit - 1) (rev (zsets (view s) (bids_key symbol)))) hs)) = Inr os"
    using redis_server.zrevrange [OF assms(1)] by auto
  have "sorted_wrt (\<lambda>p q. snd q \<le> snd p) (slice 0 (limit - 1) (rev (zsets (view s) (bids_key symbol))))"
    using z_ok_scores [OF redis_server.zsets_ok [OF assms(1)]] by (intro sorted_slice) (simp add: sorted_wrt_rev)
  from decoded_sorted [OF this m, of "\<lambda>a b. price_time b a"] have "sorted_wrt (\<lambda>a b. price_time b a) os"
    using decode_monotone assms(2) set_slice by (metis (no_types, lifting) subsetD set_rev)
  with \<open>s' = s\<close> show ?thesis by (auto elim: sorted_wrt_mono_rel [rotated] simp: price_time_def)
qed

theorem bids_newest_first_witness:
  "(let s = empty_redis\<lparr>m_zsets := (\<lambda>k. if k = bids_key ''X'' then [(''1'', 1000000000001), (''2'', 1000000000002)] else []),
          m_hashes := (\<lambda>k. [(''side'', HStr ''buy''), (''quantity'', HNum 1)])\<rparr>;
        r = get_opposite_orders_for_match mem_redis ''X'' ''sell'' 5 s in
     \<exists>os. fst r = Inr os \<and> map bo_order_id os = [2, 1] \<and> sorted_wrt (\<lambda>a b. bo_price b < bo_price a \<or> bo_price a = bo_price b \<and> bo_seq b \<le> bo_seq a) os)"
proof -
  let ?s = "empty_redis\<lparr>m_zsets := (\<lambda>k. if k = bids_key ''X'' then [(''1'', 1000000000001), (''2'', 1000000000002)] else []),
          m_hashes := (\<lambda>k. [(''side'', HStr ''buy''), (''quantity'', HNum 1)])\<rparr>"
  let ?r = "get_opposite_orders_for_match mem_redis ''X'' ''sell'' 5 ?s"
  have z: "zsets (mem_view ?s) (bids_key ''X'') = [(''1'', 1000000000001), (''2'', 1000000000002)]"
    by code_simp
  have "valid_score 1000000 1" "valid_score 1000000 2"
    by (simp_all add: valid_score_def SCORE_MULTIPLIER_def)
  from this [THEN valid_entryI] have v: "\<forall>p\<in>set (zsets (mem_view ?s) (bids_key ''X'')). valid_entry p"
    unfolding z by (simp add: SCORE_MULTIPLIER_def)
  have "map_sum (\<lambda>e. ()) (map bo_order_id) (fst ?r) = Inr [2, 1]" by code_simp
  then obtain os where os: "fst ?r = Inr os" "map bo_order_id os = [2, 1]" by (cases "fst ?r") auto
  then have "?r = (Inr os, snd ?r)" by (metis prod.collapse)
  from bids_newest_first [OF mem.redis_server_axioms v this] os show ?thesis by (simp add: Let_def)
qed

subsection \<open>Adding and removing\<close>

lemma z_remove_insert: "z_remove m (z_insert (m, x) z) = z_remove m z"
  by (induction z) (auto simp: z_remove_def)

lemma z_remove_absent: "m \<notin> fst ` set z \<Longrightarrow> z_remove m z = z"
  by (auto simp: z_remove_def filter_id_conv)

context redis_server
begin

lemma remove_after_add:
  assumes "add_resting_order R i symbol side price md s = (Inr seq, s1)"
    and "\<forall>k. side_key symbol side = Inr k \<longrightarrow> str_int i \<notin> fst ` set (zsets (view s) k)"
  shows "\<exists>s2. remove_resting_order R i symbol side s1 = (Inr True, s2) \<and> zsets (view s2) = zsets (view s) \<and>
    lists (view s2) = lists (view s) \<and> rsets (view s2) = rsets (view s)"
proof -
  let ?flat = "filter (\<lambda>(f, v). f \<in> set ORDER_HASH_FIELDS) md"
  let ?sa = "snd (r_incr R (seq_key symbol) s)"
  let ?sb = "if ?flat = [] then ?sa else r_hset R (order_hash_key i) ?flat ?sa"
  obtain score k where run: "side_key symbol side = Inr k" "s1 = r_zadd R k (str_int i) score ?sb"
    using assms(1)
    by (auto simp: add_resting_order_def next_seq_def prog_defs cmdP_def liftP_def Let_def
        split: prod.splits sum.splits if_splits)
  have vb: "zsets (view ?sb) = zsets (view s)" "lists (view ?sb) = lists (view s)" "rsets (view ?sb) = rsets (view s)"
    using view_after by auto
  let ?r = "r_zrem R k (str_int i) s1"
  have "fst ?r = 1" using run zrem_count [of k "str_int i" s1] by (simp add: zadd z_add_def)
  moreover have "zsets (view (snd ?r)) = zsets (view s)"
    using run vb assms(2) by (simp add: zrem zadd z_add_def z_remove_insert z_remove_absent fun_upd_idem_iff)
  moreover have "lists (view (snd ?r)) = lists (view s)" "rsets (view (snd ?r)) = rsets (view s)"
    using run vb by (simp_all add: zrem zadd)
  ultimately show ?thesis
    using run by (auto simp: remove_resting_order_def prog_defs cmdP_def liftP_def split: prod.splits)
qed

end

text \<open>
  Removing a resting order right after adding it succeeds and leaves every sorted set as it was,
  for an order that was not in the book before.
\<close>

theorem remove_undoes_add_resting:
  assumes "redis_server R view" and "add_resting_order R i symbol side price md s = (Inr seq, s1)"
    and "\<forall>k. side_key symbol side = Inr k \<longrightarrow> str_int i \<notin> fst ` set (zsets (view s) k)"
  shows "\<exists>s2. remove_resting_order R i symbol side s1 = (Inr True, s2) \<and> zsets (view s2) = zsets (view s)"
  using redis_server.remove_after_add [OF assms] by blast

theorem remove_undoes_add_resting_witness:
  "(let r = add_resting_order mem_redis 7 ''X'' ''sell'' 100 [(''quantity'', HNum 1)] empty_redis in
     \<exists>s2. fst r = Inr 1 \<and> remove_resting_order mem_redis 7 ''X'' ''sell'' (snd r) = (Inr True, s2) \<and>
       zsets (mem_view s2) = zsets (mem_view empty_redis))"
proof -
  let ?r = "add_resting_order mem_redis 7 ''X'' ''sell'' 100 [(''quantity'', HNum 1)] empty_redis"
  have f: "fst ?r = Inr 1" by code_simp
  then have r: "?r = (Inr 1, snd ?r)" by (metis prod.collapse)
  have z: "zsets (mem_view empty_redis) k = []" for k by (simp add: mem_view_def mz_def empty_redis_def)
  show ?thesis
    using remove_undoes_add_resting [OF mem.redis_server_axioms r] f z by (auto simp: Let_def)
qed

end
