(* ===== verification/Rate_Limit.thy ===== *)
theory Rate_Limit
  imports Orderbook
begin

section \<open>The sliding-window rate limiter\<close>

text \<open>
  \<open>redis_client/rate_limit.py\<close>. The clock \<open>time.time()\<close> is the argument \<open>now\<close>, a double. The time to live the
  code sets on the key only frees memory after the window has passed, and is left out.
\<close>

datatype rate_limit_result = Allowed | Rejected

definition ratelimit_key :: "string \<Rightarrow> string" where
  "ratelimit_key api_key = ''ratelimit:'' @ api_key"

text \<open>The text \<open>f"{now:.6f}"\<close> of a clock value, and \<open>int(x)\<close>, which cuts the fraction off.\<close>

definition pad6 :: "string \<Rightarrow> string" where
  "pad6 s = replicate (6 - length s) CHR ''0'' @ s"

definition fixed6 :: "rat \<Rightarrow> string" where
  "fixed6 now = (let n = rhe (now * 1000000) in str_int (n div 1000000) @ ''.'' @ pad6 (str_int (n mod 1000000)))"

definition int_of_float :: "rat \<Rightarrow> int" where
  "int_of_float x = (if x < 0 then - \<lfloor>- x\<rfloor> else \<lfloor>x\<rfloor>)"

definition check_and_consume ::
  "'s redis_ops \<Rightarrow> string \<Rightarrow> int \<Rightarrow> int \<Rightarrow> rat \<Rightarrow> ('s, exn, rate_limit_result \<times> int \<times> int) prog" where
  "check_and_consume R api_key limit_per_min window_seconds now =
     (let key = ratelimit_key api_key; window_start = dsub now (of_int window_seconds) in
      seqP (modP (r_zremrangebyscore R key 0 window_start))
     (bindP (getP (r_zcard R key)) (\<lambda>current_count.
      if current_count < limit_per_min then
        seqP (modP (r_zadd R key (fixed6 now) now)) (retP (Allowed, current_count + 1, 0))
      else
        bindP (getP (r_zrange R key 0 0)) (\<lambda>oldest.
        retP (Rejected, current_count,
          if oldest \<noteq> [] then
            max 1 (int_of_float (dsub (dadd (snd (oldest ! 0)) (of_int window_seconds)) now) + 1)
          else 1)))))"

definition get_current_count :: "'s redis_ops \<Rightarrow> string \<Rightarrow> int \<Rightarrow> rat \<Rightarrow> ('s, exn, int) prog" where
  "get_current_count R api_key window_seconds now =
     (let key = ratelimit_key api_key; window_start = dsub now (of_int window_seconds) in
      seqP (modP (r_zremrangebyscore R key 0 window_start)) (getP (r_zcard R key)))"

definition reset_bucket :: "'s redis_ops \<Rightarrow> string \<Rightarrow> ('s, exn, unit) prog" where
  "reset_bucket R api_key = bindP (cmdP (r_del R (ratelimit_key api_key))) (\<lambda>_. retP ())"

subsection \<open>One request\<close>

text \<open>The entries of a bucket that are still inside the window.\<close>

definition live_entries :: "int \<Rightarrow> rat \<Rightarrow> (string \<times> rat) list \<Rightarrow> (string \<times> rat) list" where
  "live_entries w now z = filter (\<lambda>p. \<not> in_scores 0 (Some (dsub now (of_int w))) (snd p)) z"

context redis_server
begin

lemma check_allows:
  assumes "int (length (live_entries w now (zsets (view s) (ratelimit_key k)))) < limit"
  shows "\<exists>s1. check_and_consume R k limit w now s =
      (Inr (Allowed, int (length (live_entries w now (zsets (view s) (ratelimit_key k)))) + 1, 0), s1) \<and>
    zsets (view s1) (ratelimit_key k) = z_add (fixed6 now) now (live_entries w now (zsets (view s) (ratelimit_key k)))"
  using assms by (simp add: check_and_consume_def prog_defs Let_def zcard zremrangebyscore zadd live_entries_def)

lemma check_rejects:
  assumes "limit \<le> int (length (live_entries w now (zsets (view s) (ratelimit_key k))))"
  shows "\<exists>s1 retry. check_and_consume R k limit w now s =
      (Inr (Rejected, int (length (live_entries w now (zsets (view s) (ratelimit_key k)))), retry), s1) \<and> 1 \<le> retry \<and>
    zsets (view s1) (ratelimit_key k) = live_entries w now (zsets (view s) (ratelimit_key k)) \<and>
    (live_entries w now (zsets (view s) (ratelimit_key k)) \<noteq> [] \<longrightarrow> retry =
      max 1 (int_of_float (dsub (dadd (snd (hd (live_entries w now (zsets (view s) (ratelimit_key k))))) (of_int w)) now) + 1))"
  using assms
  by (auto simp: check_and_consume_def prog_defs Let_def zcard zremrangebyscore zrange live_entries_def slice_def hd_conv_nth)

end

subsection \<open>A sequence of requests\<close>

text \<open>The times of the admitted requests among requests made at the given times.\<close>

fun admitted :: "'s redis_ops \<Rightarrow> string \<Rightarrow> int \<Rightarrow> int \<Rightarrow> rat list \<Rightarrow> 's \<Rightarrow> rat list" where
  "admitted R k limit w [] s = []"
| "admitted R k limit w (t # ts) s = (case check_and_consume R k limit w t s of
     (Inr (Allowed, c, r), s1) \<Rightarrow> t # admitted R k limit w ts s1
   | (_, s1) \<Rightarrow> admitted R k limit w ts s1)"

definition window_of :: "int \<Rightarrow> rat \<Rightarrow> rat list \<Rightarrow> rat list" where
  "window_of w t ts = filter (\<lambda>u. dsub t (of_int w) < u \<and> u \<le> t) ts"

lemma set_z_add: "set (z_add m x z) = insert (m, x) (set (z_remove m z))"
  by (simp add: z_add_def)

lemma set_admitted: "set (admitted R k limit w ts s) \<subseteq> set ts"
proof (induction ts arbitrary: s)
  case Nil
  show ?case by simp
next
  case (Cons t ts)
  obtain r s1 where r: "check_and_consume R k limit w t s = (r, s1)" by fastforce
  show ?case using Cons [of s1] by (auto simp: r split: sum.splits rate_limit_result.splits)
qed

lemma dsub_left_mono: "a \<le> b \<Longrightarrow> dsub a c \<le> dsub b c"
  by (simp add: dsub_def rnd_mono)

text \<open>
  The bucket \<open>z\<close> still has every earlier admission that a request at time \<open>t\<close> or later counts, and nothing with the
  text of a later request.
\<close>

definition bucket_has :: "int \<Rightarrow> rat list \<Rightarrow> rat list \<Rightarrow> (string \<times> rat) list \<Rightarrow> bool" where
  "bucket_has w past ts z \<longleftrightarrow> distinct past \<and>
     (\<forall>u\<in>set past. \<forall>t\<in>set ts. u < t \<and> fixed6 u \<noteq> fixed6 t \<and> (dsub t (of_int w) < u \<longrightarrow> (fixed6 u, u) \<in> set z)) \<and>
     (\<forall>p\<in>set z. 0 \<le> snd p)"

lemma bucket_window_le:
  assumes "bucket_has w past (t # ts) z" and "z_ok z"
  shows "length (filter (\<lambda>u. dsub t (of_int w) < u) past) \<le> length (live_entries w t z)"
proof -
  let ?f = "filter (\<lambda>u. dsub t (of_int w) < u) past"
  have "distinct ?f" using assms(1) by (simp add: bucket_has_def)
  then have "length ?f = card (set ?f)" by (simp only: distinct_card)
  moreover have "(\<lambda>u. (fixed6 u, u)) ` set ?f \<subseteq> set (live_entries w t z)"
    using assms(1) by (auto simp: bucket_has_def live_entries_def in_scores_def)
  then have "card ((\<lambda>u. (fixed6 u, u)) ` set ?f) \<le> card (set (live_entries w t z))"
    by (rule card_mono [rotated]) simp
  moreover have "card ((\<lambda>u. (fixed6 u, u)) ` set ?f) = card (set ?f)" by (rule card_image) (auto simp: inj_on_def)
  ultimately show ?thesis
    using card_length [of "live_entries w t z"] by linarith
qed

lemma bucket_next:
  assumes "bucket_has w past (t # ts) z" and "sorted_wrt (<) (t # ts)" and "distinct (map fixed6 (t # ts))" and "0 \<le> t"
  shows "bucket_has w past ts (live_entries w t z)"
    and "bucket_has w (past @ [t]) ts (z_add (fixed6 t) t (live_entries w t z))"
proof -
  have later: "t < t'" "fixed6 t \<noteq> fixed6 t'" "dsub t (of_int w) \<le> dsub t' (of_int w)" if "t' \<in> set ts" for t'
    using that assms(2,3) by (auto simp: dsub_left_mono less_imp_le)
  have keep: "(fixed6 u, u) \<in> set (live_entries w t z)" if "u \<in> set past" "t' \<in> set ts" "dsub t' (of_int w) < u" for u t'
  proof -
    have "dsub t (of_int w) < u" using later(3) [OF that(2)] that(3) by linarith
    then show ?thesis using assms(1) that(1) by (auto simp: bucket_has_def live_entries_def in_scores_def)
  qed
  show "bucket_has w past ts (live_entries w t z)"
    using assms(1) keep by (auto simp: bucket_has_def live_entries_def)
  have old: "u < t" "fixed6 u \<noteq> fixed6 t" if "u \<in> set past" for u
    using assms(1) that by (auto simp: bucket_has_def)
  then have fresh: "t \<notin> set past" by blast
  have pos: "\<forall>p\<in>set (live_entries w t z). 0 \<le> snd p" "distinct past" "\<forall>u\<in>set past. \<forall>t'\<in>set ts. u < t' \<and> fixed6 u \<noteq> fixed6 t'"
    using assms(1) by (auto simp: bucket_has_def live_entries_def)
  show "bucket_has w (past @ [t]) ts (z_add (fixed6 t) t (live_entries w t z))"
    unfolding bucket_has_def set_z_add using pos later old fresh keep assms(4)
    by (auto simp: z_remove_def)
qed

context redis_server
begin

lemma admitted_window:
  assumes "bucket_has w past ts (zsets (view s) (ratelimit_key k))"
    and "sorted_wrt (<) ts" and "distinct (map fixed6 ts)" and "\<forall>t\<in>set ts. 0 \<le> t"
    and "t \<in> set (admitted R k limit w ts s)"
  shows "int (length (window_of w t (past @ admitted R k limit w ts s))) \<le> limit"
  using assms
proof (induction ts arbitrary: past s)
  case Nil
  then show ?case by simp
next
  case (Cons a ts)
  let ?z = "zsets (view s) (ratelimit_key k)"
  let ?live = "live_entries w a ?z"
  note next_bucket = bucket_next [OF Cons.prems(1-3)]
  have rest: "sorted_wrt (<) ts" "distinct (map fixed6 ts)" "\<forall>t\<in>set ts. 0 \<le> t" "0 \<le> a"
    using Cons.prems(2-4) by auto
  show ?case
  proof (cases "int (length ?live) < limit")
    case True
    from check_allows [OF this] obtain s1 where s1: "check_and_consume R k limit w a s = (Inr (Allowed, int (length ?live) + 1, 0), s1)"
      "zsets (view s1) (ratelimit_key k) = z_add (fixed6 a) a ?live" by blast
    have ad: "admitted R k limit w (a # ts) s = a # admitted R k limit w ts s1" by (simp add: s1(1))
    show ?thesis
    proof (cases "t = a")
      case True
      have "window_of w a (admitted R k limit w ts s1) = []"
        using set_admitted [of R k limit w ts s1] Cons.prems(2) by (fastforce simp: window_of_def filter_empty_conv)
      moreover have "window_of w a past = filter (\<lambda>u. dsub a (of_int w) < u) past"
        unfolding window_of_def using Cons.prems(1) by (intro filter_cong) (auto simp: bucket_has_def less_imp_le)
      ultimately have "int (length (window_of w t (past @ admitted R k limit w (a # ts) s))) \<le> int (length ?live) + 1"
        using bucket_window_le [OF Cons.prems(1) zsets_ok] True unfolding ad by (auto simp: window_of_def)
      then show ?thesis using \<open>int (length ?live) < limit\<close> by linarith
    next
      case False
      then have "t \<in> set (admitted R k limit w ts s1)" using Cons.prems(5) unfolding ad by simp
      from Cons.IH [OF next_bucket(2) [OF rest(4), folded s1(2)] rest(1-3) this] show ?thesis unfolding ad by simp
    qed
  next
    case False
    then have "limit \<le> int (length ?live)" by simp
    from check_rejects [OF this] obtain s1 retry where s1: "check_and_consume R k limit w a s = (Inr (Rejected, int (length ?live), retry), s1)"
      "zsets (view s1) (ratelimit_key k) = ?live" by blast
    have ad: "admitted R k limit w (a # ts) s = admitted R k limit w ts s1" by (simp add: s1(1))
    from Cons.IH [OF next_bucket(1) [OF rest(4), folded s1(2)] rest(1-3)] Cons.prems(5) show ?thesis unfolding ad by simp
  qed
qed

end



subsection \<open>The advised waiting time\<close>

lemma int_of_float_gt: "x < of_int (int_of_float x) + 1"
  by (auto simp: int_of_float_def) linarith+

text \<open>
  The advised waiting time is enough: a client that was rejected while the bucket held no more than \<open>limit\<close>
  entries and asks again after \<open>retry_after\<close> seconds, nothing else having happened to the bucket, is admitted. Clock
  values are doubles of the present magnitude, whose spacing is \<open>2 powi (- 22)\<close>.
\<close>

theorem retry_after_suffices:
  assumes R: "redis_server R view" and rej: "check_and_consume R k limit w now s = (Inr (Rejected, c, retry), s1)"
    and bound: "int (length (zsets (view s) (ratelimit_key k))) \<le> limit" "0 < limit"
    and clock: "grid (- 22) now" "0 \<le> now" "0 \<le> w" "now + of_int w + 1 < 2 ^ 31"
      "\<forall>p\<in>set (zsets (view s) (ratelimit_key k)). 0 \<le> snd p \<and> snd p \<le> now \<and> grid (- 22) (snd p)"
  shows "\<exists>c2 s2. check_and_consume R k limit w (now + of_int retry) s1 = (Inr (Allowed, c2, 0), s2)"
proof -
  let ?z = "zsets (view s) (ratelimit_key k)"
  let ?live = "live_entries w now ?z"
  have full: "limit \<le> int (length ?live)"
    using redis_server.check_allows [OF R, of w now s k limit] rej by (cases "int (length ?live) < limit") auto
  have live: "?live \<noteq> []" using full bound(2) by auto
  from redis_server.check_rejects [OF R full] rej live
  have z1: "zsets (view s1) (ratelimit_key k) = ?live" and retry: "1 \<le> retry"
    "retry = max 1 (int_of_float (dsub (dadd (snd (hd ?live)) (of_int w)) now) + 1)" by auto
  let ?o = "snd (hd ?live)"
  have o: "0 \<le> ?o" "?o \<le> now" "grid (- 22) ?o"
    using clock(5) hd_in_set [OF live] by (auto simp: live_entries_def)
  have gi: "grid (- 22) (of_int i)" for i
    by (auto simp: grid_def power_int_minus intro!: exI [of _ "i * 2 ^ 22"])
  have exact: "rnd x = x" if "grid (- 22) x" "\<bar>x\<bar> < 2 ^ 31" for x
    using rnd_grid [OF that(1)] that(2) by (simp add: power_int_minus)
  have "dadd ?o (of_int w) = ?o + of_int w"
    unfolding dadd_def using o clock by (intro exact grid_add gi) auto
  moreover have "dsub (?o + of_int w) now = ?o + of_int w - now"
    unfolding dsub_def using o clock by (intro exact grid_diff grid_add gi) auto
  ultimately have r: "retry = max 1 (int_of_float (?o + of_int w - now) + 1)" using retry(2) by simp
  then have later: "?o \<le> now + of_int retry - of_int w"
    using int_of_float_gt [of "?o + of_int w - now"] by (auto simp: max_def split: if_splits)
  have upper: "of_int retry \<le> max 1 (?o + of_int w - now + 1)"
    unfolding r by (auto simp: int_of_float_def max_def)
  have "dsub (now + of_int retry) (of_int w) = now + of_int retry - of_int w"
    unfolding dsub_def using o clock upper later by (intro exact grid_diff grid_add gi) (auto simp: max_def split: if_splits)
  then have gone: "in_scores 0 (Some (dsub (now + of_int retry) (of_int w))) ?o"
    using later o(1) by (simp add: in_scores_def)
  have "length (live_entries w (now + of_int retry) ?live) < length ?live"
    unfolding live_entries_def [of w "now + of_int retry"] using gone hd_in_set [OF live] by (intro length_filter_less) auto
  moreover have "length ?live \<le> length ?z" by (simp add: live_entries_def)
  ultimately have "int (length (live_entries w (now + of_int retry) (zsets (view s1) (ratelimit_key k)))) < limit"
    using bound z1 by simp
  from redis_server.check_allows [OF R this] show ?thesis by blast
qed

theorem retry_after_suffices_witness:
  "(let s = empty_redis\<lparr>m_zsets := (\<lambda>k. [(''1.000000'', 1)])\<rparr>; r = check_and_consume mem_redis ''key'' 1 60 2 s in
     fst r = Inr (Rejected, 1, 60) \<and>
     (\<exists>c2 s2. check_and_consume mem_redis ''key'' 1 60 62 (snd r) = (Inr (Allowed, c2, 0), s2)))"
proof -
  let ?s = "empty_redis\<lparr>m_zsets := (\<lambda>k. [(''1.000000'', 1)])\<rparr>"
  have r: "fst (check_and_consume mem_redis ''key'' 1 60 2 ?s) = Inr (Rejected, 1, 60)" by code_simp
  have z: "zsets (mem_view ?s) (ratelimit_key ''key'') = [(''1.000000'', 1)]" by code_simp
  have g: "grid (- 22) 2" "grid (- 22) 1"
    by (auto simp: grid_def power_int_minus intro!: exI [of _ "2 ^ 23"] exI [of _ "2 ^ 22"])
  from r have "check_and_consume mem_redis ''key'' 1 60 2 ?s = (Inr (Rejected, 1, 60), snd (check_and_consume mem_redis ''key'' 1 60 2 ?s))"
    by (metis prod.collapse)
  from retry_after_suffices [OF mem.redis_server_axioms this] show ?thesis using r g by (simp add: z Let_def)
qed

end
