(* ===== verification/Balances.thy ===== *)
theory Balances
  imports Domain
begin

section \<open>Balances: repository and service\<close>

text \<open>
  \<open>repositories/balance_repo.py\<close> and \<open>services/balance_service.py\<close>. The table \<open>balances\<close> is a
  map from its unique key (user, asset) to the row. An optimistic operation is one
  \<open>UPDATE ... WHERE version = X\<close>; between its read and its update other transactions may
  change the table, which is the argument \<open>env\<close> of the retry loops (\<open>env i\<close> is what the others
  commit during attempt \<open>i\<close>). A pessimistic operation changes a row the caller holds
  \<open>FOR UPDATE\<close>. Every write stores \<open>Numeric(36, 18)\<close> columns. The balance events published
  after a change do not touch the ledger; they are in the theory \<open>Events\<close>.
\<close>

type_synonym balance_key = "int \<times> string"
type_synonym balance_tbl = "balance_key \<rightharpoonup> balance"
type_synonym 'a balance_prog = "(balance_tbl, exn, 'a) prog"

subsection \<open>Repository: reads and creation\<close>

definition get_by_user_asset :: "int \<Rightarrow> string \<Rightarrow> balance option balance_prog" where
  "get_by_user_asset u a = getP (\<lambda>t. t (u, a))"

definition get_for_update :: "int \<Rightarrow> string \<Rightarrow> balance option balance_prog" where
  "get_for_update u a = getP (\<lambda>t. t (u, a))"

definition zero_balance :: "int \<Rightarrow> string \<Rightarrow> balance" where
  "zero_balance u a = \<lparr>b_user_id = u, b_asset = a, total_balance = 0, locked_balance = 0,
     available_balance = 0, b_version = 1\<rparr>"

definition get_or_create :: "int \<Rightarrow> string \<Rightarrow> balance balance_prog" where
  "get_or_create u a = bindP (get_by_user_asset u a) (\<lambda>r. case r of
     Some b \<Rightarrow> retP b
   | None \<Rightarrow> seqP (modP (\<lambda>t. t((u, a) \<mapsto> zero_balance u a))) (retP (zero_balance u a)))"

subsection \<open>Repository: optimistic updates\<close>

text \<open>\<open>UPDATE balances SET ... WHERE key AND cond\<close>; the result says whether one row changed.\<close>

definition update_where ::
  "balance_key \<Rightarrow> (balance \<Rightarrow> bool) \<Rightarrow> (balance \<Rightarrow> balance) \<Rightarrow> bool balance_prog" where
  "update_where k cond upd t = (case t k of
     Some b \<Rightarrow> if cond b then (Inr True, t(k \<mapsto> upd b)) else (Inr False, t)
   | None \<Rightarrow> (Inr False, t))"

definition optimistic_lock :: "int \<Rightarrow> string \<Rightarrow> rat \<Rightarrow> int \<Rightarrow> bool balance_prog" where
  "optimistic_lock u a amount v = update_where (u, a)
     (\<lambda>b. b_version b = v \<and> amount \<le> available_balance b)
     (\<lambda>b. b\<lparr>locked_balance := numeric18 (locked_balance b + amount),
            available_balance := numeric18 (available_balance b - amount),
            b_version := b_version b + 1\<rparr>)"

definition optimistic_unlock :: "int \<Rightarrow> string \<Rightarrow> rat \<Rightarrow> int \<Rightarrow> bool balance_prog" where
  "optimistic_unlock u a amount v = update_where (u, a)
     (\<lambda>b. b_version b = v \<and> amount \<le> locked_balance b)
     (\<lambda>b. b\<lparr>locked_balance := numeric18 (locked_balance b - amount),
            available_balance := numeric18 (available_balance b + amount),
            b_version := b_version b + 1\<rparr>)"

definition optimistic_settle :: "int \<Rightarrow> string \<Rightarrow> rat \<Rightarrow> int \<Rightarrow> bool balance_prog" where
  "optimistic_settle u a amount v = update_where (u, a)
     (\<lambda>b. b_version b = v \<and> amount \<le> locked_balance b)
     (\<lambda>b. b\<lparr>locked_balance := numeric18 (locked_balance b - amount),
            total_balance := numeric18 (total_balance b - amount),
            b_version := b_version b + 1\<rparr>)"

definition optimistic_credit :: "int \<Rightarrow> string \<Rightarrow> rat \<Rightarrow> int \<Rightarrow> bool balance_prog" where
  "optimistic_credit u a amount v = update_where (u, a)
     (\<lambda>b. b_version b = v)
     (\<lambda>b. b\<lparr>total_balance := numeric18 (total_balance b + amount),
            available_balance := numeric18 (available_balance b + amount),
            b_version := b_version b + 1\<rparr>)"

subsection \<open>Repository: pessimistic helpers on a held row\<close>

definition repo_lock_pessimistic :: "balance \<Rightarrow> rat \<Rightarrow> (exn, balance) result" where
  "repo_lock_pessimistic b amount =
     (if amount < 0 then Inl (ValueError ''lock amount must be non-negative'')
      else if available_balance b < amount then Inl (ValueError ''Insufficient available balance'')
      else check_invariant (b\<lparr>available_balance := available_balance b - amount,
        locked_balance := locked_balance b + amount, b_version := b_version b + 1\<rparr>))"

definition repo_unlock_pessimistic :: "balance \<Rightarrow> rat \<Rightarrow> (exn, balance) result" where
  "repo_unlock_pessimistic b amount =
     (if amount < 0 then Inl (ValueError ''unlock amount must be non-negative'')
      else if locked_balance b < amount then Inl (ValueError ''Insufficient locked balance'')
      else check_invariant (b\<lparr>locked_balance := locked_balance b - amount,
        available_balance := available_balance b + amount, b_version := b_version b + 1\<rparr>))"

definition repo_settle_pessimistic :: "balance \<Rightarrow> rat \<Rightarrow> (exn, balance) result" where
  "repo_settle_pessimistic b amount =
     (if amount < 0 then Inl (ValueError ''settle amount must be non-negative'')
      else if locked_balance b < amount then Inl (ValueError ''Insufficient locked balance for settle'')
      else check_invariant (b\<lparr>locked_balance := locked_balance b - amount,
        total_balance := total_balance b - amount, b_version := b_version b + 1\<rparr>))"

definition repo_credit_pessimistic :: "balance \<Rightarrow> rat \<Rightarrow> (exn, balance) result" where
  "repo_credit_pessimistic b amount =
     (if amount < 0 then Inl (ValueError ''credit amount must be non-negative'')
      else check_invariant (b\<lparr>total_balance := total_balance b + amount,
        available_balance := available_balance b + amount, b_version := b_version b + 1\<rparr>))"

subsection \<open>Service: optimistic operations with retries\<close>

definition MAX_OPTIMISTIC_RETRIES :: nat where
  "MAX_OPTIMISTIC_RETRIES = 3"

type_synonym interference = "nat \<Rightarrow> balance_tbl \<Rightarrow> balance_tbl"

definition quiet :: interference where
  "quiet i t = t"

fun lock_attempts :: "interference \<Rightarrow> nat \<Rightarrow> nat \<Rightarrow> int \<Rightarrow> string \<Rightarrow> rat \<Rightarrow> balance balance_prog" where
  "lock_attempts env i 0 u a amount = raiseP (BalanceVersionConflict u a i)"
| "lock_attempts env i (Suc n) u a amount =
     bindP (bindP (get_by_user_asset u a) (\<lambda>r. case r of None \<Rightarrow> get_or_create u a | Some b \<Rightarrow> retP b)) (\<lambda>b.
     if available_balance b < amount
     then raiseP (InsufficientBalanceError u a amount (available_balance b))
     else seqP (modP (env i)) (bindP (optimistic_lock u a amount (b_version b)) (\<lambda>success.
       if success then retP b else lock_attempts env (Suc i) n u a amount)))"

definition lock_optimistic :: "interference \<Rightarrow> int \<Rightarrow> string \<Rightarrow> rat \<Rightarrow> balance balance_prog" where
  "lock_optimistic env u a amount =
     (if amount \<le> 0 then raiseP (ValueError ''lock amount must be positive'')
      else lock_attempts env 0 MAX_OPTIMISTIC_RETRIES u a amount)"

fun unlock_attempts :: "interference \<Rightarrow> nat \<Rightarrow> nat \<Rightarrow> int \<Rightarrow> string \<Rightarrow> rat \<Rightarrow> balance balance_prog" where
  "unlock_attempts env i 0 u a amount = raiseP (BalanceVersionConflict u a MAX_OPTIMISTIC_RETRIES)"
| "unlock_attempts env i (Suc n) u a amount =
     bindP (get_by_user_asset u a) (\<lambda>r. case r of
       None \<Rightarrow> raiseP (ValueError ''Balance not found'')
     | Some b \<Rightarrow> seqP (modP (env i)) (bindP (optimistic_unlock u a amount (b_version b)) (\<lambda>success.
         if success then retP b else unlock_attempts env (Suc i) n u a amount)))"

definition unlock_optimistic :: "interference \<Rightarrow> int \<Rightarrow> string \<Rightarrow> rat \<Rightarrow> balance balance_prog" where
  "unlock_optimistic env u a amount =
     (if amount \<le> 0 then raiseP (ValueError ''unlock amount must be positive'')
      else unlock_attempts env 0 MAX_OPTIMISTIC_RETRIES u a amount)"

fun settle_attempts :: "interference \<Rightarrow> nat \<Rightarrow> nat \<Rightarrow> int \<Rightarrow> string \<Rightarrow> rat \<Rightarrow> balance balance_prog" where
  "settle_attempts env i 0 u a amount = raiseP (BalanceVersionConflict u a MAX_OPTIMISTIC_RETRIES)"
| "settle_attempts env i (Suc n) u a amount =
     bindP (get_by_user_asset u a) (\<lambda>r. case r of
       None \<Rightarrow> raiseP (ValueError ''Balance not found'')
     | Some b \<Rightarrow> seqP (modP (env i)) (bindP (optimistic_settle u a amount (b_version b)) (\<lambda>success.
         if success then retP b else settle_attempts env (Suc i) n u a amount)))"

definition settle_optimistic :: "interference \<Rightarrow> int \<Rightarrow> string \<Rightarrow> rat \<Rightarrow> balance balance_prog" where
  "settle_optimistic env u a amount =
     (if amount \<le> 0 then raiseP (ValueError ''settle amount must be positive'')
      else settle_attempts env 0 MAX_OPTIMISTIC_RETRIES u a amount)"

fun credit_attempts :: "interference \<Rightarrow> nat \<Rightarrow> nat \<Rightarrow> int \<Rightarrow> string \<Rightarrow> rat \<Rightarrow> balance balance_prog" where
  "credit_attempts env i 0 u a amount = raiseP (BalanceVersionConflict u a MAX_OPTIMISTIC_RETRIES)"
| "credit_attempts env i (Suc n) u a amount =
     bindP (get_by_user_asset u a) (\<lambda>r. case r of
       None \<Rightarrow> seqP (get_or_create u a) (credit_attempts env (Suc i) n u a amount)
     | Some b \<Rightarrow> seqP (modP (env i)) (bindP (optimistic_credit u a amount (b_version b)) (\<lambda>success.
         if success then retP b else credit_attempts env (Suc i) n u a amount)))"

definition credit_optimistic :: "interference \<Rightarrow> int \<Rightarrow> string \<Rightarrow> rat \<Rightarrow> balance balance_prog" where
  "credit_optimistic env u a amount =
     (if amount \<le> 0 then raiseP (ValueError ''credit amount must be positive'')
      else credit_attempts env 0 MAX_OPTIMISTIC_RETRIES u a amount)"

subsection \<open>Service: pessimistic operations\<close>

text \<open>\<open>session.flush()\<close> writes the changed row; its numeric columns are rounded on the way.\<close>

definition store_balance :: "balance \<Rightarrow> balance_tbl \<Rightarrow> balance_tbl" where
  "store_balance b t = t((b_user_id b, b_asset b) \<mapsto>
     b\<lparr>total_balance := numeric18 (total_balance b), locked_balance := numeric18 (locked_balance b),
       available_balance := numeric18 (available_balance b)\<rparr>)"

definition flush_row :: "(exn, balance) result \<Rightarrow> unit balance_prog" where
  "flush_row r = (case r of Inl e \<Rightarrow> raiseP e | Inr b \<Rightarrow> modP (store_balance b))"

definition lock_pessimistic :: "balance \<Rightarrow> rat \<Rightarrow> unit balance_prog" where
  "lock_pessimistic b amount = flush_row (repo_lock_pessimistic b amount)"

definition unlock_pessimistic :: "balance \<Rightarrow> rat \<Rightarrow> unit balance_prog" where
  "unlock_pessimistic b amount = flush_row (repo_unlock_pessimistic b amount)"

definition settle_pessimistic :: "balance \<Rightarrow> rat \<Rightarrow> unit balance_prog" where
  "settle_pessimistic b amount = flush_row (repo_settle_pessimistic b amount)"

definition credit_pessimistic :: "balance \<Rightarrow> rat \<Rightarrow> unit balance_prog" where
  "credit_pessimistic b amount = flush_row (repo_credit_pessimistic b amount)"

definition admin_adjust :: "int \<Rightarrow> string \<Rightarrow> rat \<Rightarrow> balance balance_prog" where
  "admin_adjust u a delta =
     bindP (bindP (get_for_update u a) (\<lambda>r. case r of
        Some b \<Rightarrow> retP b
      | None \<Rightarrow> seqP (get_or_create u a) (bindP (get_for_update u a) (\<lambda>r2. case r2 of
          None \<Rightarrow> raiseP AssertionError | Some b \<Rightarrow> retP b)))) (\<lambda>b.
     let applied =
       (if 0 \<le> delta
        then Inr (b\<lparr>total_balance := total_balance b + delta,
          available_balance := available_balance b + delta\<rparr>)
        else if available_balance b < - delta
        then Inl (InsufficientBalanceError u a (- delta) (available_balance b))
        else Inr (b\<lparr>total_balance := total_balance b - (- delta),
          available_balance := available_balance b - (- delta)\<rparr>)) in
     (case applied of
        Inl e \<Rightarrow> raiseP e
      | Inr b1 \<Rightarrow> (case check_invariant (b1\<lparr>b_version := b_version b1 + 1\<rparr>) of
          Inl e \<Rightarrow> raiseP e
        | Inr b2 \<Rightarrow> seqP (modP (store_balance b2)) (retP b2))))"

text \<open>An operation applied to the row its caller fetched with \<open>get_for_update\<close>.\<close>

definition row_step :: "(balance \<Rightarrow> rat \<Rightarrow> unit balance_prog) \<Rightarrow> balance_key \<Rightarrow> rat \<Rightarrow> unit balance_prog" where
  "row_step f k amount = bindP (getP (\<lambda>t. t k)) (\<lambda>r. case r of
     None \<Rightarrow> raiseP AssertionError | Some b \<Rightarrow> f b amount)"

text \<open>
  \<open>settle_trade_pessimistic\<close> receives two held rows, which are the same object when a user
  trades with themselves; the rows are named by their keys so that the second step sees the first.
  Both rows are written by one flush.
\<close>

definition settle_trade_pessimistic :: "balance_key \<Rightarrow> balance_key \<Rightarrow> rat \<Rightarrow> unit balance_prog" where
  "settle_trade_pessimistic taker maker amount =
     bindP (getP (\<lambda>t. (t taker, t maker))) (\<lambda>(tk, mk). case tk of
       None \<Rightarrow> raiseP AssertionError
     | Some taker_balance \<Rightarrow> (case mk of
         None \<Rightarrow> raiseP AssertionError
       | Some maker_balance \<Rightarrow> (case repo_settle_pessimistic taker_balance amount of
           Inl e \<Rightarrow> raiseP e
         | Inr taker1 \<Rightarrow> (case repo_credit_pessimistic (if maker = taker then taker1 else maker_balance) amount of
             Inl e \<Rightarrow> raiseP e
           | Inr maker1 \<Rightarrow> seqP (modP (store_balance taker1)) (modP (store_balance maker1))))))"

subsection \<open>The ledger invariant\<close>

definition balance_ok :: "balance \<Rightarrow> bool" where
  "balance_ok b \<longleftrightarrow> total_balance b = locked_balance b + available_balance b \<and>
     0 \<le> locked_balance b \<and> 0 \<le> available_balance b"

definition row_ok :: "balance_key \<Rightarrow> balance \<Rightarrow> bool" where
  "row_ok k b \<longleftrightarrow> (b_user_id b, b_asset b) = k \<and> balance_ok b \<and>
     dec18 (locked_balance b) \<and> dec18 (available_balance b)"

definition ledger_ok :: "balance_tbl \<Rightarrow> bool" where
  "ledger_ok t \<longleftrightarrow> finite (dom t) \<and> (\<forall>k b. t k = Some b \<longrightarrow> row_ok k b)"

text \<open>How much of an asset all users own together.\<close>

definition asset_total :: "string \<Rightarrow> balance_tbl \<Rightarrow> rat" where
  "asset_total a t = dict_sum (\<lambda>b. if b_asset b = a then total_balance b else 0) t"

lemmas balance_op_defs = repo_lock_pessimistic_def repo_unlock_pessimistic_def
  repo_settle_pessimistic_def repo_credit_pessimistic_def check_invariant_def

lemma ledger_okD: "ledger_ok t \<Longrightarrow> t k = Some b \<Longrightarrow> row_ok k b"
  by (cases k) (simp add: ledger_ok_def)

lemma row_ok_dec18_total: "row_ok k b \<Longrightarrow> dec18 (total_balance b)"
  by (auto simp: row_ok_def balance_ok_def)

lemma ledger_ok_upd: "ledger_ok t \<Longrightarrow> row_ok k b \<Longrightarrow> ledger_ok (t(k \<mapsto> b))"
  by (auto simp: ledger_ok_def)

lemma row_ok_zero: "row_ok (u, a) (zero_balance u a)"
  by (simp add: row_ok_def zero_balance_def balance_ok_def)

lemma asset_total_upd:
  "ledger_ok t \<Longrightarrow> t k = Some b \<Longrightarrow> b_asset b' = b_asset b \<Longrightarrow>
    asset_total a (t(k \<mapsto> b')) =
      asset_total a t + (if b_asset b = a then total_balance b' - total_balance b else 0)"
  by (auto simp: asset_total_def dict_sum_upd ledger_ok_def)

lemma asset_total_new:
  "ledger_ok t \<Longrightarrow> t k = None \<Longrightarrow> total_balance b' = 0 \<Longrightarrow> asset_total a (t(k \<mapsto> b')) = asset_total a t"
  by (simp add: asset_total_def dict_sum_upd_new ledger_ok_def)

subsection \<open>The contract of the pessimistic operations\<close>

text \<open>
  Lock, unlock, settle and credit share one contract: under its guard an operation adds
  \<open>dl amount\<close> to the locked part, \<open>da amount\<close> to the available part, the sum to the total and one
  to the version; outside the guard it raises ValueError. The consequences are proved once.
\<close>

locale balance_op =
  fixes op :: "balance \<Rightarrow> rat \<Rightarrow> (exn, balance) result"
    and guard :: "balance \<Rightarrow> rat \<Rightarrow> bool"
    and dl da :: "rat \<Rightarrow> rat"
  assumes runs: "balance_ok b \<Longrightarrow> guard b x \<Longrightarrow> op b x =
      Inr (b\<lparr>total_balance := total_balance b + (dl x + da x), locked_balance := locked_balance b + dl x,
        available_balance := available_balance b + da x, b_version := b_version b + 1\<rparr>)"
    and stops: "\<not> guard b x \<Longrightarrow> \<exists>m. op b x = Inl (ValueError m)"
    and solvent: "balance_ok b \<Longrightarrow> guard b x \<Longrightarrow> 0 \<le> locked_balance b + dl x \<and> 0 \<le> available_balance b + da x"
    and on_grid: "dec18 x \<Longrightarrow> dec18 (dl x) \<and> dec18 (da x)"
begin

lemma succeeds_iff: "balance_ok b \<Longrightarrow> is_ok (op b x) \<longleftrightarrow> guard b x"
  using runs stops by (cases "guard b x") fastforce+

lemma op_result:
  assumes "balance_ok b" and "op b x = Inr b'"
  shows "b' = b\<lparr>total_balance := total_balance b + (dl x + da x), locked_balance := locked_balance b + dl x,
        available_balance := available_balance b + da x, b_version := b_version b + 1\<rparr>" and "guard b x"
proof -
  show g: "guard b x" using succeeds_iff [OF assms(1), of x] assms(2) by simp
  show "b' = b\<lparr>total_balance := total_balance b + (dl x + da x), locked_balance := locked_balance b + dl x,
        available_balance := available_balance b + da x, b_version := b_version b + 1\<rparr>"
    using runs [OF assms(1) g] assms(2) by simp
qed

lemma keeps_row:
  assumes "row_ok k b" and "dec18 x" and "op b x = Inr b'"
  shows "row_ok k b'"
proof -
  have b: "balance_ok b" using assms(1) by (simp add: row_ok_def)
  have "balance_ok b'"
    using op_result [OF b assms(3)] solvent [OF b, of x] b by (simp add: balance_ok_def)
  moreover have "dec18 (locked_balance b')" "dec18 (available_balance b')"
    using op_result [OF b assms(3)] on_grid [OF assms(2)] assms(1) by (auto simp: row_ok_def)
  ultimately show ?thesis using op_result [OF b assms(3)] assms(1) by (simp add: row_ok_def)
qed

lemma never_runtime_error: "balance_ok b \<Longrightarrow> op b x \<noteq> Inl (RuntimeError m)"
  using runs stops by (cases "guard b x") fastforce+

lemma flush_keeps_ledger:
  assumes "ledger_ok t" and "t k = Some b" and "dec18 x"
  shows "ledger_ok (snd (flush_row (op b x) t))"
proof (cases "op b x")
  case (Inl e)
  then show ?thesis using assms by (simp add: flush_row_def raiseP_def)
next
  case (Inr b')
  have r: "row_ok k b'" using keeps_row [OF ledger_okD [OF assms(1,2)] assms(3) Inr] .
  then have "store_balance b' t = t(k \<mapsto> b')"
    using row_ok_dec18_total [OF r] by (auto simp: store_balance_def row_ok_def)
  with r Inr show ?thesis using assms(1) by (simp add: flush_row_def modP_def ledger_ok_upd)
qed

lemma flush_total:
  assumes "ledger_ok t" and "t k = Some b" and "dec18 x" and "guard b x"
  shows "asset_total a (snd (flush_row (op b x) t)) = asset_total a t + (if b_asset b = a then dl x + da x else 0)"
proof -
  have rb: "row_ok k b" using ledger_okD [OF assms(1,2)] .
  then have b: "balance_ok b" by (simp add: row_ok_def)
  note eq = runs [OF b assms(4)]
  have r: "row_ok k (b\<lparr>total_balance := total_balance b + (dl x + da x), locked_balance := locked_balance b + dl x,
        available_balance := available_balance b + da x, b_version := b_version b + 1\<rparr>)" (is "row_ok k ?b'")
    using keeps_row [OF rb assms(3) eq] .
  then have "store_balance ?b' t = t(k \<mapsto> ?b')"
    using row_ok_dec18_total [OF r] by (auto simp: store_balance_def row_ok_def)
  then show ?thesis
    using asset_total_upd [OF assms(1,2), of ?b' a] eq by (simp add: flush_row_def modP_def)
qed

end

interpretation lock_op: balance_op repo_lock_pessimistic
  "\<lambda>b x. 0 \<le> x \<and> x \<le> available_balance b" "\<lambda>x. x" "\<lambda>x. - x"
  by unfold_locales (auto simp: balance_op_defs balance_ok_def dec18_diff [of 0, simplified])

interpretation unlock_op: balance_op repo_unlock_pessimistic
  "\<lambda>b x. 0 \<le> x \<and> x \<le> locked_balance b" "\<lambda>x. - x" "\<lambda>x. x"
  by unfold_locales (auto simp: balance_op_defs balance_ok_def dec18_diff [of 0, simplified])

interpretation settle_op: balance_op repo_settle_pessimistic
  "\<lambda>b x. 0 \<le> x \<and> x \<le> locked_balance b" "\<lambda>x. - x" "\<lambda>x. 0"
  by unfold_locales (auto simp: balance_op_defs balance_ok_def dec18_diff [of 0, simplified])

interpretation credit_op: balance_op repo_credit_pessimistic
  "\<lambda>b x. 0 \<le> x" "\<lambda>x. 0" "\<lambda>x. x"
  by unfold_locales (auto simp: balance_op_defs balance_ok_def)

subsection \<open>The optimistic operations keep the ledger under interference\<close>

definition tame :: "interference \<Rightarrow> bool" where
  "tame env \<longleftrightarrow> (\<forall>i t. ledger_ok t \<longrightarrow> ledger_ok (env i t))"

lemma tame_quiet: "tame quiet"
  by (simp add: tame_def quiet_def)

lemma preserves_env: "tame env \<Longrightarrow> preserves ledger_ok (modP (env i))"
  by (simp add: preserves_mod tame_def)

lemma preserves_update_where:
  assumes "\<And>b. row_ok k b \<Longrightarrow> cond b \<Longrightarrow> row_ok k (upd b)"
  shows "preserves ledger_ok (update_where k cond upd)"
  by (auto simp: preserves_def update_where_def split: option.split intro!: ledger_ok_upd assms
      intro: ledger_okD)

lemma preserves_get_by_user_asset [preserves_intros]: "preserves I (get_by_user_asset u a)"
  by (simp add: get_by_user_asset_def preserves_get)

lemma preserves_get_for_update [preserves_intros]: "preserves I (get_for_update u a)"
  by (simp add: get_for_update_def preserves_get)

lemma preserves_get_or_create [preserves_intros]: "preserves ledger_ok (get_or_create u a)"
  unfolding get_or_create_def
  by (intro preserves_intros preserves_mod ledger_ok_upd row_ok_zero)

lemma row_ok_move:
  assumes "row_ok k b" "dec18 dl" "dec18 da" "0 \<le> locked_balance b + dl" "0 \<le> available_balance b + da"
  shows "row_ok k (b\<lparr>total_balance := numeric18 (total_balance b + (dl + da)),
    locked_balance := numeric18 (locked_balance b + dl),
    available_balance := numeric18 (available_balance b + da), b_version := v\<rparr>)"
proof -
  have "dec18 (locked_balance b + dl)" "dec18 (available_balance b + da)" "dec18 (total_balance b + (dl + da))"
    using assms row_ok_dec18_total [OF assms(1)] by (auto simp: row_ok_def)
  then show ?thesis using assms by (auto simp: row_ok_def balance_ok_def)
qed

lemma dec18_minus: "dec18 x \<Longrightarrow> dec18 (- x)"
  using dec18_diff [of 0 x] by simp

lemma total_same: "row_ok k b \<Longrightarrow> b\<lparr>locked_balance := l, available_balance := v, b_version := w\<rparr> =
    b\<lparr>total_balance := numeric18 (total_balance b), locked_balance := l, available_balance := v, b_version := w\<rparr>"
  by (simp add: row_ok_dec18_total)

lemma preserves_optimistic:
  assumes "dec18 x" "0 < x"
  shows "preserves ledger_ok (optimistic_lock u a x v)"
    and "preserves ledger_ok (optimistic_unlock u a x v)"
    and "preserves ledger_ok (optimistic_settle u a x v)"
    and "preserves ledger_ok (optimistic_credit u a x v)"
proof -
  note m = dec18_minus [OF assms(1)]
  show "preserves ledger_ok (optimistic_lock u a x v)"
    unfolding optimistic_lock_def
  proof (rule preserves_update_where)
    fix b assume "row_ok (u, a) b" and "b_version b = v \<and> x \<le> available_balance b"
    with row_ok_move [OF _ assms(1) m, of "(u, a)" b "b_version b + 1"] assms
    show "row_ok (u, a) (b\<lparr>locked_balance := numeric18 (locked_balance b + x),
        available_balance := numeric18 (available_balance b - x), b_version := b_version b + 1\<rparr>)"
      by (simp add: total_same row_ok_def balance_ok_def)
  qed
  show "preserves ledger_ok (optimistic_unlock u a x v)"
    unfolding optimistic_unlock_def
  proof (rule preserves_update_where)
    fix b assume "row_ok (u, a) b" and "b_version b = v \<and> x \<le> locked_balance b"
    with row_ok_move [OF _ m assms(1), of "(u, a)" b "b_version b + 1"] assms
    show "row_ok (u, a) (b\<lparr>locked_balance := numeric18 (locked_balance b - x),
        available_balance := numeric18 (available_balance b + x), b_version := b_version b + 1\<rparr>)"
      by (simp add: total_same row_ok_def balance_ok_def)
  qed
  show "preserves ledger_ok (optimistic_settle u a x v)"
    unfolding optimistic_settle_def
  proof (rule preserves_update_where)
    fix b assume "row_ok (u, a) b" and "b_version b = v \<and> x \<le> locked_balance b"
    with row_ok_move [OF _ m dec18_0, of "(u, a)" b "b_version b + 1"] assms
    show "row_ok (u, a) (b\<lparr>locked_balance := numeric18 (locked_balance b - x),
        total_balance := numeric18 (total_balance b - x), b_version := b_version b + 1\<rparr>)"
      by (simp add: row_ok_def balance_ok_def)
  qed
  show "preserves ledger_ok (optimistic_credit u a x v)"
    unfolding optimistic_credit_def
  proof (rule preserves_update_where)
    fix b assume "row_ok (u, a) b" and "b_version b = v"
    with row_ok_move [OF _ dec18_0 assms(1), of "(u, a)" b "b_version b + 1"] assms
    show "row_ok (u, a) (b\<lparr>total_balance := numeric18 (total_balance b + x),
        available_balance := numeric18 (available_balance b + x), b_version := b_version b + 1\<rparr>)"
      by (simp add: row_ok_def balance_ok_def)
  qed
qed

lemma preserves_attempts:
  assumes "tame env" "dec18 x" "0 < x"
  shows "preserves ledger_ok (lock_attempts env i n u a x)"
    and "preserves ledger_ok (unlock_attempts env i n u a x)"
    and "preserves ledger_ok (settle_attempts env i n u a x)"
    and "preserves ledger_ok (credit_attempts env i n u a x)"
  by (induction n arbitrary: i)
    (auto intro!: preserves_intros preserves_env preserves_optimistic assms)

lemma preserves_service_optimistic [preserves_intros]:
  assumes "tame env" "dec18 x"
  shows "preserves ledger_ok (lock_optimistic env u a x)"
    and "preserves ledger_ok (unlock_optimistic env u a x)"
    and "preserves ledger_ok (settle_optimistic env u a x)"
    and "preserves ledger_ok (credit_optimistic env u a x)"
  using assms unfolding lock_optimistic_def unlock_optimistic_def settle_optimistic_def credit_optimistic_def
  by (auto intro!: preserves_intros preserves_attempts)

lemma row_step_keeps:
  assumes "\<And>t k b. ledger_ok t \<Longrightarrow> t k = Some b \<Longrightarrow> ledger_ok (snd (f b x t))"
  shows "preserves ledger_ok (row_step f k x)"
  using assms by (auto simp: preserves_def row_step_def bindP_def getP_def raiseP_def split: option.split)

lemma preserves_row_steps [preserves_intros]:
  assumes "dec18 x"
  shows "preserves ledger_ok (row_step lock_pessimistic k x)"
    and "preserves ledger_ok (row_step unlock_pessimistic k x)"
    and "preserves ledger_ok (row_step settle_pessimistic k x)"
    and "preserves ledger_ok (row_step credit_pessimistic k x)"
  unfolding lock_pessimistic_def unlock_pessimistic_def settle_pessimistic_def credit_pessimistic_def
  by (auto intro!: row_step_keeps lock_op.flush_keeps_ledger unlock_op.flush_keeps_ledger
      settle_op.flush_keeps_ledger credit_op.flush_keeps_ledger assms)

lemma store_row: "row_ok k b \<Longrightarrow> store_balance b t = t(k \<mapsto> b)"
  using row_ok_dec18_total [of k b] by (auto simp: store_balance_def row_ok_def)

text \<open>On a ledger in order, writing both rows at once is the two held operations in a row.\<close>

lemma settle_trade_steps:
  assumes ok: "ledger_ok t" and x: "dec18 x" and rows: "t taker = Some tb" "t maker = Some mb"
  shows "settle_trade_pessimistic taker maker x t =
    seqP (row_step settle_pessimistic taker x) (row_step credit_pessimistic maker x) t"
proof (cases "repo_settle_pessimistic tb x")
  case (Inl e)
  then show ?thesis using rows
    by (simp add: settle_trade_pessimistic_def row_step_def settle_pessimistic_def flush_row_def prog_defs)
next
  case (Inr tb')
  have rt: "row_ok taker tb" and rm: "row_ok maker mb" using ledger_okD [OF ok] rows by auto
  have rt': "row_ok taker tb'" using settle_op.keeps_row [OF rt x Inr] .
  have nonneg: "0 \<le> x" using settle_op.op_result(2) [OF _ Inr] rt by (simp add: row_ok_def)
  let ?m = "if maker = taker then tb' else mb"
  have "row_ok maker ?m" using rt' rm by simp
  then obtain mb' where mb': "repo_credit_pessimistic ?m x = Inr mb'"
    using credit_op.runs nonneg by (fastforce simp: row_ok_def)
  have "(t(taker \<mapsto> tb')) maker = Some ?m" using rows by simp
  then show ?thesis using rows Inr mb' store_row [OF rt']
    by (simp add: settle_trade_pessimistic_def row_step_def settle_pessimistic_def
        credit_pessimistic_def flush_row_def prog_defs del: fun_upd_apply)
qed

lemma settle_trade_missing:
  "t taker = None \<or> t maker = None \<Longrightarrow> settle_trade_pessimistic taker maker x t = (Inl AssertionError, t)"
  by (auto simp: settle_trade_pessimistic_def prog_defs split: option.split)

lemma settle_trade_preserves:
  assumes "dec18 x" and "\<And>t. I t \<Longrightarrow> ledger_ok t"
    and "preserves I (row_step settle_pessimistic taker x)" "preserves I (row_step credit_pessimistic maker x)"
  shows "preserves I (settle_trade_pessimistic taker maker x)"
proof (rule preservesI)
  fix t assume t: "I t"
  show "I (snd (settle_trade_pessimistic taker maker x t))"
  proof (cases "t taker = None \<or> t maker = None")
    case True
    then show ?thesis using t by (simp add: settle_trade_missing)
  next
    case False
    then show ?thesis
      using settle_trade_steps [OF assms(2) [OF t] assms(1), of taker _ maker]
        preservesD [of I, OF preserves_seq [OF assms(3,4)] t]
      by auto
  qed
qed

lemma admin_adjust_from_row:
  assumes "ledger_ok t" "t (u, a) = Some b" "dec18 d"
  shows "ledger_ok (snd (admin_adjust u a d t))"
proof (cases "d < 0 \<and> available_balance b < - d")
  case True
  then show ?thesis using assms by (simp add: admin_adjust_def get_for_update_def prog_defs Let_def)
next
  case False
  let ?b = "b\<lparr>total_balance := total_balance b + d, available_balance := available_balance b + d, b_version := b_version b + 1\<rparr>"
  have b: "row_ok (u, a) b" using ledger_okD [OF assms(1,2)] .
  then have r: "row_ok (u, a) ?b"
    using False assms(3) by (auto simp: row_ok_def balance_ok_def not_less)
  then have "store_balance ?b t = t((u, a) \<mapsto> ?b)"
    using row_ok_dec18_total [OF r] by (auto simp: store_balance_def row_ok_def)
  moreover have "snd (admin_adjust u a d t) = store_balance ?b t"
    using False b assms
    by (auto simp: admin_adjust_def get_for_update_def prog_defs Let_def check_invariant_def row_ok_def balance_ok_def)
  ultimately show ?thesis using r assms(1) by (simp add: ledger_ok_upd)
qed

lemma admin_adjust_new:
  "t (u, a) = None \<Longrightarrow> admin_adjust u a d t = admin_adjust u a d (t((u, a) \<mapsto> zero_balance u a))"
  by (simp add: admin_adjust_def get_for_update_def get_or_create_def get_by_user_asset_def prog_defs)

lemma preserves_admin_adjust [preserves_intros]:
  assumes "dec18 d"
  shows "preserves ledger_ok (admin_adjust u a d)"
proof (rule preservesI)
  fix t assume t: "ledger_ok t"
  show "ledger_ok (snd (admin_adjust u a d t))"
  proof (cases "t (u, a)")
    case None
    then show ?thesis
      using admin_adjust_from_row [of "t((u, a) \<mapsto> zero_balance u a)" u a "zero_balance u a" d] t assms
      by (simp add: admin_adjust_new ledger_ok_upd row_ok_zero)
  next
    case (Some b)
    with t assms show ?thesis by (simp add: admin_adjust_from_row)
  qed
qed

subsection \<open>Reachable ledgers\<close>

text \<open>
  A transaction is one call of the balance service. While an optimistic call runs, other
  transactions may commit between its read and its update: \<open>others i\<close> are the calls that commit
  during attempt \<open>i\<close>. Amounts have at most eighteen decimals.
\<close>

datatype balance_cmd =
    Lock int string rat
  | Unlock int string rat
  | Settle int string rat
  | Credit int string rat
  | HeldLock balance_key rat
  | HeldUnlock balance_key rat
  | HeldSettle balance_key rat
  | HeldCredit balance_key rat
  | Transfer balance_key balance_key rat
  | Adjust int string rat

fun cmd_amount :: "balance_cmd \<Rightarrow> rat" where
  "cmd_amount (Lock u a x) = x"
| "cmd_amount (Unlock u a x) = x"
| "cmd_amount (Settle u a x) = x"
| "cmd_amount (Credit u a x) = x"
| "cmd_amount (HeldLock k x) = x"
| "cmd_amount (HeldUnlock k x) = x"
| "cmd_amount (HeldSettle k x) = x"
| "cmd_amount (HeldCredit k x) = x"
| "cmd_amount (Transfer k l x) = x"
| "cmd_amount (Adjust u a x) = x"

fun run_cmd :: "interference \<Rightarrow> balance_cmd \<Rightarrow> balance_tbl \<Rightarrow> balance_tbl" where
  "run_cmd env (Lock u a x) t = snd (atomicP (lock_optimistic env u a x) t)"
| "run_cmd env (Unlock u a x) t = snd (atomicP (unlock_optimistic env u a x) t)"
| "run_cmd env (Settle u a x) t = snd (atomicP (settle_optimistic env u a x) t)"
| "run_cmd env (Credit u a x) t = snd (atomicP (credit_optimistic env u a x) t)"
| "run_cmd env (HeldLock k x) t = snd (atomicP (row_step lock_pessimistic k x) t)"
| "run_cmd env (HeldUnlock k x) t = snd (atomicP (row_step unlock_pessimistic k x) t)"
| "run_cmd env (HeldSettle k x) t = snd (atomicP (row_step settle_pessimistic k x) t)"
| "run_cmd env (HeldCredit k x) t = snd (atomicP (row_step credit_pessimistic k x) t)"
| "run_cmd env (Transfer k l x) t = snd (atomicP (settle_trade_pessimistic k l x) t)"
| "run_cmd env (Adjust u a x) t = snd (atomicP (admin_adjust u a x) t)"

definition meanwhile :: "(nat \<Rightarrow> balance_cmd list) \<Rightarrow> interference" where
  "meanwhile others i t = fold (run_cmd quiet) (others i) t"

inductive reachable_ledger :: "balance_tbl \<Rightarrow> bool" where
  empty: "reachable_ledger Map.empty"
| transaction: "reachable_ledger t \<Longrightarrow> dec18 (cmd_amount c) \<Longrightarrow>
    (\<And>i. list_all (\<lambda>d. dec18 (cmd_amount d)) (others i)) \<Longrightarrow>
    reachable_ledger (run_cmd (meanwhile others) c t)"

lemma run_cmd_keeps: "tame env \<Longrightarrow> dec18 (cmd_amount c) \<Longrightarrow> ledger_ok t \<Longrightarrow> ledger_ok (run_cmd env c t)"
  by (cases c)
    (auto intro!: preserves_intros settle_trade_preserves preservesD [of ledger_ok])

lemma tame_meanwhile:
  assumes "\<And>i. list_all (\<lambda>d. dec18 (cmd_amount d)) (others i)"
  shows "tame (meanwhile others)"
proof -
  have "list_all (\<lambda>d. dec18 (cmd_amount d)) cs \<Longrightarrow> ledger_ok t \<Longrightarrow> ledger_ok (fold (run_cmd quiet) cs t)" for cs t
    by (induction cs arbitrary: t) (auto simp: run_cmd_keeps tame_quiet)
  then show ?thesis using assms by (simp add: tame_def meanwhile_def)
qed

lemma reachable_ledger_ok: "reachable_ledger t \<Longrightarrow> ledger_ok t"
proof (induction rule: reachable_ledger.induct)
  case empty
  show ?case by (simp add: ledger_ok_def)
next
  case (transaction t c others)
  then show ?case by (simp add: run_cmd_keeps tame_meanwhile)
qed



subsection \<open>Versions grow, so an optimistic update never overwrites another\<close>

definition grows :: "balance_tbl \<Rightarrow> balance_tbl \<Rightarrow> bool" where
  "grows t t' \<longleftrightarrow> ledger_ok t' \<and> (\<forall>k b. t k = Some b \<longrightarrow>
     (\<exists>b'. t' k = Some b' \<and> (b' = b \<or> b_version b < b_version b')))"

lemma grows_refl: "ledger_ok t \<Longrightarrow> grows t t"
  by (auto simp: grows_def)

lemma grows_trans:
  assumes "grows t t'" and "grows t' t''"
  shows "grows t t''"
  unfolding grows_def
proof (intro conjI allI impI)
  show "ledger_ok t''" using assms(2) by (simp add: grows_def)
  fix k b assume "t k = Some b"
  with assms(1) obtain b' where b': "t' k = Some b'" "b' = b \<or> b_version b < b_version b'"
    unfolding grows_def by blast
  with assms(2) obtain b'' where "t'' k = Some b''" "b'' = b' \<or> b_version b' < b_version b''"
    unfolding grows_def by blast
  with b' show "\<exists>b''. t'' k = Some b'' \<and> (b'' = b \<or> b_version b < b_version b'')"
    by (intro exI [of _ b'']) auto
qed

lemma grows_ok: "grows t t' \<Longrightarrow> ledger_ok t'"
  by (simp add: grows_def)

lemma grows_upd: "ledger_ok t \<Longrightarrow> t k = Some b \<Longrightarrow> b_version b < b_version b' \<Longrightarrow> row_ok k b' \<Longrightarrow> grows t (t(k \<mapsto> b'))"
  by (auto simp: grows_def ledger_ok_upd)

lemma grows_new: "ledger_ok t \<Longrightarrow> t k = None \<Longrightarrow> row_ok k b' \<Longrightarrow> grows t (t(k \<mapsto> b'))"
  by (auto simp: grows_def ledger_ok_upd)

lemma preserves_growsI:
  "(\<And>t. ledger_ok t \<Longrightarrow> grows t (snd (m t))) \<Longrightarrow> preserves (grows t0) m"
  by (auto simp: preserves_def intro: grows_trans grows_ok)

definition polite :: "interference \<Rightarrow> bool" where
  "polite env \<longleftrightarrow> (\<forall>i t. ledger_ok t \<longrightarrow> grows t (env i t))"

lemma polite_tame: "polite env \<Longrightarrow> tame env"
  by (auto simp: polite_def tame_def grows_def)

lemma polite_quiet: "polite quiet"
  by (simp add: polite_def quiet_def grows_refl)

lemma preserves_grows_env: "polite env \<Longrightarrow> preserves (grows t0) (modP (env i))"
  by (rule preserves_growsI) (simp add: polite_def modP_def)

lemma grows_get_or_create: "preserves (grows t0) (get_or_create u a)"
  by (rule preserves_growsI)
    (auto simp: get_or_create_def get_by_user_asset_def prog_defs intro!: grows_refl grows_new row_ok_zero
      split: option.split)

lemma grows_update_where:
  assumes "preserves ledger_ok (update_where k cond upd)" and "\<And>b. b_version b < b_version (upd b)"
  shows "preserves (grows t0) (update_where k cond upd)"
proof (rule preserves_growsI)
  fix t assume t: "ledger_ok t"
  have "ledger_ok (snd (update_where k cond upd t))" using preservesD [of ledger_ok, OF assms(1) t] .
  then show "grows t (snd (update_where k cond upd t))"
    using assms(2) t by (auto simp: update_where_def grows_def split: option.split)
qed

lemma grows_optimistic:
  assumes "dec18 x" "0 < x"
  shows "preserves (grows t0) (optimistic_lock u a x v)"
    and "preserves (grows t0) (optimistic_unlock u a x v)"
    and "preserves (grows t0) (optimistic_settle u a x v)"
    and "preserves (grows t0) (optimistic_credit u a x v)"
  using preserves_optimistic [OF assms]
  unfolding optimistic_lock_def optimistic_unlock_def optimistic_settle_def optimistic_credit_def
  by (auto intro!: grows_update_where)

lemma grows_attempts:
  assumes "polite env" "dec18 x" "0 < x"
  shows "preserves (grows t0) (lock_attempts env i n u a x)"
    and "preserves (grows t0) (unlock_attempts env i n u a x)"
    and "preserves (grows t0) (settle_attempts env i n u a x)"
    and "preserves (grows t0) (credit_attempts env i n u a x)"
  by (induction n arbitrary: i)
    (auto intro!: preserves_intros preserves_grows_env grows_optimistic grows_get_or_create assms)

context balance_op
begin

lemma flush_grows:
  assumes "ledger_ok t" and "t k = Some b" and "dec18 x"
  shows "grows t (snd (flush_row (op b x) t))"
proof (cases "op b x")
  case (Inl e)
  then show ?thesis using assms by (simp add: flush_row_def raiseP_def grows_refl)
next
  case (Inr b')
  have rb: "row_ok k b" using ledger_okD [OF assms(1,2)] .
  have r: "row_ok k b'" using keeps_row [OF rb assms(3) Inr] .
  then have "store_balance b' t = t(k \<mapsto> b')"
    using row_ok_dec18_total [OF r] by (auto simp: store_balance_def row_ok_def)
  moreover have "b_version b < b_version b'" using op_result [OF _ Inr] rb by (simp add: row_ok_def)
  ultimately show ?thesis using Inr r assms by (simp add: flush_row_def modP_def grows_upd)
qed

end

lemma grows_row_step:
  assumes "\<And>t k b. ledger_ok t \<Longrightarrow> t k = Some b \<Longrightarrow> grows t (snd (f b x t))"
  shows "preserves (grows t0) (row_step f k x)"
  by (rule preserves_growsI)
    (auto simp: row_step_def bindP_def getP_def raiseP_def intro!: grows_refl assms split: option.split)

lemma grows_row_steps:
  assumes "dec18 x"
  shows "preserves (grows t0) (row_step lock_pessimistic k x)"
    and "preserves (grows t0) (row_step unlock_pessimistic k x)"
    and "preserves (grows t0) (row_step settle_pessimistic k x)"
    and "preserves (grows t0) (row_step credit_pessimistic k x)"
  unfolding lock_pessimistic_def unlock_pessimistic_def settle_pessimistic_def credit_pessimistic_def
  by (auto intro!: grows_row_step lock_op.flush_grows unlock_op.flush_grows
      settle_op.flush_grows credit_op.flush_grows assms)

lemma grows_admin_adjust:
  assumes "dec18 d"
  shows "preserves (grows t0) (admin_adjust u a d)"
proof (rule preserves_growsI)
  fix t assume t: "ledger_ok t"
  have ok: "ledger_ok (snd (admin_adjust u a d t))"
    using preservesD [of ledger_ok, OF preserves_admin_adjust [OF assms] t] .
  show "grows t (snd (admin_adjust u a d t))"
    unfolding grows_def
  proof (intro conjI ok allI impI)
    fix k b assume k: "t k = Some b"
    show "\<exists>b'. snd (admin_adjust u a d t) k = Some b' \<and> (b' = b \<or> b_version b < b_version b')"
    proof (cases "t (u, a)")
      case None
      then show ?thesis
        using k t by (auto simp: admin_adjust_new)
          (auto simp: admin_adjust_def get_for_update_def prog_defs Let_def check_invariant_def
            store_balance_def zero_balance_def)
    next
      case (Some c)
      have "row_ok (u, a) c" using ledger_okD [OF t Some] .
      then show ?thesis
        using k Some by (auto simp: admin_adjust_def get_for_update_def prog_defs Let_def check_invariant_def
            store_balance_def row_ok_def)
    qed
  qed
qed

lemma run_cmd_grows: "polite env \<Longrightarrow> dec18 (cmd_amount c) \<Longrightarrow> ledger_ok t \<Longrightarrow> grows t (run_cmd env c t)"
  by (cases c)
    (auto simp: lock_optimistic_def unlock_optimistic_def settle_optimistic_def credit_optimistic_def
      intro!: preserves_intros settle_trade_preserves preservesD [of "grows t"] grows_attempts grows_row_steps
      grows_admin_adjust grows_refl dest: grows_ok)

lemma polite_meanwhile:
  assumes "\<And>i. list_all (\<lambda>d. dec18 (cmd_amount d)) (others i)"
  shows "polite (meanwhile others)"
proof -
  have "list_all (\<lambda>d. dec18 (cmd_amount d)) cs \<Longrightarrow> ledger_ok t \<Longrightarrow> grows t (fold (run_cmd quiet) cs t)" for cs t
  proof (induction cs arbitrary: t)
    case Nil
    then show ?case by (simp add: grows_refl)
  next
    case (Cons c cs)
    then have "grows t (run_cmd quiet c t)" by (simp add: run_cmd_grows polite_quiet)
    moreover from this Cons have "grows (run_cmd quiet c t) (fold (run_cmd quiet) cs (run_cmd quiet c t))"
      by (simp add: grows_ok)
    ultimately show ?case by (auto intro: grows_trans)
  qed
  then show ?thesis using assms by (simp add: polite_def meanwhile_def)
qed

lemma update_where_result:
  "update_where k cond upd t = (Inr success, t') \<Longrightarrow>
    (if success then \<exists>b. t k = Some b \<and> cond b \<and> t' = t(k \<mapsto> upd b) else t' = t)"
  by (auto simp: update_where_def split: option.splits if_splits)

lemma read_or_create:
  assumes "ledger_ok t"
  obtains b t1 where "bindP (get_by_user_asset u a) (\<lambda>r. case r of None \<Rightarrow> get_or_create u a | Some b \<Rightarrow> retP b) t
      = (Inr b, t1)" and "grows t t1" and "t1 (u, a) = Some b"
proof (cases "t (u, a)")
  case None
  then show ?thesis
    using assms that [of "zero_balance u a" "t((u, a) \<mapsto> zero_balance u a)"]
    by (simp add: get_or_create_def get_by_user_asset_def prog_defs grows_new row_ok_zero)
next
  case (Some b)
  then show ?thesis
    using assms that [of b t] by (simp add: get_by_user_asset_def prog_defs grows_refl)
qed

lemma grows_same_version:
  "grows t t' \<Longrightarrow> t k = Some b \<Longrightarrow> t' k = Some b' \<Longrightarrow> b_version b' = b_version b \<Longrightarrow> b' = b"
  unfolding grows_def by (metis less_irrefl option.inject)

lemma lock_attempts_result:
  assumes "polite env" and "dec18 x" and "lock_attempts env i n u a x t = (Inr b, t')" and "ledger_ok t"
  shows "\<exists>s. grows t s \<and> s (u, a) = Some b \<and> x \<le> available_balance b \<and>
    t' = s((u, a) \<mapsto> b\<lparr>locked_balance := locked_balance b + x,
      available_balance := available_balance b - x, b_version := b_version b + 1\<rparr>)"
  using assms(3,4)
proof (induction n arbitrary: i t)
  case 0
  then show ?case by (simp add: raiseP_def)
next
  case (Suc n)
  obtain c t1 where read: "bindP (get_by_user_asset u a) (\<lambda>r. case r of None \<Rightarrow> get_or_create u a | Some b \<Rightarrow> retP b) t
      = (Inr c, t1)" and g1: "grows t t1" and c1: "t1 (u, a) = Some c"
    using read_or_create [OF Suc.prems(2), of u a] .
  let ?t2 = "env i t1"
  have g2: "grows t1 ?t2" using assms(1) grows_ok [OF g1] by (simp add: polite_def)
  have g: "grows t ?t2" using grows_trans [OF g1 g2] .
  obtain success t3 where upd: "optimistic_lock u a x (b_version c) ?t2 = (Inr success, t3)"
    by (cases "optimistic_lock u a x (b_version c) ?t2")
      (auto simp: optimistic_lock_def update_where_def split: option.splits if_splits)
  note res = update_where_result [OF upd [unfolded optimistic_lock_def]]
  have run: "(if success then (Inr c, t3) else lock_attempts env (Suc i) n u a x t3) = (Inr b, t')"
    using Suc.prems(1) upd
    by (simp add: bindP_def [of "bindP _ _"] read seqP_def raiseP_def split: if_splits)
      (cases success, simp_all add: bindP_def modP_def retP_def)
  show ?case
  proof (cases success)
    case True
    then obtain d where d: "?t2 (u, a) = Some d" "b_version d = b_version c" "x \<le> available_balance d"
      and t3: "t3 = ?t2((u, a) \<mapsto> d\<lparr>locked_balance := numeric18 (locked_balance d + x),
        available_balance := numeric18 (available_balance d - x), b_version := b_version d + 1\<rparr>)"
      using res by auto
    have "d = c" using grows_same_version [OF g2 c1 d(1,2)] .
    moreover have "dec18 (locked_balance d + x)" "dec18 (available_balance d - x)"
      using ledger_okD [OF grows_ok [OF g] d(1)] assms(2) by (auto simp: row_ok_def)
    ultimately show ?thesis using run True d t3 g by (intro exI [of _ ?t2]) (auto simp del: fun_upd_apply)
  next
    case False
    then have "t3 = ?t2" using res by simp
    with run False have "lock_attempts env (Suc i) n u a x ?t2 = (Inr b, t')" by simp
    from Suc.IH [OF this grows_ok [OF g]] g show ?thesis by (blast intro: grows_trans)
  qed
qed

text \<open>
  C4. No lost update: whatever other balance calls commit between the reads and the updates of
  \<open>lock_optimistic\<close>, when it returns a balance, that balance is the committed row its update
  was applied to, it covered the amount, and the update moved exactly the amount from available
  to locked and touched nothing else.
\<close>

theorem lock_no_lost_update:
  assumes "reachable_ledger t" and "dec18 x" and "\<And>i. list_all (\<lambda>d. dec18 (cmd_amount d)) (others i)"
    and "lock_optimistic (meanwhile others) u a x t = (Inr b, t')"
  shows "\<exists>s. grows t s \<and> s (u, a) = Some b \<and> x \<le> available_balance b \<and>
    t' = s((u, a) \<mapsto> b\<lparr>locked_balance := locked_balance b + x,
      available_balance := available_balance b - x, b_version := b_version b + 1\<rparr>)"
  using lock_attempts_result [OF polite_meanwhile [OF assms(3)] assms(2) _ reachable_ledger_ok [OF assms(1)]]
    assms(4) by (auto simp: lock_optimistic_def raiseP_def split: if_splits)

text \<open>The competing credit commits during the first attempt, so the second attempt succeeds.\<close>

theorem lock_no_lost_update_witness:
  "(let t = run_cmd (meanwhile (\<lambda>i. [])) (Adjust 1 ''USDT'' 10) Map.empty;
        others = (\<lambda>i. if i = 0 then [Credit 1 ''USDT'' 5] else []);
        r = lock_optimistic (meanwhile others) 1 ''USDT'' 4 t in
     \<exists>b s. fst r = Inr b \<and> grows t s \<and> s (1, ''USDT'') = Some b \<and>
       available_balance b = 15 \<and> snd r = s((1, ''USDT'') \<mapsto> b\<lparr>locked_balance := locked_balance b + 4,
         available_balance := available_balance b - 4, b_version := b_version b + 1\<rparr>))"
proof -
  let ?t = "run_cmd (meanwhile (\<lambda>i. [])) (Adjust 1 ''USDT'' 10) Map.empty"
  let ?others = "\<lambda>i::nat. if i = 0 then [Credit 1 ''USDT'' 5] else []"
  let ?r = "lock_optimistic (meanwhile ?others) 1 ''USDT'' 4 ?t"
  let ?b = "\<lparr>b_user_id = 1, b_asset = ''USDT'', total_balance = 15, locked_balance = 0,
     available_balance = 15, b_version = 3\<rparr>"
  have r1: "reachable_ledger ?t"
    by (intro reachable_ledger.intros) (auto simp: dec18_int [of 10, simplified])
  have f: "fst ?r = Inr ?b" by code_simp
  then have r: "?r = (Inr ?b, snd ?r)" by (metis prod.collapse)
  have "dec18 4" "\<And>i. list_all (\<lambda>d. dec18 (cmd_amount d)) (?others i)"
    by (auto simp: dec18_int [of 4, simplified] dec18_int [of 5, simplified])
  from lock_no_lost_update [OF r1 this r] f show ?thesis unfolding Let_def by auto
qed

subsection \<open>What each operation does when nobody interferes\<close>

text \<open>
  \<open>lock_optimistic\<close> alone on the table: a non-positive amount is refused, a missing balance
  is created with zeros and the lock refused, too small an available part is refused with the
  table unchanged, and otherwise the first attempt moves the amount.
\<close>

lemma lock_optimistic_quiet:
  "lock_optimistic quiet u a x t =
    (if x \<le> 0 then (Inl (ValueError ''lock amount must be positive''), t)
     else case t (u, a) of
       None \<Rightarrow> (Inl (InsufficientBalanceError u a x 0), t((u, a) \<mapsto> zero_balance u a))
     | Some b \<Rightarrow> if available_balance b < x then (Inl (InsufficientBalanceError u a x (available_balance b)), t)
         else (Inr b, t((u, a) \<mapsto> b\<lparr>locked_balance := numeric18 (locked_balance b + x),
           available_balance := numeric18 (available_balance b - x), b_version := b_version b + 1\<rparr>)))"
  by (auto simp: lock_optimistic_def MAX_OPTIMISTIC_RETRIES_def eval_nat_numeral get_by_user_asset_def
      get_or_create_def optimistic_lock_def update_where_def quiet_def zero_balance_def prog_defs
      split: option.split)

lemma unlock_optimistic_quiet:
  "0 < x \<Longrightarrow> t (u, a) = Some b \<Longrightarrow> unlock_optimistic quiet u a x t =
    (if locked_balance b < x then (Inl (BalanceVersionConflict u a 3), t)
     else (Inr b, t((u, a) \<mapsto> b\<lparr>locked_balance := numeric18 (locked_balance b - x),
       available_balance := numeric18 (available_balance b + x), b_version := b_version b + 1\<rparr>)))"
  by (auto simp: unlock_optimistic_def MAX_OPTIMISTIC_RETRIES_def eval_nat_numeral get_by_user_asset_def
      optimistic_unlock_def update_where_def quiet_def prog_defs)

lemma settle_optimistic_quiet:
  "0 < x \<Longrightarrow> t (u, a) = Some b \<Longrightarrow> settle_optimistic quiet u a x t =
    (if locked_balance b < x then (Inl (BalanceVersionConflict u a 3), t)
     else (Inr b, t((u, a) \<mapsto> b\<lparr>locked_balance := numeric18 (locked_balance b - x),
       total_balance := numeric18 (total_balance b - x), b_version := b_version b + 1\<rparr>)))"
  by (auto simp: settle_optimistic_def MAX_OPTIMISTIC_RETRIES_def eval_nat_numeral get_by_user_asset_def
      optimistic_settle_def update_where_def quiet_def prog_defs)

lemma credit_optimistic_quiet:
  "0 < x \<Longrightarrow> credit_optimistic quiet u a x t =
    (let b = (case t (u, a) of None \<Rightarrow> zero_balance u a | Some b \<Rightarrow> b) in
     (Inr b, t((u, a) \<mapsto> b\<lparr>total_balance := numeric18 (total_balance b + x),
       available_balance := numeric18 (available_balance b + x), b_version := b_version b + 1\<rparr>)))"
  by (auto simp: credit_optimistic_def MAX_OPTIMISTIC_RETRIES_def eval_nat_numeral get_by_user_asset_def
      get_or_create_def optimistic_credit_def update_where_def quiet_def prog_defs Let_def split: option.split)

subsection \<open>Optimistic and pessimistic operations agree\<close>

lemma flush_row_ok:
  "row_ok k b' \<Longrightarrow> flush_row (Inr b') t = (Inr (), t(k \<mapsto> b'))"
  by (simp add: flush_row_def modP_def store_row)

text \<open>What each held operation does on a row in order.\<close>

context balance_op
begin

lemma held_effect:
  assumes "ledger_ok t" and "t k = Some b" and "dec18 x"
  shows "snd (row_step (\<lambda>b x. flush_row (op b x)) k x t) =
    (if guard b x then t(k \<mapsto> b\<lparr>total_balance := numeric18 (total_balance b + (dl x + da x)),
      locked_balance := numeric18 (locked_balance b + dl x),
      available_balance := numeric18 (available_balance b + da x), b_version := b_version b + 1\<rparr>) else t)"
proof (cases "guard b x")
  case True
  have rb: "row_ok k b" and b: "balance_ok b"
    using ledger_okD [OF assms(1,2)] by (auto simp: row_ok_def)
  note eq = runs [OF b True]
  note r = keeps_row [OF rb assms(3) eq]
  have "dec18 (locked_balance b + dl x)" "dec18 (available_balance b + da x)"
    using r by (auto simp: row_ok_def)
  moreover have "dec18 (total_balance b + (dl x + da x))" using row_ok_dec18_total [OF r] by simp
  ultimately show ?thesis
    using True assms(2) eq r by (simp add: row_step_def prog_defs flush_row_ok)
next
  case False
  then obtain m where "op b x = Inl (ValueError m)" using stops by blast
  with False assms show ?thesis by (simp add: row_step_def prog_defs flush_row_def)
qed

end

lemmas held_effects =
  lock_op.held_effect [folded lock_pessimistic_def] unlock_op.held_effect [folded unlock_pessimistic_def]
  settle_op.held_effect [folded settle_pessimistic_def] credit_op.held_effect [folded credit_pessimistic_def]

text \<open>
  The two locking strategies are interchangeable: on an existing row of a ledger in order, each
  optimistic operation run alone leaves the same table as its pessimistic counterpart on the held
  row, on success and on refusal.
\<close>

theorem optimistic_eq_pessimistic:
  assumes "reachable_ledger t" and "t (u, a) = Some b" and "dec18 x" and "0 < x"
  shows "snd (lock_optimistic quiet u a x t) = snd (row_step lock_pessimistic (u, a) x t) \<and>
    snd (unlock_optimistic quiet u a x t) = snd (row_step unlock_pessimistic (u, a) x t) \<and>
    snd (settle_optimistic quiet u a x t) = snd (row_step settle_pessimistic (u, a) x t) \<and>
    snd (credit_optimistic quiet u a x t) = snd (row_step credit_pessimistic (u, a) x t)"
proof -
  have ok: "ledger_ok t" using reachable_ledger_ok [OF assms(1)] .
  have d: "dec18 (total_balance b)" "dec18 (locked_balance b)" "dec18 (available_balance b)"
    using ledger_okD [OF ok assms(2)] row_ok_dec18_total by (auto simp: row_ok_def)
  have "snd (lock_optimistic quiet u a x t) = snd (row_step lock_pessimistic (u, a) x t)"
    using assms d held_effects(1) [OF ok assms(2,3)] by (auto simp: lock_optimistic_def
        MAX_OPTIMISTIC_RETRIES_def eval_nat_numeral get_by_user_asset_def optimistic_lock_def
        update_where_def quiet_def prog_defs)
  moreover have "snd (unlock_optimistic quiet u a x t) = snd (row_step unlock_pessimistic (u, a) x t)"
    using assms d held_effects(2) [OF ok assms(2,3)] by (auto simp: unlock_optimistic_quiet)
  moreover have "snd (settle_optimistic quiet u a x t) = snd (row_step settle_pessimistic (u, a) x t)"
    using assms d held_effects(3) [OF ok assms(2,3)] by (auto simp: settle_optimistic_quiet)
  moreover have "snd (credit_optimistic quiet u a x t) = snd (row_step credit_pessimistic (u, a) x t)"
    using assms d held_effects(4) [OF ok assms(2,3)] by (auto simp: credit_optimistic_quiet)
  ultimately show ?thesis by blast
qed

theorem optimistic_eq_pessimistic_witness:
  "(let t = run_cmd (meanwhile (\<lambda>i. [])) (Adjust 1 ''USDT'' 10) Map.empty in
     t (1, ''USDT'') \<noteq> None \<and>
     snd (lock_optimistic quiet 1 ''USDT'' 4 t) = snd (row_step lock_pessimistic (1, ''USDT'') 4 t))"
proof -
  let ?t = "run_cmd (meanwhile (\<lambda>i. [])) (Adjust 1 ''USDT'' 10) Map.empty"
  have r: "reachable_ledger ?t"
    by (intro reachable_ledger.intros) (auto simp: dec18_int [of 10, simplified])
  have "?t (1, ''USDT'') \<noteq> None" by code_simp
  then obtain b where b: "?t (1, ''USDT'') = Some b" by auto
  show ?thesis
    using optimistic_eq_pessimistic [OF r b dec18_int [of 4, simplified]] b by (simp add: Let_def)
qed

subsection \<open>A trade settlement conserves every asset\<close>

lemma settle_trade_total:
  assumes ok: "ledger_ok t" and x: "dec18 x" and same: "snd taker = snd maker"
  shows "asset_total c (snd (settle_trade_pessimistic taker maker x t)) = asset_total c t"
proof (cases "t taker = None \<or> t maker = None")
  case True
  then show ?thesis by (simp add: settle_trade_missing)
next
  case False
  then obtain tb mb where rows: "t taker = Some tb" "t maker = Some mb" by auto
  have rt: "row_ok taker tb" using ledger_okD [OF ok rows(1)] .
  note steps = settle_trade_steps [OF ok x rows]
  show ?thesis
  proof (cases "repo_settle_pessimistic tb x")
    case (Inl e)
    then show ?thesis using rows by (simp add: steps row_step_def settle_pessimistic_def flush_row_def prog_defs)
  next
    case (Inr tb')
    have g: "0 \<le> x \<and> x \<le> locked_balance tb"
      using settle_op.op_result(2) [OF _ Inr] rt by (simp add: row_ok_def)
    let ?t1 = "t(taker \<mapsto> tb')"
    have rt': "row_ok taker tb'" using settle_op.keeps_row [OF rt x Inr] .
    have ok1: "ledger_ok ?t1" using ledger_ok_upd [OF ok rt'] .
    have t1: "flush_row (repo_settle_pessimistic tb x) t = (Inr (), ?t1)"
      using Inr rt' by (simp add: flush_row_ok)
    have tot1: "asset_total c ?t1 = asset_total c t + (if b_asset tb = c then - x else 0)"
      using settle_op.flush_total [OF ok rows(1) x g, of c] t1 by simp
    obtain mb1 where mb1: "?t1 maker = Some mb1" using rows by (cases "maker = taker") auto
    have run: "snd (settle_trade_pessimistic taker maker x t) = snd (flush_row (repo_credit_pessimistic mb1 x) ?t1)"
      using rows mb1 t1 by (simp add: steps row_step_def settle_pessimistic_def credit_pessimistic_def prog_defs)
    have "b_asset mb1 = b_asset tb"
      using ledger_okD [OF ok1 mb1] rt same by (auto simp: row_ok_def)
    then show ?thesis
      using run tot1 credit_op.flush_total [of ?t1, OF ok1 mb1 x, of c] g
      by (auto simp del: fun_upd_apply split: if_splits)
  qed
qed

text \<open>
  \<open>settle_trade_pessimistic\<close> between two balances of one asset, also of the same user, leaves
  the total holdings of every asset unchanged, whether it succeeds or raises.
\<close>

theorem settle_trade_conserves:
  assumes "reachable_ledger t" and "dec18 x"
  shows "asset_total c (snd (settle_trade_pessimistic (taker, a) (maker, a) x t)) = asset_total c t"
  using settle_trade_total [OF reachable_ledger_ok [OF assms(1)] assms(2), of "(taker, a)" "(maker, a)"] by simp

theorem settle_trade_conserves_witness:
  "(let t = run_cmd (meanwhile (\<lambda>i. [])) (Adjust 2 ''USDT'' 1)
        (run_cmd (meanwhile (\<lambda>i. [])) (Lock 1 ''USDT'' 4)
          (run_cmd (meanwhile (\<lambda>i. [])) (Adjust 1 ''USDT'' 10) Map.empty)) in
     reachable_ledger t \<and> fst (settle_trade_pessimistic (1, ''USDT'') (2, ''USDT'') 3 t) = Inr () \<and>
     asset_total ''USDT'' (snd (settle_trade_pessimistic (1, ''USDT'') (2, ''USDT'') 3 t)) =
       asset_total ''USDT'' t)"
proof -
  let ?t = "run_cmd (meanwhile (\<lambda>i. [])) (Adjust 2 ''USDT'' 1)
        (run_cmd (meanwhile (\<lambda>i. [])) (Lock 1 ''USDT'' 4)
          (run_cmd (meanwhile (\<lambda>i. [])) (Adjust 1 ''USDT'' 10) Map.empty))"
  have r: "reachable_ledger ?t"
    by (intro reachable_ledger.intros)
      (auto simp: dec18_int [of 10, simplified] dec18_int [of 4, simplified] dec18_int [of 1, simplified])
  have "fst (settle_trade_pessimistic (1, ''USDT'') (2, ''USDT'') 3 ?t) = Inr ()" by code_simp
  then show ?thesis
    using settle_trade_conserves [OF r dec18_int [of 3, simplified]] r by (simp add: Let_def)
qed


end
