(* ===== verification/Orders_Index.thy ===== *)
theory Orders_Index
  imports Orderbook
begin

section \<open>The open-orders indexes\<close>

text \<open>
  \<open>redis_client/orders_index.py\<close>: three families of sets that index the open orders by user, by
  user and symbol, and by symbol. The theorems show that they are the projections of one relation.
  The \<open>SCAN\<close> of \<open>clear_user_indexes\<close>, the keys that match a pattern, is a parameter of that operation.
\<close>

subsection \<open>Keys\<close>

definition user_open_orders_key :: "int \<Rightarrow> string" where
  "user_open_orders_key user_id = ''user:'' @ str_int user_id @ '':open_orders''"

definition user_open_orders_by_symbol_key :: "int \<Rightarrow> string \<Rightarrow> string" where
  "user_open_orders_by_symbol_key user_id symbol = ''user:'' @ str_int user_id @ '':open_orders:'' @ symbol"

definition symbol_open_orders_key :: "string \<Rightarrow> string" where
  "symbol_open_orders_key symbol = ''symbol:'' @ symbol @ '':open_orders''"

subsection \<open>Operations\<close>

definition add_open_order :: "'s redis_ops \<Rightarrow> int \<Rightarrow> string \<Rightarrow> int \<Rightarrow> ('s, exn, unit) prog" where
  "add_open_order R user_id symbol order_id =
     seqP (modP (r_sadd R (user_open_orders_key user_id) (str_int order_id)))
    (seqP (modP (r_sadd R (user_open_orders_by_symbol_key user_id symbol) (str_int order_id)))
     (modP (r_sadd R (symbol_open_orders_key symbol) (str_int order_id))))"

definition remove_open_order :: "'s redis_ops \<Rightarrow> int \<Rightarrow> string \<Rightarrow> int \<Rightarrow> ('s, exn, unit) prog" where
  "remove_open_order R user_id symbol order_id =
     seqP (modP (r_srem R (user_open_orders_key user_id) (str_int order_id)))
    (seqP (modP (r_srem R (user_open_orders_by_symbol_key user_id symbol) (str_int order_id)))
     (modP (r_srem R (symbol_open_orders_key symbol) (str_int order_id))))"

definition sorted_ids :: "'s redis_ops \<Rightarrow> string \<Rightarrow> ('s, exn, int list) prog" where
  "sorted_ids R key = bindP (getP (r_smembers R key)) (\<lambda>members.
     bindP (liftP (map_result int_str members)) (\<lambda>ids. retP (sort ids)))"

definition get_user_open_orders :: "'s redis_ops \<Rightarrow> int \<Rightarrow> ('s, exn, int list) prog" where
  "get_user_open_orders R user_id = sorted_ids R (user_open_orders_key user_id)"

definition get_user_open_orders_for_symbol :: "'s redis_ops \<Rightarrow> int \<Rightarrow> string \<Rightarrow> ('s, exn, int list) prog" where
  "get_user_open_orders_for_symbol R user_id symbol = sorted_ids R (user_open_orders_by_symbol_key user_id symbol)"

definition get_symbol_open_orders :: "'s redis_ops \<Rightarrow> string \<Rightarrow> ('s, exn, int list) prog" where
  "get_symbol_open_orders R symbol = sorted_ids R (symbol_open_orders_key symbol)"

definition count_user_open_orders :: "'s redis_ops \<Rightarrow> int \<Rightarrow> ('s, exn, int) prog" where
  "count_user_open_orders R user_id = getP (r_scard R (user_open_orders_key user_id))"

definition count_symbol_open_orders :: "'s redis_ops \<Rightarrow> string \<Rightarrow> ('s, exn, int) prog" where
  "count_symbol_open_orders R symbol = getP (r_scard R (symbol_open_orders_key symbol))"

definition is_order_open :: "'s redis_ops \<Rightarrow> int \<Rightarrow> int \<Rightarrow> ('s, exn, bool) prog" where
  "is_order_open R user_id order_id = getP (r_sismember R (user_open_orders_key user_id) (str_int order_id))"

definition cancel_all_user_orders :: "'s redis_ops \<Rightarrow> int \<Rightarrow> string option \<Rightarrow> ('s, exn, int list) prog" where
  "cancel_all_user_orders R user_id symbol_opt = (case symbol_opt of
     None \<Rightarrow>
       bindP (getP (r_smembers R (user_open_orders_key user_id))) (\<lambda>members.
       bindP (liftP (map_result int_str members)) (\<lambda>order_ids.
       seqP (cmdP (r_del R (user_open_orders_key user_id)))
      (bindP (getP (\<lambda>s. map (\<lambda>oid. r_hget R (order_hash_key oid) ''symbol'' s) order_ids)) (\<lambda>symbols.
       seqP (forP (zip order_ids symbols) (\<lambda>(oid, sym). if h_truthy sym
           then seqP (modP (r_srem R (user_open_orders_by_symbol_key user_id (h_text sym)) (str_int oid)))
             (modP (r_srem R (symbol_open_orders_key (h_text sym)) (str_int oid)))
           else retP ()))
        (retP (sort order_ids))))))
   | Some symbol \<Rightarrow>
       bindP (getP (r_smembers R (user_open_orders_by_symbol_key user_id symbol))) (\<lambda>members.
       bindP (liftP (map_result int_str members)) (\<lambda>order_ids.
       seqP (cmdP (r_del R (user_open_orders_by_symbol_key user_id symbol)))
      (seqP (forP order_ids (\<lambda>oid.
         seqP (modP (r_srem R (user_open_orders_key user_id) (str_int oid)))
           (modP (r_srem R (symbol_open_orders_key symbol) (str_int oid)))))
        (retP (sort order_ids))))))"

definition clear_symbol_indexes :: "'s redis_ops \<Rightarrow> string \<Rightarrow> ('s, exn, int) prog" where
  "clear_symbol_indexes R symbol = cmdP (r_del R (symbol_open_orders_key symbol))"

text \<open>Deleting keys one by one; the number of deletions that found something.\<close>

fun delete_keys :: "'s redis_ops \<Rightarrow> string list \<Rightarrow> ('s, exn, int) prog" where
  "delete_keys R [] = retP 0"
| "delete_keys R (k # ks) = bindP (cmdP (r_del R k)) (\<lambda>r. bindP (delete_keys R ks) (\<lambda>n. retP ((if r \<noteq> 0 then 1 else 0) + n)))"

definition clear_user_indexes :: "'s redis_ops \<Rightarrow> (string \<Rightarrow> 's \<Rightarrow> string list) \<Rightarrow> int \<Rightarrow> ('s, exn, int) prog" where
  "clear_user_indexes R scan_iter user_id =
     bindP (getP (scan_iter (user_open_orders_by_symbol_key user_id ''*''))) (\<lambda>keys.
     delete_keys R (user_open_orders_key user_id # keys))"

subsection \<open>The indexes are projections of one relation\<close>

text \<open>The open orders as (user, symbol, order) triples.\<close>

definition indexed :: "(int \<times> string \<times> int) set \<Rightarrow> redis_state \<Rightarrow> bool" where
  "indexed rel v \<longleftrightarrow>
     (\<forall>u. rsets v (user_open_orders_key u) = str_int ` {i. \<exists>sy. (u, sy, i) \<in> rel}) \<and>
     (\<forall>u sy. rsets v (user_open_orders_by_symbol_key u sy) = str_int ` {i. (u, sy, i) \<in> rel}) \<and>
     (\<forall>sy. rsets v (symbol_open_orders_key sy) = str_int ` {i. \<exists>u. (u, sy, i) \<in> rel})"

text \<open>An order belongs to one user and one symbol.\<close>

definition one_owner :: "(int \<times> string \<times> int) set \<Rightarrow> bool" where
  "one_owner rel \<longleftrightarrow> (\<forall>u sy u' sy' i. (u, sy, i) \<in> rel \<and> (u', sy', i) \<in> rel \<longrightarrow> u = u' \<and> sy = sy')"

lemma colon_not_digit: "CHR '':'' \<notin> set (digits n)"
proof (induction n rule: less_induct)
  case (less n)
  have no: "CHR '':'' \<noteq> char_of (48 + d)" if "d < 10" for d :: nat
  proof
    assume "CHR '':'' = char_of (48 + d)"
    then have "(of_char (CHR '':'') :: nat) = of_char (char_of (48 + d) :: char)" by simp
    then show False using that by (simp add: of_char_of)
  qed
  show ?case
  proof (cases "n < 10")
    case True
    then show ?thesis using no [of n] by (simp add: digits.simps [of n])
  next
    case False
    then show ?thesis using no [of "n mod 10"] less [of "n div 10"] by (simp add: digits.simps [of n])
  qed
qed

lemma colon_not_int: "CHR '':'' \<notin> set (str_int i)"
  by (simp add: str_int_def colon_not_digit)

lemma colon_split:
  "CHR '':'' \<notin> set a \<Longrightarrow> CHR '':'' \<notin> set b \<Longrightarrow> a @ CHR '':'' # x = b @ CHR '':'' # y \<longleftrightarrow> a = b \<and> x = y"
proof (induction a arbitrary: b)
  case Nil
  then show ?case by (cases b) auto
next
  case (Cons c a)
  then show ?case by (cases b) auto
qed

lemma index_keys [simp]:
  "user_open_orders_key u = user_open_orders_key u' \<longleftrightarrow> u = u'"
  "user_open_orders_by_symbol_key u sy = user_open_orders_by_symbol_key u' sy' \<longleftrightarrow> u = u' \<and> sy = sy'"
  "symbol_open_orders_key sy = symbol_open_orders_key sy' \<longleftrightarrow> sy = sy'"
  "user_open_orders_key u \<noteq> user_open_orders_by_symbol_key u' sy" "user_open_orders_by_symbol_key u' sy \<noteq> user_open_orders_key u"
  "user_open_orders_key u \<noteq> symbol_open_orders_key sy" "symbol_open_orders_key sy \<noteq> user_open_orders_key u"
  "user_open_orders_by_symbol_key u sy' \<noteq> symbol_open_orders_key sy" "symbol_open_orders_key sy \<noteq> user_open_orders_by_symbol_key u sy'"
  using colon_split [OF colon_not_int [of u] colon_not_int [of u']] colon_split [OF colon_not_int [of u'] colon_not_int [of u]]
  by (auto simp: user_open_orders_key_def user_open_orders_by_symbol_key_def symbol_open_orders_key_def)

lemma user_key_disjoint: "user_open_orders_key u \<noteq> order_hash_key i" "symbol_open_orders_key sy \<noteq> order_hash_key i"
  "user_open_orders_by_symbol_key u sy \<noteq> order_hash_key i"
  by (simp_all add: user_open_orders_key_def symbol_open_orders_key_def user_open_orders_by_symbol_key_def order_hash_key_def)

context redis_server
begin

lemma add_open_order_view:
  "\<exists>s'. add_open_order R u sy i s = (Inr (), s') \<and> view s' = (view s)\<lparr>rsets := (rsets (view s))
     (user_open_orders_key u := insert (str_int i) (rsets (view s) (user_open_orders_key u)),
      user_open_orders_by_symbol_key u sy := insert (str_int i) (rsets (view s) (user_open_orders_by_symbol_key u sy)),
      symbol_open_orders_key sy := insert (str_int i) (rsets (view s) (symbol_open_orders_key sy)))\<rparr>"
  by (simp add: add_open_order_def prog_defs sadd)

lemma remove_open_order_view:
  "\<exists>s'. remove_open_order R u sy i s = (Inr (), s') \<and> view s' = (view s)\<lparr>rsets := (rsets (view s))
     (user_open_orders_key u := rsets (view s) (user_open_orders_key u) - {str_int i},
      user_open_orders_by_symbol_key u sy := rsets (view s) (user_open_orders_by_symbol_key u sy) - {str_int i},
      symbol_open_orders_key sy := rsets (view s) (symbol_open_orders_key sy) - {str_int i})\<rparr>"
  by (simp add: remove_open_order_def prog_defs srem)

lemma sorted_ids_result:
  assumes "rsets (view s) key = str_int ` ids"
  shows "\<exists>xs. sorted_ids R key s = (Inr xs, s) \<and> set xs = ids \<and> sorted xs \<and> distinct xs"
proof -
  let ?ms = "r_smembers R key s"
  have "\<forall>m\<in>set ?ms. \<exists>i. m = str_int i" using smembers(1) [of key s] assms by auto
  then obtain f where f: "\<forall>m\<in>set ?ms. m = str_int (f m)" by metis
  have "int_str m = Inr (f m)" if "m \<in> set ?ms" for m using f that by (metis int_str_str_int)
  then have m: "map_result int_str ?ms = Inr (map f ?ms)"
    by (simp add: map_result_Inr list_all2_conv_all_nth)
  have "str_int ` f ` set ?ms = set ?ms" using f by (force simp: image_image)
  then have "str_int ` f ` set ?ms = str_int ` ids" using smembers(1) [of key s] assms by simp
  then have "f ` set ?ms = ids" by (simp add: inj_image_eq_iff inj_def)
  moreover have "inj_on f (set ?ms)" using f by (metis inj_onI)
  ultimately show ?thesis
    using m smembers(2) [of key s] by (auto simp: sorted_ids_def prog_defs liftP_def distinct_map)
qed

end

lemma indexed_add:
  assumes "indexed rel v"
  shows "indexed (insert (u, sy, i) rel) (v\<lparr>rsets := (rsets v)
     (user_open_orders_key u := insert (str_int i) (rsets v (user_open_orders_key u)),
      user_open_orders_by_symbol_key u sy := insert (str_int i) (rsets v (user_open_orders_by_symbol_key u sy)),
      symbol_open_orders_key sy := insert (str_int i) (rsets v (symbol_open_orders_key sy)))\<rparr>)"
proof -
  have "{j. \<exists>y. (u', y, j) \<in> insert (u, sy, i) rel} =
      (if u' = u then insert i {j. \<exists>y. (u', y, j) \<in> rel} else {j. \<exists>y. (u', y, j) \<in> rel})"
    "{j. (u', y, j) \<in> insert (u, sy, i) rel} =
      (if u' = u \<and> y = sy then insert i {j. (u', y, j) \<in> rel} else {j. (u', y, j) \<in> rel})"
    "{j. \<exists>u'. (u', y, j) \<in> insert (u, sy, i) rel} =
      (if y = sy then insert i {j. \<exists>u'. (u', y, j) \<in> rel} else {j. \<exists>u'. (u', y, j) \<in> rel})" for u' y
    by auto
  then show ?thesis using assms unfolding indexed_def by simp
qed

lemma image_remove: "str_int ` (a - {i}) = str_int ` a - {str_int i}"
  by auto

lemma indexed_remove:
  assumes "indexed rel v" and "one_owner (insert (u, sy, i) rel)"
  shows "indexed (rel - {(u, sy, i)}) (v\<lparr>rsets := (rsets v)
     (user_open_orders_key u := rsets v (user_open_orders_key u) - {str_int i},
      user_open_orders_by_symbol_key u sy := rsets v (user_open_orders_by_symbol_key u sy) - {str_int i},
      symbol_open_orders_key sy := rsets v (symbol_open_orders_key sy) - {str_int i})\<rparr>)"
proof -
  have o: "\<And>u' sy'. (u', sy', i) \<in> rel \<Longrightarrow> u' = u \<and> sy' = sy" using assms(2) unfolding one_owner_def by blast
  have "{j. \<exists>y. (u', y, j) \<in> rel - {(u, sy, i)}} =
      (if u' = u then {j. \<exists>y. (u', y, j) \<in> rel} - {i} else {j. \<exists>y. (u', y, j) \<in> rel})"
    "{j. (u', y, j) \<in> rel - {(u, sy, i)}} =
      (if u' = u \<and> y = sy then {j. (u', y, j) \<in> rel} - {i} else {j. (u', y, j) \<in> rel})"
    "{j. \<exists>u'. (u', y, j) \<in> rel - {(u, sy, i)}} =
      (if y = sy then {j. \<exists>u'. (u', y, j) \<in> rel} - {i} else {j. \<exists>u'. (u', y, j) \<in> rel})" for u' y
    using o by auto
  then show ?thesis using assms(1) unfolding indexed_def by (simp add: image_remove)
qed



subsection \<open>Clearing the indexes of a user\<close>

lemma delete_keys_view:
  assumes "redis_server R view"
  shows "\<exists>n s1. delete_keys R ks s = (Inr n, s1) \<and> (\<forall>k. rsets (view s1) k = (if k \<in> set ks then {} else rsets (view s) k))"
proof (induction ks arbitrary: s)
  case Nil
  then show ?case by (simp add: retP_def)
next
  case (Cons k ks)
  let ?s = "snd (r_del R k s)"
  obtain n s1 where "delete_keys R ks ?s = (Inr n, s1)" "\<forall>j. rsets (view s1) j = (if j \<in> set ks then {} else rsets (view ?s) j)"
    using Cons by blast
  moreover have "rsets (view ?s) j = (if j = k then {} else rsets (view s) j)" for j
    by (simp add: redis_server.del [OF assms] forget_def)
  ultimately show ?case by (auto simp: cmdP_def bindP_def retP_def case_prod_beta)
qed

text \<open>
  Clearing the indexes of a user empties both families of sets of the user and no other set, so that the orders of the
  user stay in the indexes of their symbols.
\<close>

theorem clear_user_indexes_clears:
  assumes "redis_server R view" and "set (scan_iter (user_open_orders_by_symbol_key u ''*'') s) \<subseteq> range (user_open_orders_by_symbol_key u)"
    and "\<And>sy. rsets (view s) (user_open_orders_by_symbol_key u sy) \<noteq> {} \<Longrightarrow>
      user_open_orders_by_symbol_key u sy \<in> set (scan_iter (user_open_orders_by_symbol_key u ''*'') s)"
  shows "\<exists>n s1. clear_user_indexes R scan_iter u s = (Inr n, s1) \<and> (\<forall>v sy.
    rsets (view s1) (user_open_orders_key v) = (if v = u then {} else rsets (view s) (user_open_orders_key v)) \<and>
    rsets (view s1) (user_open_orders_by_symbol_key v sy) = (if v = u then {} else rsets (view s) (user_open_orders_by_symbol_key v sy)) \<and>
    rsets (view s1) (symbol_open_orders_key sy) = rsets (view s) (symbol_open_orders_key sy))"
proof -
  let ?keys = "scan_iter (user_open_orders_by_symbol_key u ''*'') s"
  obtain n s1 where run: "delete_keys R (user_open_orders_key u # ?keys) s = (Inr n, s1)"
    and keys: "\<forall>k. rsets (view s1) k = (if k \<in> set (user_open_orders_key u # ?keys) then {} else rsets (view s) k)"
    using delete_keys_view [OF assms(1)] by blast
  have in_keys: "user_open_orders_key v \<notin> set ?keys" "symbol_open_orders_key sy \<notin> set ?keys"
    "user_open_orders_by_symbol_key v sy \<in> set ?keys \<Longrightarrow> v = u" for v sy
    using assms(2) by auto
  have "clear_user_indexes R scan_iter u s = (Inr n, s1)" using run by (simp add: clear_user_indexes_def bindP_def getP_def)
  moreover have "rsets (view s1) (user_open_orders_by_symbol_key u sy) = {}" for sy using keys assms(3) [of sy] by auto
  moreover have "rsets (view s1) (user_open_orders_by_symbol_key v sy) = rsets (view s) (user_open_orders_by_symbol_key v sy)" if "v \<noteq> u" for v sy
    using keys in_keys(3) [of v sy] that by auto
  ultimately show ?thesis using keys in_keys(1,2) by (intro exI [of _ n] exI [of _ s1]) auto
qed

end
