(* ===== verification/Queues.thy ===== *)
theory Queues
  imports Orderbook
begin

section \<open>The order-action queue\<close>

text \<open>
  \<open>redis_client/queues.py\<close>: producers push on the left, the consumer pops on the right. A blocking pop
  that times out is a pop of an empty list.
\<close>

definition ORDERS_QUEUE :: string where "ORDERS_QUEUE = ''queue:orders''"
definition TRADES_QUEUE :: string where "TRADES_QUEUE = ''queue:trades''"
definition DEADLETTER_QUEUE :: string where "DEADLETTER_QUEUE = ''queue:events.deadletter''"

text \<open>
  \<open>build_order_action_payload\<close>, every keyword argument explicit: the visible and hidden quantities
  are written only for an iceberg, a missing quantity is zero.
\<close>

definition build_order_action_payload :: "string \<Rightarrow> int \<Rightarrow> string \<Rightarrow> int \<Rightarrow> string \<Rightarrow> string \<Rightarrow> rat option \<Rightarrow> rat option \<Rightarrow>
    rat option \<Rightarrow> bool \<Rightarrow> rat option \<Rightarrow> rat option \<Rightarrow> int option \<Rightarrow> int option \<Rightarrow> string option \<Rightarrow> order_action" where
  "build_order_action_payload action order_id symbol user_id side tp price stop_price quantity is_ice visible_qty
     hidden_qty parent_order_id replaces_id bulk_id =
     \<lparr>a_action = action, a_order_id = order_id, a_symbol = symbol, a_user_id = user_id, a_side = side, a_type = tp,
      a_price = price, a_stop_price = stop_price,
      a_quantity = (case quantity of None \<Rightarrow> 0 | Some q \<Rightarrow> q),
      a_is_iceberg = is_ice, a_visible_qty = (if is_ice then visible_qty else None),
      a_hidden_qty = (if is_ice then hidden_qty else None),
      a_parent_order_id = parent_order_id, a_replaces_id = replaces_id, a_bulk_id = bulk_id\<rparr>"

definition enqueue_order_action :: "'s redis_ops \<Rightarrow> order_action \<Rightarrow> ('s, exn, unit) prog" where
  "enqueue_order_action R payload = modP (r_lpush R ORDERS_QUEUE (Action payload))"

definition enqueue_trade_batch :: "'s redis_ops \<Rightarrow> (int \<times> int \<times> rat \<times> rat) list \<Rightarrow> ('s, exn, unit) prog" where
  "enqueue_trade_batch R trades =
     (if trades = [] then retP () else modP (r_lpush R TRADES_QUEUE (TradeBatch trades)))"

definition enqueue_deadletter :: "'s redis_ops \<Rightarrow> queue_item \<Rightarrow> exn \<Rightarrow> string \<Rightarrow> ('s, exn, unit) prog" where
  "enqueue_deadletter R original err queue_name = modP (r_lpush R DEADLETTER_QUEUE (DeadLetter queue_name original err))"

definition brpop_order_action :: "'s redis_ops \<Rightarrow> ('s, exn, queue_item option) prog" where
  "brpop_order_action R = cmdP (r_rpop R ORDERS_QUEUE)"

definition brpop_trade_batch :: "'s redis_ops \<Rightarrow> ('s, exn, queue_item option) prog" where
  "brpop_trade_batch R = cmdP (r_rpop R TRADES_QUEUE)"

definition queue_length :: "'s redis_ops \<Rightarrow> string \<Rightarrow> ('s, exn, int) prog" where
  "queue_length R queue = getP (r_llen R queue)"

definition peek_queue :: "'s redis_ops \<Rightarrow> string \<Rightarrow> int \<Rightarrow> ('s, exn, queue_item list) prog" where
  "peek_queue R queue n = getP (r_lrange R queue 0 (n - 1))"

definition clear_queue :: "'s redis_ops \<Rightarrow> string \<Rightarrow> ('s, exn, int) prog" where
  "clear_queue R queue = bindP (cmdP (r_del R queue)) (\<lambda>deleted.
     if deleted \<noteq> 0 then getP (r_llen R queue) else retP 0)"

subsection \<open>First in, first out\<close>

fun drain :: "'s redis_ops \<Rightarrow> nat \<Rightarrow> ('s, exn, queue_item list) prog" where
  "drain R 0 = retP []"
| "drain R (Suc n) = bindP (brpop_order_action R) (\<lambda>r. case r of
     None \<Rightarrow> retP [] | Some x \<Rightarrow> bindP (drain R n) (\<lambda>xs. retP (x # xs)))"

context redis_server
begin

lemma enqueue_all:
  "\<exists>s1. forP ps (enqueue_order_action R) s = (Inr (), s1) \<and>
    lists (view s1) ORDERS_QUEUE = rev (map Action ps) @ lists (view s) ORDERS_QUEUE"
proof (induction ps arbitrary: s)
  case Nil
  show ?case by (simp add: retP_def)
next
  case (Cons p ps)
  show ?case using Cons.IH [of "r_lpush R ORDERS_QUEUE (Action p) s"]
    by (auto simp: enqueue_order_action_def prog_defs lpush)
qed

lemma drain_all:
  "lists (view s) ORDERS_QUEUE = rev (map Action ps) \<Longrightarrow>
    \<exists>s1. drain R (length ps) s = (Inr (map Action ps), s1) \<and> lists (view s1) ORDERS_QUEUE = []"
proof (induction ps arbitrary: s)
  case Nil
  then show ?case by (simp add: retP_def)
next
  case (Cons p ps)
  let ?s = "snd (r_rpop R ORDERS_QUEUE s)"
  have "fst (r_rpop R ORDERS_QUEUE s) = Some (Action p)" using Cons.prems by (simp add: rpop_item)
  moreover have "lists (view ?s) ORDERS_QUEUE = rev (map Action ps)" using Cons.prems by (simp add: rpop)
  ultimately show ?case
    using Cons.IH [of ?s] by (auto simp: brpop_order_action_def prog_defs cmdP_def split: prod.splits)
qed

lemma clear_queue_zero: "fst (clear_queue R queue s) = Inr 0"
proof -
  have "lists (view (snd (r_del R queue s))) queue = []" by (simp add: del forget_def)
  then show ?thesis by (auto simp: clear_queue_def prog_defs cmdP_def llen split: prod.splits)
qed

end

text \<open>
  The queue is first in, first out: actions enqueued on an empty queue are popped in the order in which they were
  enqueued, all of them, and the queue is then empty.
\<close>

theorem queue_fifo:
  assumes "redis_server R view" and "lists (view s) ORDERS_QUEUE = []"
  shows "\<exists>s1 s2. forP ps (enqueue_order_action R) s = (Inr (), s1) \<and>
    drain R (length ps) s1 = (Inr (map Action ps), s2) \<and> lists (view s2) ORDERS_QUEUE = []"
  using redis_server.enqueue_all [OF assms(1), of ps s] redis_server.drain_all [OF assms(1), of _ ps] assms(2) by fastforce

theorem queue_fifo_witness:
  "(let a = build_order_action_payload ''place'' 1 ''X'' 5 ''buy'' ''market'' None None (Some 2) False None None None None None;
        b = build_order_action_payload ''cancel'' 2 ''X'' 5 ''buy'' ''limit'' None None None False None None None None None in
     \<exists>s1 s2. forP [a, b] (enqueue_order_action mem_redis) empty_redis = (Inr (), s1) \<and>
       drain mem_redis 2 s1 = (Inr [Action a, Action b], s2))"
  using queue_fifo [OF mem.redis_server_axioms, of empty_redis
    "[build_order_action_payload ''place'' 1 ''X'' 5 ''buy'' ''market'' None None (Some 2) False None None None None None,
      build_order_action_payload ''cancel'' 2 ''X'' 5 ''buy'' ''limit'' None None None False None None None None None]"]
  by (auto simp: mem_view_def empty_redis_def Let_def numeral_2_eq_2)

text \<open>
  \<open>clear_queue\<close> always returns zero, whatever the queue held: the length is asked after the deletion.
\<close>

theorem clear_queue_returns_zero:
  assumes "redis_server R view"
  shows "fst (clear_queue R queue s) = Inr 0"
  by (rule redis_server.clear_queue_zero [OF assms])

theorem clear_queue_returns_zero_witness:
  "fst (clear_queue mem_redis ORDERS_QUEUE (snd (enqueue_order_action mem_redis
     (build_order_action_payload ''cancel'' 2 ''X'' 5 ''buy'' ''limit'' None None None False None None None None None)
     empty_redis))) = Inr 0"
  by (rule clear_queue_returns_zero [OF mem.redis_server_axioms])

end
