(* ===== verification/Stops.thy ===== *)
theory Stops
  imports Orderbook
begin

section \<open>Stop and trailing-stop queues\<close>

text \<open>
  \<open>redis_client/stops.py\<close>: stop orders are sorted-set entries scored by their trigger price times
  \<open>SCORE_MULTIPLIER\<close>; a trailing stop also keeps its extreme and trigger in a hash.
\<close>

subsection \<open>Plain stops\<close>

definition stops_key :: "string \<Rightarrow> string" where
  "stops_key symbol = ''stops:'' @ symbol"

definition trailing_key :: "string \<Rightarrow> string" where
  "trailing_key symbol = ''trailing:'' @ symbol"

definition trailing_state_key :: "int \<Rightarrow> string" where
  "trailing_state_key order_id = ''trailing_state:'' @ str_int order_id"

text \<open>\<open>float(price) * SCORE_MULTIPLIER\<close>\<close>

definition stop_score :: "rat \<Rightarrow> rat" where
  "stop_score price = dmul (rnd price) (of_int SCORE_MULTIPLIER)"

definition add_stop_order :: "'s redis_ops \<Rightarrow> int \<Rightarrow> string \<Rightarrow> rat \<Rightarrow> ('s, exn, unit) prog" where
  "add_stop_order R order_id symbol stop_price =
     modP (r_zadd R (stops_key symbol) (str_int order_id) (stop_score stop_price))"

definition remove_stop_order :: "'s redis_ops \<Rightarrow> int \<Rightarrow> string \<Rightarrow> ('s, exn, bool) prog" where
  "remove_stop_order R order_id symbol =
     bindP (cmdP (r_zrem R (stops_key symbol) (str_int order_id))) (\<lambda>removed. retP (0 < removed))"

definition get_triggered_sell_stops :: "'s redis_ops \<Rightarrow> string \<Rightarrow> rat \<Rightarrow> ('s, exn, int list) prog" where
  "get_triggered_sell_stops R symbol last_trade_price =
     bindP (getP (r_zrangebyscore R (stops_key symbol) (stop_score last_trade_price) None)) (\<lambda>members.
     liftP (map_result int_str members))"

definition get_triggered_buy_stops :: "'s redis_ops \<Rightarrow> string \<Rightarrow> rat \<Rightarrow> ('s, exn, int list) prog" where
  "get_triggered_buy_stops R symbol last_trade_price =
     bindP (getP (r_zrangebyscore R (stops_key symbol) 0 (Some (stop_score last_trade_price)))) (\<lambda>members.
     liftP (map_result int_str members))"

text \<open>The deduplicating loop over the members of both ranges.\<close>

fun dedup_ids :: "int list \<Rightarrow> string list \<Rightarrow> (exn, int list) result" where
  "dedup_ids seen [] = Inr []"
| "dedup_ids seen (m # ms) = bind_result (int_str m) (\<lambda>oid.
     if oid \<in> set seen then dedup_ids seen ms
     else bind_result (dedup_ids (oid # seen) ms) (\<lambda>rest. Inr (oid # rest)))"

definition both_ranges :: "'s redis_ops \<Rightarrow> string \<Rightarrow> rat \<Rightarrow> ('s, exn, int list) prog" where
  "both_ranges R key price_score =
     bindP (getP (r_zrangebyscore R key 0 (Some price_score))) (\<lambda>below.
     bindP (getP (r_zrangebyscore R key price_score None)) (\<lambda>above. liftP (dedup_ids [] (below @ above))))"

definition get_all_triggered_stops :: "'s redis_ops \<Rightarrow> string \<Rightarrow> rat \<Rightarrow> ('s, exn, int list) prog" where
  "get_all_triggered_stops R symbol last_trade_price = both_ranges R (stops_key symbol) (stop_score last_trade_price)"

subsection \<open>Trailing stops\<close>

definition register_trailing_stop ::
  "'s redis_ops \<Rightarrow> int \<Rightarrow> string \<Rightarrow> string \<Rightarrow> string \<Rightarrow> rat \<Rightarrow> rat \<Rightarrow> rat \<Rightarrow> ('s, exn, unit) prog" where
  "register_trailing_stop R order_id symbol side delta_type delta_value initial_extreme initial_trigger =
     seqP (modP (r_zadd R (trailing_key symbol) (str_int order_id) (stop_score initial_trigger)))
       (modP (r_hset R (trailing_state_key order_id)
         [(''order_id'', h_int order_id), (''symbol'', HStr symbol), (''side'', HStr (lower side)),
          (''delta_type'', HStr delta_type), (''delta_value'', HNum delta_value),
          (''current_extreme'', HNum initial_extreme), (''current_trigger'', HNum initial_trigger)]))"

definition remove_trailing_stop :: "'s redis_ops \<Rightarrow> int \<Rightarrow> string \<Rightarrow> ('s, exn, bool) prog" where
  "remove_trailing_stop R order_id symbol =
     bindP (cmdP (r_zrem R (trailing_key symbol) (str_int order_id))) (\<lambda>removed.
     bindP (cmdP (r_del R (trailing_state_key order_id))) (\<lambda>_. retP (0 < removed)))"

definition get_trailing_state :: "'s redis_ops \<Rightarrow> int \<Rightarrow> ('s, exn, (string \<times> hval) list option) prog" where
  "get_trailing_state R order_id = bindP (getP (r_hgetall R (trailing_state_key order_id))) (\<lambda>raw.
     retP (if raw = [] then None else Some raw))"

definition update_trailing_trigger :: "'s redis_ops \<Rightarrow> int \<Rightarrow> string \<Rightarrow> rat \<Rightarrow> rat \<Rightarrow> ('s, exn, unit) prog" where
  "update_trailing_trigger R order_id symbol new_extreme new_trigger =
     seqP (modP (r_zadd R (trailing_key symbol) (str_int order_id) (stop_score new_trigger)))
       (modP (r_hset R (trailing_state_key order_id)
         [(''current_extreme'', HNum new_extreme), (''current_trigger'', HNum new_trigger)]))"

definition get_triggered_trailing_stops :: "'s redis_ops \<Rightarrow> string \<Rightarrow> rat \<Rightarrow> ('s, exn, int list) prog" where
  "get_triggered_trailing_stops R symbol last_trade_price =
     both_ranges R (trailing_key symbol) (stop_score last_trade_price)"

text \<open>The trigger belonging to an extreme.\<close>

definition trigger_of :: "string \<Rightarrow> string \<Rightarrow> rat \<Rightarrow> rat \<Rightarrow> rat" where
  "trigger_of side delta_type delta_value extreme =
     (if side = side_value SELL then
        (if delta_type = ''pct'' then dmul extreme (dsub 1 (rnd (delta_value / 100))) else dsub extreme delta_value)
      else
        (if delta_type = ''pct'' then dmul extreme (dadd 1 (rnd (delta_value / 100))) else dadd extreme delta_value))"

text \<open>The body of the loop for one trailing stop: the new extreme and trigger, if they move.\<close>

definition trail_step :: "string \<Rightarrow> string \<Rightarrow> rat \<Rightarrow> rat \<Rightarrow> rat option \<Rightarrow> rat option \<Rightarrow> (rat \<times> rat) option" where
  "trail_step side delta_type delta_value current_extreme new_high new_low =
     (if side = side_value SELL \<and> new_high \<noteq> None then
        (let h = rnd (the new_high) in
         if current_extreme < h then Some (h, trigger_of side delta_type delta_value h) else None)
      else if side = side_value BUY \<and> new_low \<noteq> None then
        (let l = rnd (the new_low) in
         if l < current_extreme then Some (l, trigger_of side delta_type delta_value l) else None)
      else None)"

definition trail_one :: "rat option \<Rightarrow> rat option \<Rightarrow> (string \<times> hval) list \<Rightarrow> (exn, (rat \<times> rat) option) result" where
  "trail_one new_high new_low state =
     bind_result (h_float (h_or (map_of state ''delta_value'') (Some (HNum 0)))) (\<lambda>delta_value.
     bind_result (h_float (h_or (map_of state ''current_extreme'') (Some (HNum 0)))) (\<lambda>current_extreme.
     Inr (trail_step (h_text (map_of state ''side''))
       (h_text (h_or (map_of state ''delta_type'') (Some (HStr ''abs'')))) delta_value current_extreme new_high new_low)))"

fun trail_all :: "rat option \<Rightarrow> rat option \<Rightarrow> (string \<times> (string \<times> hval) list) list \<Rightarrow>
    (exn, (int \<times> rat \<times> rat) list) result" where
  "trail_all new_high new_low [] = Inr []"
| "trail_all new_high new_low ((member, state) # rest) =
     (if state = [] then trail_all new_high new_low rest
      else bind_result (int_str member) (\<lambda>oid. bind_result (trail_one new_high new_low state) (\<lambda>r.
        bind_result (trail_all new_high new_low rest) (\<lambda>us.
        Inr (case r of None \<Rightarrow> us | Some (e, t) \<Rightarrow> (oid, e, t) # us)))))"

definition update_trailing_extremes ::
  "'s redis_ops \<Rightarrow> string \<Rightarrow> rat option \<Rightarrow> rat option \<Rightarrow> ('s, exn, int list) prog" where
  "update_trailing_extremes R symbol new_high new_low =
     bindP (getP (r_zrange R (trailing_key symbol) 0 (- 1))) (\<lambda>entries. let members = map fst entries in
     if members = [] then retP []
     else bindP (liftP (map_result int_str members)) (\<lambda>ids.
       bindP (getP (\<lambda>s. map (\<lambda>i. r_hgetall R (trailing_state_key i) s) ids)) (\<lambda>states.
       bindP (liftP (trail_all new_high new_low (zip members states))) (\<lambda>updates.
       seqP (forP updates (\<lambda>(oid, e, t).
           seqP (modP (r_zadd R (trailing_key symbol) (str_int oid) (dmul t (of_int SCORE_MULTIPLIER))))
             (modP (r_hset R (trailing_state_key oid)
               [(''current_extreme'', HNum (dec_of_float e)), (''current_trigger'', HNum (dec_of_float t))]))))
         (retP (map fst updates))))))"

definition clear_stops_for_symbol :: "'s redis_ops \<Rightarrow> string \<Rightarrow> ('s, exn, int) prog" where
  "clear_stops_for_symbol R symbol =
     bindP (getP (r_zrange R (trailing_key symbol) 0 (- 1))) (\<lambda>entries.
     bindP (liftP (map_result (\<lambda>p. int_str (fst p)) entries)) (\<lambda>ids.
     del_all R ([stops_key symbol, trailing_key symbol] @ map trailing_state_key ids)))"

subsection \<open>Which stops a price reports\<close>

lemma dedup_result:
  "dedup_ids seen ms = Inr ids \<Longrightarrow> \<exists>xs. map_result int_str ms = Inr xs \<and> set ids = set xs - set seen \<and> distinct ids"
proof (induction ms arbitrary: seen ids)
  case Nil
  then show ?case by simp
next
  case (Cons m ms)
  then obtain oid where oid: "int_str m = Inr oid" by (auto simp: bind_result_Inr)
  show ?case
  proof (cases "oid \<in> set seen")
    case True
    with Cons.prems oid have "dedup_ids seen ms = Inr ids" by simp
    from Cons.IH [OF this] obtain xs where "map_result int_str ms = Inr xs" "set ids = set xs - set seen" "distinct ids"
      by blast
    then have "map_result int_str (m # ms) = Inr (oid # xs)" "set ids = set (oid # xs) - set seen"
      using oid True by auto
    then show ?thesis using \<open>distinct ids\<close> by blast
  next
    case False
    then obtain rest where r: "dedup_ids (oid # seen) ms = Inr rest" "ids = oid # rest"
      using Cons.prems oid by (auto simp: bind_result_Inr)
    from Cons.IH [OF r(1)] show ?thesis using oid r(2) False by auto
  qed
qed

lemma map_result_ids: "map_result int_str (map str_int xs) = Inr xs"
  by (simp add: map_result_Inr list_all2_conv_all_nth)

lemma dedup_total: "\<exists>ids. dedup_ids seen (map str_int xs) = Inr ids"
  by (induction xs arbitrary: seen) (auto simp: bind_result_Inr)

context redis_server
begin

lemma both_ranges_all:
  assumes "zsets (view s) key = map (\<lambda>(i, x). (str_int i, x)) es" and "\<forall>(i, x)\<in>set es. 0 \<le> x"
  shows "\<exists>ids. both_ranges R key p s = (Inr ids, s) \<and> set ids = fst ` set es \<and> distinct ids"
proof -
  let ?below = "map fst (filter (\<lambda>(i, x). in_scores 0 (Some p) x) es)"
  let ?above = "map fst (filter (\<lambda>(i, x). in_scores p None x) es)"
  have r: "r_zrangebyscore R key 0 (Some p) s = map str_int ?below" "r_zrangebyscore R key p None s = map str_int ?above"
    using assms(1) by (simp_all add: zrangebyscore filter_map comp_def case_prod_unfold)
  obtain ids where d: "dedup_ids [] (map str_int (?below @ ?above)) = Inr ids" using dedup_total by blast
  have "set (?below @ ?above) = fst ` set es"
    using assms(2) by (force simp: in_scores_def)
  then have "set ids = fst ` set es \<and> distinct ids"
    using dedup_result [OF d] map_result_ids [of "?below @ ?above"] by auto
  then show ?thesis using d r by (auto simp: both_ranges_def prog_defs liftP_def)
qed

end

text \<open>
  \<open>get_all_triggered_stops\<close> reports every pending stop of the symbol, whatever the last trade price: the two
  ranges it unites, below and above the price, cover all scores. The side check is left to the caller.
\<close>

theorem all_stops_reported:
  assumes "redis_server R view" and "zsets (view s) (stops_key symbol) = map (\<lambda>(i, x). (str_int i, x)) es"
    and "\<forall>(i, x)\<in>set es. 0 \<le> x"
  shows "\<exists>ids. get_all_triggered_stops R symbol price s = (Inr ids, s) \<and> set ids = fst ` set es \<and> distinct ids"
  unfolding get_all_triggered_stops_def by (rule redis_server.both_ranges_all [OF assms])

theorem all_stops_reported_witness:
  "(let s = snd (add_stop_order mem_redis 8 ''X'' 200 (snd (add_stop_order mem_redis 7 ''X'' 50 empty_redis))) in
     \<exists>ids. get_all_triggered_stops mem_redis ''X'' 100 s = (Inr ids, s) \<and> set ids = {7, 8})"
proof -
  let ?s = "snd (add_stop_order mem_redis 8 ''X'' 200 (snd (add_stop_order mem_redis 7 ''X'' 50 empty_redis)))"
  have z: "zsets (mem_view ?s) (stops_key ''X'') = map (\<lambda>(i, x). (str_int i, x)) [(7, 50000000), (8, 200000000)]"
    by code_simp
  have "\<forall>(i::int, x::rat)\<in>set [(7, 50000000), (8, 200000000)]. 0 \<le> x" by simp
  from all_stops_reported [OF mem.redis_server_axioms z this, of 100] show ?thesis by (auto simp: Let_def)
qed

subsection \<open>A trailing trigger only moves with the position\<close>

lemma dsub_mono: "a \<le> b \<Longrightarrow> dsub a c \<le> dsub b c"
  by (simp add: dsub_def rnd_mono)

lemma dadd_mono: "a \<le> b \<Longrightarrow> dadd a c \<le> dadd b c"
  by (simp add: dadd_def rnd_mono)

lemma dmul_mono: "0 \<le> c \<Longrightarrow> a \<le> b \<Longrightarrow> dmul a c \<le> dmul b c"
  by (simp add: dmul_def rnd_mono mult_right_mono)

text \<open>
  The trailing trigger is a ratchet: when the loop of \<open>update_trailing_extremes\<close> moves a trailing stop
  whose trigger belonged to its extreme, a sell stop's extreme rises and its trigger does not fall, a buy
  stop's extreme falls and its trigger does not rise, and the new trigger belongs to the new extreme;
  for a percentage the offset must be at most 100.
\<close>

theorem trailing_ratchet:
  assumes "trail_step side delta_type delta_value extreme new_high new_low = Some (e, t)"
    and "side = side_value SELL \<or> side = side_value BUY" and "delta_type = ''pct'' \<longrightarrow> 0 \<le> delta_value \<and> delta_value \<le> 100"
  shows "t = trigger_of side delta_type delta_value e \<and>
    (if side = side_value SELL then extreme < e \<and> trigger_of side delta_type delta_value extreme \<le> t
     else e < extreme \<and> t \<le> trigger_of side delta_type delta_value extreme)"
proof -
  have one: "rnd 1 = 1" using rnd_of_int [of 1] by simp
  have f: "delta_type = ''pct'' \<Longrightarrow> 0 \<le> dsub 1 (rnd (delta_value / 100))"
    using assms(3) rnd_mono [of "delta_value / 100" 1] one by (simp add: dsub_nonneg)
  have g: "delta_type = ''pct'' \<Longrightarrow> 0 \<le> dadd 1 (rnd (delta_value / 100))"
    using assms(3) by (simp add: dadd_def)
  have t: "t = trigger_of side delta_type delta_value e"
    "if side = side_value SELL then extreme < e else e < extreme"
    using assms(1,2) by (auto simp: trail_step_def Let_def split: if_splits)
  then show ?thesis
    using f g by (auto simp: trigger_of_def intro: dsub_mono dadd_mono dmul_mono less_imp_le split: if_splits)
qed

theorem trailing_ratchet_witness:
  "trail_step ''sell'' ''abs'' 5 100 (Some 110) None = Some (110, 105) \<and>
   trigger_of ''sell'' ''abs'' 5 100 \<le> 105 \<and> trigger_of ''sell'' ''abs'' 5 110 = 105"
proof -
  have s: "trail_step ''sell'' ''abs'' 5 100 (Some 110) None = Some (110, 105)" by code_simp
  from trailing_ratchet [OF s] show ?thesis using s by simp
qed

end
