(* ===== verification/World.thy ===== *)
theory World
  imports Balances Orders_Index Queues Stops
begin

section \<open>The database, Redis and the repositories\<close>

text \<open>
  The state the services share: the PostgreSQL tables \<open>balances\<close>, \<open>orders\<close>, \<open>trading_pairs\<close>, \<open>trades\<close>, \<open>users\<close> and
  \<open>api_keys\<close>, the clock \<open>w_now\<close> of the running operation, the Redis server, and the price extremes the stop monitor
  keeps in memory. A table with a serial key is the list of
  its rows in insertion order together with the next key; queries that sort by \<open>created_at\<close> sort by insertion. The
  repositories \<open>order_repo.py\<close>, \<open>trading_pair_repo.py\<close> and \<open>trade_repo.py\<close> are the queries and updates over it.
  A database transaction that fails restores the tables but neither Redis nor the serial counters.
\<close>

record 's world =
  w_balances :: balance_tbl
  w_orders :: "order list"
  w_next_order :: int
  w_pairs :: "trading_pair list"
  w_next_pair :: int
  w_trade_rows :: "trade list"
  w_next_trade :: int
  w_users :: "user list"
  w_next_user :: int
  w_api_keys :: "api_key list"
  w_next_api_key :: int
  w_now :: int
  w_redis :: 's
  w_local_high :: "string \<rightharpoonup> rat"
  w_local_low :: "string \<rightharpoonup> rat"

type_synonym ('s, 'a) world_prog = "('s world, exn, 'a) prog"

text \<open>Operations on one part of the state, lifted to all of it.\<close>

definition balP :: "'a balance_prog \<Rightarrow> ('s, 'a) world_prog" where
  "balP m w = (case m (w_balances w) of (r, t) \<Rightarrow> (r, w\<lparr>w_balances := t\<rparr>))"

definition redP :: "('s, exn, 'a) prog \<Rightarrow> ('s, 'a) world_prog" where
  "redP m w = (case m (w_redis w) of (r, t) \<Rightarrow> (r, w\<lparr>w_redis := t\<rparr>))"

definition transactionP :: "('s, 'a) world_prog \<Rightarrow> ('s, 'a) world_prog" where
  "transactionP m w = (case m w of
     (Inr x, w1) \<Rightarrow> (Inr x, w1)
   | (Inl e, w1) \<Rightarrow> (Inl e, w1\<lparr>w_balances := w_balances w, w_orders := w_orders w, w_pairs := w_pairs w, w_trade_rows := w_trade_rows w,
       w_users := w_users w, w_api_keys := w_api_keys w\<rparr>))"

subsection \<open>Orders\<close>

text \<open>The columns of an order row are \<open>Numeric(36, 18)\<close>.\<close>

definition store_order :: "order \<Rightarrow> order" where
  "store_order r = r\<lparr>o_price := map_option numeric18 (o_price r), o_stop_price := map_option numeric18 (o_stop_price r),
     o_trailing_delta := map_option numeric18 (o_trailing_delta r), o_quantity := numeric18 (o_quantity r),
     o_filled_quantity := numeric18 (o_filled_quantity r), o_filled_quote_qty := numeric18 (o_filled_quote_qty r),
     o_visible_quantity := map_option numeric18 (o_visible_quantity r),
     o_hidden_quantity := map_option numeric18 (o_hidden_quantity r)\<rparr>"

text \<open>\<open>session.add(order)\<close> and \<open>flush\<close>: the row gets its key; the object keeps its own decimals.\<close>

definition add_order :: "order \<Rightarrow> ('s, order) world_prog" where
  "add_order r w = (let r1 = r\<lparr>o_id := w_next_order w\<rparr> in
     (Inr r1, w\<lparr>w_orders := w_orders w @ [store_order r1], w_next_order := w_next_order w + 1\<rparr>))"

text \<open>\<open>UPDATE orders SET ... WHERE cond\<close>; the result is the number of rows changed.\<close>

definition update_orders :: "(order \<Rightarrow> bool) \<Rightarrow> (order \<Rightarrow> order) \<Rightarrow> ('s, int) world_prog" where
  "update_orders cond upd w = (Inr (int (length (filter cond (w_orders w)))),
     w\<lparr>w_orders := map (\<lambda>r. if cond r then store_order (upd r) else r) (w_orders w)\<rparr>)"

definition order_get_for_update :: "int \<Rightarrow> ('s, order option) world_prog" where
  "order_get_for_update order_id = getP (\<lambda>w. find (\<lambda>r. o_id r = order_id) (w_orders w))"

definition get_by_user :: "int \<Rightarrow> int \<Rightarrow> ('s, order option) world_prog" where
  "get_by_user order_id user_id = getP (\<lambda>w. find (\<lambda>r. o_id r = order_id \<and> o_user_id r = user_id) (w_orders w))"

text \<open>A page of a result: \<open>OFFSET\<close> and \<open>LIMIT\<close>.\<close>

definition page :: "nat \<Rightarrow> nat \<Rightarrow> 'a list \<Rightarrow> 'a list" where
  "page offset limit xs = take limit (drop offset xs)"

definition list_user_orders ::
  "int \<Rightarrow> string option \<Rightarrow> order_status list option \<Rightarrow> nat \<Rightarrow> nat \<Rightarrow> ('s, order list) world_prog" where
  "list_user_orders user_id symbol statuses offset limit = getP (\<lambda>w. page offset limit (rev (filter (\<lambda>r.
     o_user_id r = user_id \<and> (case symbol of None \<Rightarrow> True | Some sy \<Rightarrow> o_symbol r = sy) \<and>
     (case statuses of None \<Rightarrow> True | Some [] \<Rightarrow> True | Some ss \<Rightarrow> o_status r \<in> set ss)) (w_orders w))))"

definition list_open_orders_by_symbol :: "string \<Rightarrow> ('s, order list) world_prog" where
  "list_open_orders_by_symbol symbol = getP (\<lambda>w. filter (\<lambda>r. o_symbol r = symbol \<and>
     (o_status r = NEW \<or> o_status r = PARTIALLY_FILLED)) (w_orders w))"

definition list_pending_stops_by_symbol :: "string \<Rightarrow> ('s, order list) world_prog" where
  "list_pending_stops_by_symbol symbol = getP (\<lambda>w. filter (\<lambda>r. o_symbol r = symbol \<and> stop_type (o_type r) \<and>
     o_status r = PENDING) (w_orders w))"

definition list_children_by_parent :: "int \<Rightarrow> ('s, order list) world_prog" where
  "list_children_by_parent parent_id = getP (\<lambda>w. filter (\<lambda>r. o_parent_order_id r = Some parent_id) (w_orders w))"

definition list_bulk_orders :: "string \<Rightarrow> ('s, order list) world_prog" where
  "list_bulk_orders bulk_id = getP (\<lambda>w. filter (\<lambda>r. o_bulk_id r = Some bulk_id) (w_orders w))"

definition update_fill :: "int \<Rightarrow> rat \<Rightarrow> rat \<Rightarrow> order_status \<Rightarrow> ('s, bool) world_prog" where
  "update_fill order_id qty_delta quote_delta new_status = bindP (update_orders (\<lambda>r. o_id r = order_id)
     (\<lambda>r. r\<lparr>o_filled_quantity := o_filled_quantity r + qty_delta, o_filled_quote_qty := o_filled_quote_qty r + quote_delta,
        o_status := new_status, o_version := o_version r + 1\<rparr>)) (\<lambda>n. retP (n = 1))"

definition update_status :: "int \<Rightarrow> order_status \<Rightarrow> ('s, bool) world_prog" where
  "update_status order_id status = bindP (update_orders (\<lambda>r. o_id r = order_id)
     (\<lambda>r. r\<lparr>o_status := status, o_version := o_version r + 1\<rparr>)) (\<lambda>n. retP (n = 1))"

definition cancel_children :: "int \<Rightarrow> ('s, int) world_prog" where
  "cancel_children parent_id = update_orders
     (\<lambda>r. o_parent_order_id r = Some parent_id \<and> o_status r \<in> {PENDING, NEW, PARTIALLY_FILLED})
     (\<lambda>r. r\<lparr>o_status := CANCELED, o_version := o_version r + 1\<rparr>)"

text \<open>Assigning to attributes of a loaded order and flushing it.\<close>

definition set_order :: "int \<Rightarrow> (order \<Rightarrow> order) \<Rightarrow> ('s, unit) world_prog" where
  "set_order order_id upd = bindP (update_orders (\<lambda>r. o_id r = order_id) upd) (\<lambda>_. retP ())"

subsection \<open>Trading pairs and trades\<close>

definition get_by_symbol :: "string \<Rightarrow> ('s, trading_pair option) world_prog" where
  "get_by_symbol symbol = getP (\<lambda>w. find (\<lambda>p. p_symbol p = symbol) (w_pairs w))"

definition list_active :: "('s, trading_pair list) world_prog" where
  "list_active = getP (\<lambda>w. sort_key p_symbol (filter p_is_active (w_pairs w)))"

definition store_trade :: "trade \<Rightarrow> trade" where
  "store_trade t = t\<lparr>t_price := numeric18 (t_price t), t_quantity := numeric18 (t_quantity t),
     t_quote_quantity := numeric18 (t_quote_quantity t), t_taker_fee := numeric18 (t_taker_fee t),
     t_maker_fee := numeric18 (t_maker_fee t)\<rparr>"

definition add_trade :: "trade \<Rightarrow> ('s, unit) world_prog" where
  "add_trade t w = (Inr (), w\<lparr>w_trade_rows := w_trade_rows w @ [store_trade (t\<lparr>t_id := w_next_trade w, t_executed_at := w_now w\<rparr>)],
     w_next_trade := w_next_trade w + 1\<rparr>)"

definition list_recent_by_symbol :: "string \<Rightarrow> nat \<Rightarrow> ('s, trade list) world_prog" where
  "list_recent_by_symbol symbol limit = getP (\<lambda>w. take limit (rev (sort_key t_executed_at (filter (\<lambda>t. t_symbol t = symbol) (w_trade_rows w)))))"

definition get_last_price :: "string \<Rightarrow> ('s, rat option) world_prog" where
  "get_last_price symbol = getP (\<lambda>w. case rev (sort_key t_executed_at (filter (\<lambda>t. t_symbol t = symbol) (w_trade_rows w))) of
     [] \<Rightarrow> None | t # _ \<Rightarrow> Some (rnd (t_price t)))"

definition list_user_trades ::
  "int \<Rightarrow> string option \<Rightarrow> order_side option \<Rightarrow> int option \<Rightarrow> int option \<Rightarrow> nat \<Rightarrow> nat \<Rightarrow> ('s, trade list) world_prog" where
  "list_user_trades user_id symbol side start until offset limit = getP (\<lambda>w. page offset limit (rev (sort_key t_executed_at (filter (\<lambda>t.
     (t_taker_user_id t = user_id \<or> t_maker_user_id t = user_id) \<and>
     (case symbol of None \<Rightarrow> True | Some sy \<Rightarrow> t_symbol t = sy) \<and> (case side of None \<Rightarrow> True | Some sd \<Rightarrow> t_side t = sd) \<and>
     (case start of None \<Rightarrow> True | Some a \<Rightarrow> a \<le> t_executed_at t) \<and> (case until of None \<Rightarrow> True | Some b \<Rightarrow> t_executed_at t \<le> b)) (w_trade_rows w)))))"

lemmas world_defs = balP_def redP_def add_order_def update_orders_def order_get_for_update_def get_by_user_def
  update_status_def cancel_children_def set_order_def get_by_symbol_def list_children_by_parent_def add_trade_def

declare balP_def [exec_defs] redP_def [exec_defs] transactionP_def [exec_defs] add_order_def [exec_defs]
  update_orders_def [exec_defs] order_get_for_update_def [exec_defs] get_by_user_def [exec_defs]
  update_status_def [exec_defs] cancel_children_def [exec_defs] set_order_def [exec_defs] get_by_symbol_def [exec_defs]
  list_children_by_parent_def [exec_defs] add_trade_def [exec_defs]

subsection \<open>Running lifted operations\<close>

lemma bindP_Inr: "bindP m f s = (Inr y, t) \<longleftrightarrow> (\<exists>x s1. m s = (Inr x, s1) \<and> f x s1 = (Inr y, t))"
  by (auto simp: bindP_def split: prod.splits sum.splits)

lemma bindP_Inl: "bindP m f s = (Inl e, t) \<longleftrightarrow> m s = (Inl e, t) \<or> (\<exists>x s1. m s = (Inr x, s1) \<and> f x s1 = (Inl e, t))"
  by (auto simp: bindP_def split: prod.splits sum.splits)

lemma seqP_Inr: "seqP m n s = (Inr y, t) \<longleftrightarrow> (\<exists>x s1. m s = (Inr x, s1) \<and> n s1 = (Inr y, t))"
  by (simp add: seqP_def bindP_Inr)

lemma seqP_Inl: "seqP m n s = (Inl e, t) \<longleftrightarrow> m s = (Inl e, t) \<or> (\<exists>x s1. m s = (Inr x, s1) \<and> n s1 = (Inl e, t))"
  by (simp add: seqP_def bindP_Inl)

lemma retP_eq: "retP x s = (r, t) \<longleftrightarrow> r = Inr x \<and> t = s"
  by (auto simp: retP_def)

lemma raiseP_eq: "raiseP e s = (r, t) \<longleftrightarrow> r = Inl e \<and> t = s"
  by (auto simp: raiseP_def)

lemma getP_eq: "getP f s = (r, t) \<longleftrightarrow> r = Inr (f s) \<and> t = s"
  by (auto simp: getP_def)

lemma liftP_eq: "liftP r s = (r', t) \<longleftrightarrow> r = r' \<and> t = s"
  by (auto simp: liftP_def)

lemma bindP_run: "m s = (Inr x, s1) \<Longrightarrow> bindP m f s = f x s1"
  by (simp add: bindP_def)

lemma seqP_run: "m s = (Inr x, s1) \<Longrightarrow> seqP m n s = n s1"
  by (simp add: seqP_def bindP_def)

lemma is_ok_runE:
  assumes "is_ok (fst p)"
  obtains x t where "p = (Inr x, t)"
  using assms by (cases p) (auto simp: is_ok_iff)

lemmas run_steps = bindP_Inr seqP_Inr retP_eq raiseP_eq getP_eq liftP_eq

lemmas run_fails = bindP_Inl seqP_Inl retP_eq raiseP_eq getP_eq liftP_eq

lemma preserves_lift [preserves_intros]: "preserves I (liftP r)"
  by (simp add: preserves_def liftP_def)

lemma preserves_prod [preserves_intros]: "(\<And>x y. preserves I (f x y)) \<Longrightarrow> preserves I (case p of (x, y) \<Rightarrow> f x y)"
  by (simp add: case_prod_beta)

lemma preserves_let [preserves_intros]: "preserves I (f x) \<Longrightarrow> preserves I (Let x f)"
  by simp

lemma preserves_redP: "(\<And>w t. I w \<Longrightarrow> I (w\<lparr>w_redis := t\<rparr>)) \<Longrightarrow> preserves I (redP m)"
  by (simp add: preserves_def redP_def split: prod.split)

lemma preserves_balP: "preserves J m \<Longrightarrow> (\<And>w. I w \<Longrightarrow> J (w_balances w)) \<Longrightarrow>
    (\<And>w t. I w \<Longrightarrow> J t \<Longrightarrow> I (w\<lparr>w_balances := t\<rparr>)) \<Longrightarrow> preserves I (balP m)"
  by (simp add: preserves_def balP_def case_prod_beta)

lemma preserves_transaction:
  assumes "preserves I m" and "\<And>w w1. I w \<Longrightarrow> I w1 \<Longrightarrow>
    I (w1\<lparr>w_balances := w_balances w, w_orders := w_orders w, w_pairs := w_pairs w, w_trade_rows := w_trade_rows w,
      w_users := w_users w, w_api_keys := w_api_keys w\<rparr>)"
  shows "preserves I (transactionP m)"
proof (rule preservesI)
  fix w assume w: "I w"
  show "I (snd (transactionP m w))"
    using preservesD [of I, OF assms(1) w] assms(2) [OF w] by (auto simp: transactionP_def split: prod.split sum.split)
qed

text \<open>An operation that only reads.\<close>

definition reads :: "('s, 'e, 'a) prog \<Rightarrow> bool" where
  "reads m \<longleftrightarrow> (\<forall>s. snd (m s) = s)"

lemma readsD: "reads m \<Longrightarrow> m s = (r, t) \<Longrightarrow> t = s"
  by (metis reads_def snd_conv)

lemma reads_preserves: "reads m \<Longrightarrow> preserves I m"
  by (simp add: reads_def preserves_def)

lemma readsI: "(\<And>c. preserves (\<lambda>s. s = c) m) \<Longrightarrow> reads m"
  by (simp add: reads_def preserves_def)

lemma world_redis_same [simp]: "w\<lparr>w_redis := w_redis w\<rparr> = w"
  by (cases w) simp

lemma reads_redP: "reads m \<Longrightarrow> reads (redP m)"
  unfolding reads_def redP_def by (simp add: case_prod_beta)

lemma reads_get_opposite: "reads (get_opposite_orders_for_match R symbol side limit)"
  unfolding get_opposite_orders_for_match_def load_hashes_def by (intro readsI preserves_intros)

lemma reads_snapshot: "reads (get_book_snapshot R symbol depth)"
  unfolding get_book_snapshot_def aggregate_side_def load_hashes_def by (intro readsI preserves_intros)

lemma find_None_iff_all: "find P xs = None \<longleftrightarrow> (\<forall>x\<in>set xs. \<not> P x)"
  by (induction xs) auto

lemma find_app: "find P (xs @ ys) = (case find P xs of None \<Rightarrow> find P ys | Some x \<Rightarrow> Some x)"
  by (induction xs) auto

lemma find_map_same: "(\<And>x. P (f x) = P x) \<Longrightarrow> find P (map f xs) = map_option f (find P xs)"
  by (induction xs) auto

text \<open>Serial keys are fresh: every stored order has a smaller key than the next one.\<close>

definition keys_fresh :: "'s world \<Rightarrow> bool" where
  "keys_fresh w \<longleftrightarrow> (\<forall>r\<in>set (w_orders w). o_id r < w_next_order w)"

lemma store_order_simps [simp]: "o_id (store_order r) = o_id r" "o_user_id (store_order r) = o_user_id r"
  "o_symbol (store_order r) = o_symbol r" "o_side (store_order r) = o_side r" "o_type (store_order r) = o_type r"
  "o_status (store_order r) = o_status r" "o_parent_order_id (store_order r) = o_parent_order_id r"
  "o_version (store_order r) = o_version r"
  by (simp_all add: store_order_def)

declare dec18_numeral [simp] dec18_of_int [simp]

lemma numeric18_idem [simp]: "numeric18 (numeric18 x) = numeric18 x"
  by (simp add: dec18_numeric18)

lemma store_order_idem [simp]: "store_order (store_order r) = store_order r"
  by (simp add: store_order_def option.map_comp comp_def)

lemma frameD: "(\<And>c. preserves (\<lambda>w. f w = c) m) \<Longrightarrow> m w = (r, w1) \<Longrightarrow> f w1 = f w"
  using preservesD [of "\<lambda>x. f x = f w" m w] by simp

lemma preserves_update_orders: "(\<And>w os. I w \<Longrightarrow> I (w\<lparr>w_orders := os\<rparr>)) \<Longrightarrow> preserves I (update_orders cond upd)"
  by (simp add: preserves_def update_orders_def)

lemma find_map_upd:
  assumes "\<And>r. o_id (f r) = o_id r"
  shows "find (\<lambda>r. o_id r = i) (map f rs) = map_option f (find (\<lambda>r. o_id r = i) rs)"
  using assms by (induction rs) auto

lemma redP_orders: "redP m w = (r, w1) \<Longrightarrow> w_orders w1 = w_orders w"
  by (auto simp: redP_def split: prod.splits)

lemma find_weaken: "find P xs = Some x \<Longrightarrow> (\<And>y. P y \<Longrightarrow> Q y) \<Longrightarrow> \<exists>z. find Q xs = Some z"
  by (induction xs) (auto split: if_splits)

lemma redP_run: "m (w_redis w) = (r, t) \<Longrightarrow> redP m w = (r, w\<lparr>w_redis := t\<rparr>)"
  by (simp add: redP_def)

lemma balP_run: "m (w_balances w) = (r, t) \<Longrightarrow> balP m w = (r, w\<lparr>w_balances := t\<rparr>)"
  by (simp add: balP_def)

subsection \<open>A small exchange for the examples\<close>

definition btc_usdt :: trading_pair where
  "btc_usdt = \<lparr>p_id = 1, p_symbol = ''BTC/USDT'', p_base_asset = ''BTC'', p_quote_asset = ''USDT'', p_price_precision = 2,
     p_quantity_precision = 8, p_min_lot_size = 1 / 1000, p_max_lot_size = 1000, p_tick_size = 1 / 100, p_maker_fee_bps = 0,
     p_taker_fee_bps = 0, p_is_active = True\<rparr>"

definition funds :: "int \<Rightarrow> string \<Rightarrow> rat \<Rightarrow> rat \<Rightarrow> balance" where
  "funds u a locked available = \<lparr>b_user_id = u, b_asset = a, total_balance = locked + available,
     locked_balance = locked, available_balance = available, b_version = 1\<rparr>"

definition market :: "balance_tbl \<Rightarrow> order list \<Rightarrow> 's \<Rightarrow> 's world" where
  "market t orders s = \<lparr>w_balances = t, w_orders = orders, w_next_order = int (length orders) + 1, w_pairs = [btc_usdt],
     w_next_pair = 2, w_trade_rows = [], w_next_trade = 1, w_users = [], w_next_user = 1, w_api_keys = [], w_next_api_key = 1,
     w_now = 0, w_redis = s, w_local_high = Map.empty, w_local_low = Map.empty\<rparr>"

text \<open>A resting or incoming limit order of the example exchange.\<close>

definition limit_row :: "int \<Rightarrow> int \<Rightarrow> order_side \<Rightarrow> rat \<Rightarrow> rat \<Rightarrow> order" where
  "limit_row i u side price quantity = \<lparr>o_id = i, o_user_id = u, o_symbol = ''BTC/USDT'', o_side = side, o_type = LIMIT,
     o_status = NEW, o_price = Some price, o_stop_price = None, o_trailing_delta = None, o_quantity = quantity,
     o_filled_quantity = 0, o_filled_quote_qty = 0, o_visible_quantity = None, o_hidden_quantity = None, o_replace_count = 0,
     o_replaces_id = None, o_replaced_by_id = None, o_parent_order_id = None, o_sl_order_id = None, o_tp_order_id = None,
     o_bulk_id = None, o_version = 1\<rparr>"

lemma market_facts: "find (\<lambda>p. p_symbol p = ''BTC/USDT'') (w_pairs (market t orders s)) = Some btc_usdt" "p_is_active btc_usdt"
  "w_balances (market t orders s) = t" "w_redis (market t orders s) = s" "w_orders (market t orders s) = orders"
  "w_next_order (market t orders s) = int (length orders) + 1"
  by (simp_all add: market_def btc_usdt_def)

lemma keys_fresh_market: "keys_fresh (market t [] s)"
  by (simp add: keys_fresh_def market_def)

end
