(* ===== verification/Order_Service.thy ===== *)
theory Order_Service
  imports World
begin

section \<open>The order service\<close>

text \<open>
  \<open>services/order_service.py\<close>: validation, the amount to lock, placing, canceling, replacing and the bulk operations.
  Each operation is a program over the shared state; its first arguments are the Redis commands \<open>R\<close> and, where it
  locks optimistically, the interference \<open>env\<close> of other transactions. It runs inside the transaction of its
  caller (\<open>transactionP\<close>): the endpoints of \<open>api/v1/orders.py\<close> commit when it returns and roll back when it
  raises. The events it publishes are in the theory \<open>Events\<close>; the book snapshot that \<open>cancel_order\<close> publishes is still read.
\<close>

subsection \<open>Requests\<close>

record sltp_config =
  cfg_type :: string
  cfg_stop_price :: "rat option"
  cfg_price :: "rat option"
  cfg_quantity :: "rat option"

record order_create_dto =
  dto_symbol :: string
  dto_side :: string
  dto_type :: string
  dto_price :: "rat option"
  dto_stop_price :: "rat option"
  dto_trailing_delta :: "rat option"
  dto_quantity :: rat
  dto_visible_quantity :: "rat option"
  dto_hidden_quantity :: "rat option"
  dto_sl :: "sltp_config option"
  dto_tp :: "sltp_config option"
  dto_bulk_id :: "string option"

text \<open>The tests \<open>dto.type in (...)\<close> of the service.\<close>

definition stop_names :: "string list" where
  "stop_names = [''stop_market'', ''stop_limit'', ''trailing_stop'']"

definition resting_names :: "string list" where
  "resting_names = [''limit'', ''post_only'', ''ioc'', ''fok'', ''iceberg'']"

definition is_stop_dto :: "order_create_dto \<Rightarrow> bool" where
  "is_stop_dto dto \<longleftrightarrow> dto_type dto \<in> set stop_names"

subsection \<open>Validation\<close>

definition validate_and_get_pair :: "string \<Rightarrow> ('s, trading_pair) world_prog" where
  "validate_and_get_pair symbol = bindP (get_by_symbol symbol) (\<lambda>r. case r of
     None \<Rightarrow> raiseP (OrderValidationError ''Trading pair not found'')
   | Some pair \<Rightarrow> if \<not> p_is_active pair then raiseP (OrderValidationError ''Trading pair is not active'') else retP pair)"

text \<open>\<open>a % b\<close> of positive decimals.\<close>

definition dec_mod :: "rat \<Rightarrow> rat \<Rightarrow> rat" where
  "dec_mod a b = a - b * of_int \<lfloor>a / b\<rfloor>"

definition validate_params :: "order_create_dto \<Rightarrow> trading_pair \<Rightarrow> (exn, unit) result" where
  "validate_params dto pair =
     (if dto_side dto \<notin> {''buy'', ''sell''} then Inl (OrderValidationError ''Invalid side'')
      else if dto_quantity dto \<le> 0 then Inl (OrderValidationError ''quantity must be positive'')
      else if dto_quantity dto < p_min_lot_size pair then Inl (OrderValidationError ''quantity below min_lot_size'')
      else if dto_quantity dto > p_max_lot_size pair then Inl (OrderValidationError ''quantity above max_lot_size'')
      else if dto_type dto \<in> set (''stop_limit'' # resting_names) \<and> dto_price dto = None
      then Inl (OrderValidationError ''Order type requires price'')
      else if (case dto_price dto of None \<Rightarrow> False | Some p \<Rightarrow> p \<le> 0)
      then Inl (OrderValidationError ''price must be positive'')
      else if is_stop_dto dto \<and> dto_type dto \<noteq> ''trailing_stop'' \<and> dto_stop_price dto = None
      then Inl (OrderValidationError ''Order type requires stop_price'')
      else if is_stop_dto dto \<and> dto_type dto = ''trailing_stop'' \<and> dto_trailing_delta dto = None
      then Inl (OrderValidationError ''trailing_stop requires trailing_delta'')
      else if dto_type dto = ''iceberg'' \<and> (dto_visible_quantity dto = None \<or> dto_hidden_quantity dto = None)
      then Inl (OrderValidationError ''iceberg requires visible_quantity and hidden_quantity'')
      else if dto_type dto = ''iceberg'' \<and> the (dto_visible_quantity dto) + the (dto_hidden_quantity dto) \<noteq> dto_quantity dto
      then Inl (OrderValidationError ''iceberg: visible + hidden != quantity'')
      else if dto_type dto = ''iceberg'' \<and> the (dto_visible_quantity dto) \<le> 0
      then Inl (OrderValidationError ''iceberg visible_quantity must be positive'')
      else if (case dto_price dto of None \<Rightarrow> False | Some p \<Rightarrow> 0 < p_tick_size pair \<and> dec_mod p (p_tick_size pair) \<noteq> 0)
      then Inl (OrderValidationError ''price not a multiple of tick_size'')
      else Inr ())"

subsection \<open>The amount to lock\<close>

definition compute_lock_asset_and_amount :: "order_create_dto \<Rightarrow> trading_pair \<Rightarrow> (exn, string \<times> rat) result" where
  "compute_lock_asset_and_amount dto pair =
     (if is_stop_dto dto then Inr ('''', 0)
      else if dto_side dto = ''sell'' then Inr (p_base_asset pair, dto_quantity dto)
      else if dto_type dto \<in> set resting_names then
        (case dto_price dto of None \<Rightarrow> Inl AssertionError | Some p \<Rightarrow> Inr (p_quote_asset pair, p * dto_quantity dto))
      else Inr (p_quote_asset pair, 0))"

text \<open>Walking the asks: what remains of the quantity and the cost so far.\<close>

fun walk_asks :: "book_order list \<Rightarrow> rat \<Rightarrow> rat \<Rightarrow> rat \<times> rat" where
  "walk_asks [] remaining_qty total_cost = (remaining_qty, total_cost)"
| "walk_asks (ask # asks) remaining_qty total_cost =
     (if remaining_qty \<le> 0 then (remaining_qty, total_cost)
      else let ask_price = dec_of_float (bo_price ask);
               ask_qty = dec_of_float (if bo_is_iceberg ask then bo_visible_quantity ask else bo_quantity ask);
               fill_qty = min remaining_qty ask_qty in
        walk_asks asks (remaining_qty - fill_qty) (total_cost + ask_price * fill_qty))"

definition compute_market_buy_lock :: "'s redis_ops \<Rightarrow> order_create_dto \<Rightarrow> trading_pair \<Rightarrow> ('s, string \<times> rat) world_prog" where
  "compute_market_buy_lock R dto pair =
     bindP (redP (get_opposite_orders_for_match R (dto_symbol dto) ''buy'' 1000)) (\<lambda>ask_orders.
     if ask_orders = [] then raiseP (OrderValidationError ''Cannot place MARKET BUY: no asks available'')
     else case walk_asks ask_orders (dto_quantity dto) 0 of (remaining_qty, total_cost) \<Rightarrow>
       if 0 < remaining_qty then raiseP (OrderValidationError ''Cannot place MARKET BUY: insufficient ask volume'')
       else retP (p_quote_asset pair, total_cost * (1001 / 1000)))"

text \<open>The three-way choice that \<open>place_order\<close> and \<open>place_bulk_orders\<close> make.\<close>

definition compute_lock :: "'s redis_ops \<Rightarrow> order_create_dto \<Rightarrow> trading_pair \<Rightarrow> ('s, string \<times> rat) world_prog" where
  "compute_lock R dto pair =
     (if is_stop_dto dto then retP ('''', 0)
      else if dto_type dto = ''market'' \<and> dto_side dto = ''buy'' then compute_market_buy_lock R dto pair
      else liftP (compute_lock_asset_and_amount dto pair))"

subsection \<open>Rows and registrations\<close>

definition new_order :: "int \<Rightarrow> string \<Rightarrow> order_side \<Rightarrow> order_type \<Rightarrow> order_status \<Rightarrow> rat option \<Rightarrow> rat option \<Rightarrow> rat \<Rightarrow> order" where
  "new_order user_id symbol side tp status price stop_price quantity =
     \<lparr>o_id = 0, o_user_id = user_id, o_symbol = symbol, o_side = side, o_type = tp, o_status = status,
      o_price = price, o_stop_price = stop_price, o_trailing_delta = None, o_quantity = quantity,
      o_filled_quantity = 0, o_filled_quote_qty = 0, o_visible_quantity = None, o_hidden_quantity = None,
      o_replace_count = 0, o_replaces_id = None, o_replaced_by_id = None, o_parent_order_id = None,
      o_sl_order_id = None, o_tp_order_id = None, o_bulk_id = None, o_version = 1\<rparr>"

text \<open>The row of \<open>place_order\<close>; \<open>OrderSide(dto.side)\<close> and \<open>OrderType(dto.type)\<close> may raise.\<close>

definition order_of_dto :: "int \<Rightarrow> order_create_dto \<Rightarrow> (exn, order) result" where
  "order_of_dto user_id dto =
     bind_result (OrderSide (dto_side dto)) (\<lambda>side. bind_result (OrderType (dto_type dto)) (\<lambda>tp.
     Inr ((new_order user_id (dto_symbol dto) side tp (if is_stop_dto dto then PENDING else NEW) (dto_price dto)
         (dto_stop_price dto) (dto_quantity dto))
       \<lparr>o_trailing_delta := dto_trailing_delta dto,
        o_visible_quantity := (if dto_type dto = ''iceberg'' then dto_visible_quantity dto else Some (dto_quantity dto)),
        o_hidden_quantity := (if dto_type dto = ''iceberg'' then dto_hidden_quantity dto else None),
        o_bulk_id := dto_bulk_id dto\<rparr>)))"

definition create_sltp_child :: "int \<Rightarrow> sltp_config \<Rightarrow> order \<Rightarrow> ('s, order) world_prog" where
  "create_sltp_child user_id config parent =
     bindP (liftP (OrderType (cfg_type config))) (\<lambda>tp.
     add_order ((new_order user_id (o_symbol parent) (if o_side parent = BUY then SELL else BUY) tp PENDING
         (cfg_price config) (cfg_stop_price config)
         (case cfg_quantity config of Some q \<Rightarrow> q | None \<Rightarrow> o_quantity parent))
       \<lparr>o_parent_order_id := Some (o_id parent)\<rparr>))"

text \<open>The row with its stop-loss and take-profit children; the parent row gets their keys.\<close>

definition insert_order :: "int \<Rightarrow> order_create_dto \<Rightarrow> ('s, order) world_prog" where
  "insert_order user_id dto =
     bindP (liftP (order_of_dto user_id dto)) (\<lambda>row.
     bindP (add_order row) (\<lambda>order.
     bindP (case dto_sl dto of None \<Rightarrow> retP order | Some config \<Rightarrow>
        bindP (create_sltp_child user_id config order) (\<lambda>sl. retP (order\<lparr>o_sl_order_id := Some (o_id sl)\<rparr>))) (\<lambda>order1.
     bindP (case dto_tp dto of None \<Rightarrow> retP order1 | Some config \<Rightarrow>
        bindP (create_sltp_child user_id config order1) (\<lambda>tp. retP (order1\<lparr>o_tp_order_id := Some (o_id tp)\<rparr>))) (\<lambda>order2.
     seqP (set_order (o_id order2) (\<lambda>r. r\<lparr>o_sl_order_id := o_sl_order_id order2, o_tp_order_id := o_tp_order_id order2\<rparr>))
       (retP order2)))))"

definition register_stop_order :: "'s redis_ops \<Rightarrow> order \<Rightarrow> ('s, unit) world_prog" where
  "register_stop_order R order =
     seqP (if o_type order = TRAILING_STOP
        then redP (register_trailing_stop R (o_id order) (o_symbol order) (side_value (o_side order)) ''abs''
               (or0 (o_trailing_delta order)) (or0 (o_stop_price order)) (or0 (o_stop_price order)))
        else redP (add_stop_order R (o_id order) (o_symbol order) (or0 (o_stop_price order))))
    (seqP (redP (add_open_order R (o_user_id order) (o_symbol order) (o_id order)))
     (redP (store_order_hash R (o_id order)
       [(''order_id'', h_int (o_id order)), (''user_id'', h_int (o_user_id order)), (''symbol'', HStr (o_symbol order)),
        (''side'', HStr (side_value (o_side order))), (''type'', HStr (type_value (o_type order))),
        (''stop_price'', h_opt (truthy (o_stop_price order))), (''quantity'', HNum (o_quantity order)),
        (''is_iceberg'', HStr ''0'')])))"

definition order_metadata :: "int \<Rightarrow> order \<Rightarrow> (string \<times> hval) list" where
  "order_metadata user_id order =
     [(''order_id'', h_int (o_id order)), (''user_id'', h_int user_id), (''symbol'', HStr (o_symbol order)),
      (''side'', HStr (side_value (o_side order))), (''type'', HStr (type_value (o_type order))),
      (''price'', h_opt (truthy (o_price order))), (''quantity'', HNum (o_quantity order)),
      (''visible_quantity'', h_opt (truthy (o_visible_quantity order))),
      (''hidden_quantity'', h_opt (truthy (o_hidden_quantity order))),
      (''is_iceberg'', HStr (if o_type order = ICEBERG then ''1'' else ''0''))]"

definition place_payload :: "int \<Rightarrow> order \<Rightarrow> order_action" where
  "place_payload user_id order = build_order_action_payload ''place'' (o_id order) (o_symbol order) user_id
     (side_value (o_side order)) (type_value (o_type order)) (map_option rnd (truthy (o_price order))) None
     (Some (rnd (o_quantity order))) (o_type order = ICEBERG) (map_option rnd (truthy (o_visible_quantity order)))
     (map_option rnd (truthy (o_hidden_quantity order))) None None (o_bulk_id order)"

text \<open>The Redis side of a placed order; \<open>extra\<close> are the fields the bulk operation adds to the hash.\<close>

definition register_order :: "'s redis_ops \<Rightarrow> int \<Rightarrow> order_create_dto \<Rightarrow> (string \<times> hval) list \<Rightarrow> order \<Rightarrow> ('s, unit) world_prog" where
  "register_order R user_id dto extra order =
     (if is_stop_dto dto then register_stop_order R order
      else seqP (redP (enqueue_order_action R (place_payload user_id order)))
          (seqP (redP (add_open_order R user_id (o_symbol order) (o_id order)))
           (redP (store_order_hash R (o_id order) (order_metadata user_id order @ extra)))))"

subsection \<open>Place\<close>

definition place_order :: "'s redis_ops \<Rightarrow> interference \<Rightarrow> int \<Rightarrow> order_create_dto \<Rightarrow> ('s, order) world_prog" where
  "place_order R env user_id dto =
     bindP (validate_and_get_pair (dto_symbol dto)) (\<lambda>pair.
     seqP (liftP (validate_params dto pair))
    (bindP (compute_lock R dto pair) (\<lambda>(lock_asset, lock_amount).
     seqP (if \<not> is_stop_dto dto \<and> 0 < lock_amount
        then bindP (balP (lock_optimistic env user_id lock_asset lock_amount)) (\<lambda>_. retP ()) else retP ())
    (bindP (insert_order user_id dto) (\<lambda>order.
     seqP (register_order R user_id dto [] order) (retP order))))))"

subsection \<open>Cancel\<close>

definition unlock_target :: "order \<Rightarrow> trading_pair \<Rightarrow> string \<times> rat" where
  "unlock_target order pair =
     (if o_side order = SELL then (p_base_asset pair, remaining_quantity order)
      else (p_quote_asset pair, case o_price order of
          Some p \<Rightarrow> remaining_quantity order * p
        | None \<Rightarrow> remaining_quantity order * or0 (o_stop_price order)))"

text \<open>The unlock under \<open>FOR UPDATE\<close>, capped by what is locked.\<close>

definition release_locked :: "int \<Rightarrow> string \<Rightarrow> rat \<Rightarrow> unit balance_prog" where
  "release_locked user_id asset unlock_amount =
     bindP (get_for_update user_id asset) (\<lambda>r. case r of
       None \<Rightarrow> retP ()
     | Some b \<Rightarrow> (let actual_unlock = min unlock_amount (locked_balance b) in
         if 0 < actual_unlock then unlock_pessimistic b actual_unlock else retP ()))"

text \<open>The steps of \<open>cancel_order\<close> after the unlock: the rows, the Redis cleanup, the queued action, the reload.\<close>

definition finish_cancel :: "'s redis_ops \<Rightarrow> int \<Rightarrow> order \<Rightarrow> ('s, order) world_prog" where
  "finish_cancel R user_id order =
     seqP (update_status (o_id order) CANCELED)
    (seqP (cancel_children (o_id order))
    (seqP (if is_stop_type order then
         (if o_type order = TRAILING_STOP then redP (remove_trailing_stop R (o_id order) (o_symbol order))
          else redP (remove_stop_order R (o_id order) (o_symbol order)))
       else bindP (redP (remove_resting_order R (o_id order) (o_symbol order) (side_value (o_side order)))) (\<lambda>removed.
         seqP (redP (delete_order_hash R (o_id order))) (retP removed)))
    (seqP (redP (remove_open_order R user_id (o_symbol order) (o_id order)))
    (seqP (redP (enqueue_order_action R (build_order_action_payload ''cancel'' (o_id order) (o_symbol order) user_id
         (side_value (o_side order)) (type_value (o_type order)) None None None False None None None None None)))
    (seqP (redP (get_book_snapshot R (o_symbol order) 20))
     (bindP (order_get_for_update (o_id order)) (\<lambda>fresh. case fresh of
        None \<Rightarrow> raiseP (RuntimeError ''Could not refresh instance'') | Some r \<Rightarrow> retP r)))))))"

definition cancel_order :: "'s redis_ops \<Rightarrow> int \<Rightarrow> int \<Rightarrow> ('s, order) world_prog" where
  "cancel_order R user_id order_id =
     bindP (get_by_user order_id user_id) (\<lambda>found. case found of
       None \<Rightarrow> raiseP (OrderNotFoundError order_id)
     | Some order \<Rightarrow>
       if \<not> is_active order then raiseP (OrderNotCancelableError order_id)
       else bindP (get_by_symbol (o_symbol order)) (\<lambda>pr. case pr of
         None \<Rightarrow> raiseP AssertionError
       | Some pair \<Rightarrow> (case unlock_target order pair of (unlock_asset, unlock_amount) \<Rightarrow>
         seqP (if \<not> is_stop_type order \<and> 0 < unlock_amount
            then balP (release_locked user_id unlock_asset unlock_amount) else retP ())
          (finish_cancel R user_id order))))"

subsection \<open>Modify\<close>

text \<open>Steps 1 and 2 of \<open>modify_order\<close>: the old lock is released, the new values are checked and locked.\<close>

definition move_lock :: "interference \<Rightarrow> int \<Rightarrow> order \<Rightarrow> trading_pair \<Rightarrow> rat \<Rightarrow> rat \<Rightarrow> ('s, unit) world_prog" where
  "move_lock env user_id old pair new_price new_qty =
     (let old_asset = (if o_side old = SELL then p_base_asset pair else p_quote_asset pair);
          old_amount = (if o_side old = SELL then remaining_quantity old
            else remaining_quantity old * or0 (o_price old));
          new_asset = (if o_side old = SELL then p_base_asset pair else p_quote_asset pair);
          new_amount = (if o_side old = SELL then new_qty else new_price * new_qty) in
      seqP (if 0 < old_amount then bindP (balP (unlock_optimistic env user_id old_asset old_amount)) (\<lambda>_. retP ())
        else retP ())
     (if new_price \<le> 0 then raiseP (OrderValidationError ''new price must be positive'')
      else if new_qty \<le> 0 then raiseP (OrderValidationError ''new quantity must be positive'')
      else if new_qty < p_min_lot_size pair then raiseP (OrderValidationError ''new quantity below min_lot_size'')
      else tryP (bindP (balP (lock_optimistic env user_id new_asset new_amount)) (\<lambda>_. retP ())) (\<lambda>e. case e of
           InsufficientBalanceError u a x y \<Rightarrow> seqP (balP (lock_optimistic env user_id old_asset old_amount)) (raiseP e)
         | _ \<Rightarrow> raiseP e)))"

text \<open>Steps 3 and 4: the rows.\<close>

definition replace_row :: "int \<Rightarrow> order \<Rightarrow> rat \<Rightarrow> rat \<Rightarrow> ('s, order) world_prog" where
  "replace_row user_id old new_price new_qty =
     seqP (update_status (o_id old) CANCELED)
    (bindP (add_order ((new_order user_id (o_symbol old) (o_side old) (o_type old) NEW (Some new_price) None new_qty)
        \<lparr>o_visible_quantity := (if o_type old = ICEBERG then o_visible_quantity old else Some new_qty),
         o_hidden_quantity := (if o_type old = ICEBERG then o_hidden_quantity old else None),
         o_replaces_id := Some (o_id old), o_replace_count := o_replace_count old + 1\<rparr>)) (\<lambda>new.
     seqP (set_order (o_id old) (\<lambda>r. r\<lparr>o_replaced_by_id := Some (o_id new)\<rparr>)) (retP new)))"

text \<open>Steps 5 and 6: Redis.\<close>

definition swap_in_redis :: "'s redis_ops \<Rightarrow> int \<Rightarrow> order \<Rightarrow> order \<Rightarrow> ('s, exn, unit) prog" where
  "swap_in_redis R user_id old new =
     seqP (remove_resting_order R (o_id old) (o_symbol old) (side_value (o_side old)))
    (seqP (delete_order_hash R (o_id old))
    (seqP (remove_open_order R user_id (o_symbol old) (o_id old))
    (seqP (add_open_order R user_id (o_symbol new) (o_id new))
     (store_order_hash R (o_id new) (order_metadata user_id new)))))"

definition modify_payload :: "int \<Rightarrow> order \<Rightarrow> order \<Rightarrow> order_action" where
  "modify_payload user_id old new = build_order_action_payload ''modify'' (o_id new) (o_symbol new) user_id
     (side_value (o_side new)) (type_value (o_type new)) (map_option rnd (truthy (o_price new))) None
     (Some (rnd (o_quantity new))) False None None None (Some (o_id old)) None"

definition modify_order :: "'s redis_ops \<Rightarrow> interference \<Rightarrow> int \<Rightarrow> int \<Rightarrow> rat \<Rightarrow> rat \<Rightarrow> ('s, order) world_prog" where
  "modify_order R env user_id order_id new_price new_qty =
     bindP (order_get_for_update order_id) (\<lambda>found. case found of
       None \<Rightarrow> raiseP (OrderNotFoundError order_id)
     | Some old \<Rightarrow>
       if o_user_id old \<noteq> user_id then raiseP (OrderNotFoundError order_id)
       else if \<not> is_active old then raiseP (OrderNotCancelableError order_id)
       else if o_type old \<notin> {LIMIT, POST_ONLY, ICEBERG} then raiseP (OrderNotCancelableError order_id)
       else bindP (get_by_symbol (o_symbol old)) (\<lambda>pr. case pr of
         None \<Rightarrow> raiseP AssertionError
       | Some pair \<Rightarrow>
           seqP (move_lock env user_id old pair new_price new_qty)
          (bindP (replace_row user_id old new_price new_qty) (\<lambda>new.
           seqP (redP (swap_in_redis R user_id old new))
          (seqP (redP (enqueue_order_action R (modify_payload user_id old new))) (retP new))))))"

subsection \<open>Bulk operations\<close>

text \<open>\<open>lock_requirements\<close> as the list of its items in insertion order.\<close>

fun add_requirement :: "string \<Rightarrow> rat \<Rightarrow> (string \<times> rat) list \<Rightarrow> (string \<times> rat) list" where
  "add_requirement asset amount [] = [(asset, 0 + amount)]"
| "add_requirement asset amount ((a, x) # req) =
     (if a = asset then (a, x + amount) # req else (a, x) # add_requirement asset amount req)"

fun validate_all :: "'s redis_ops \<Rightarrow> order_create_dto list \<Rightarrow> (string \<times> rat) list \<Rightarrow> ('s, (string \<times> rat) list) world_prog" where
  "validate_all R [] req = retP req"
| "validate_all R (dto # dtos) req =
     bindP (validate_and_get_pair (dto_symbol dto)) (\<lambda>pair.
     seqP (liftP (validate_params dto pair))
    (bindP (compute_lock R dto pair) (\<lambda>(lock_asset, lock_amount).
     validate_all R dtos
       (if lock_asset \<noteq> [] \<and> 0 < lock_amount then add_requirement lock_asset lock_amount req else req))))"

text \<open>
  The lock loop over the sorted assets; \<open>locked\<close> are the assets locked so far, which are unlocked again, errors
  ignored, when one of the rest has not enough.
\<close>

fun lock_all :: "interference \<Rightarrow> int \<Rightarrow> (string \<times> rat) list \<Rightarrow> (string \<times> rat) list \<Rightarrow> unit balance_prog" where
  "lock_all env user_id locked [] = retP ()"
| "lock_all env user_id locked ((asset, amount) # rest) =
     seqP (tryP (bindP (lock_optimistic env user_id asset amount) (\<lambda>_. retP ())) (\<lambda>e. case e of
         InsufficientBalanceError u a x y \<Rightarrow>
           seqP (forP locked (\<lambda>(a, x). tryP (bindP (unlock_optimistic env user_id a x) (\<lambda>_. retP ())) (\<lambda>_. retP ())))
             (raiseP e)
       | _ \<Rightarrow> raiseP e))
      (lock_all env user_id (locked @ [(asset, amount)]) rest)"

fun insert_all :: "'s redis_ops \<Rightarrow> int \<Rightarrow> string \<Rightarrow> order_create_dto list \<Rightarrow> ('s, order list) world_prog" where
  "insert_all R user_id bulk_id [] = retP []"
| "insert_all R user_id bulk_id (dto # dtos) =
     bindP (insert_order user_id dto) (\<lambda>order.
     seqP (register_order R user_id dto [(''bulk_id'', HStr bulk_id)] order)
    (bindP (insert_all R user_id bulk_id dtos) (\<lambda>orders. retP (order # orders))))"

definition place_bulk_orders ::
  "'s redis_ops \<Rightarrow> interference \<Rightarrow> string \<Rightarrow> int \<Rightarrow> order_create_dto list \<Rightarrow> string option \<Rightarrow> ('s, order list) world_prog" where
  "place_bulk_orders R env uuid4 user_id dtos bulk_id_opt =
     (if dtos = [] then retP []
      else let bulk_id = (case bulk_id_opt of None \<Rightarrow> uuid4 | Some b \<Rightarrow> if b = [] then uuid4 else b);
               dtos = map (\<lambda>d. d\<lparr>dto_bulk_id := Some bulk_id\<rparr>) dtos in
        bindP (validate_all R dtos []) (\<lambda>req.
        seqP (balP (lock_all env user_id [] (sort_key fst req)))
          (insert_all R user_id bulk_id dtos)))"

text \<open>The cancel loop: an order that is gone or not active is skipped.\<close>

fun cancel_each :: "'s redis_ops \<Rightarrow> int \<Rightarrow> int list \<Rightarrow> ('s, int list) world_prog" where
  "cancel_each R user_id [] = retP []"
| "cancel_each R user_id (oid # oids) =
     bindP (tryP (bindP (cancel_order R user_id oid) (\<lambda>_. retP [oid])) (\<lambda>e. case e of
         OrderNotFoundError i \<Rightarrow> retP []
       | OrderNotCancelableError i \<Rightarrow> retP []
       | _ \<Rightarrow> raiseP e)) (\<lambda>canceled.
     bindP (cancel_each R user_id oids) (\<lambda>rest. retP (canceled @ rest)))"

definition cancel_bulk_orders ::
  "'s redis_ops \<Rightarrow> int \<Rightarrow> int list option \<Rightarrow> string option \<Rightarrow> bool \<Rightarrow> ('s, int list) world_prog" where
  "cancel_bulk_orders R user_id order_ids symbol cancel_all =
     bindP (if cancel_all then
         (case symbol of Some (c # cs) \<Rightarrow> redP (get_user_open_orders_for_symbol R user_id (c # cs))
          | _ \<Rightarrow> redP (get_user_open_orders R user_id))
       else retP (case order_ids of None \<Rightarrow> [] | Some ids \<Rightarrow> ids)) (\<lambda>ids_to_cancel.
     if ids_to_cancel = [] then retP [] else cancel_each R user_id ids_to_cancel)"

definition list_orders ::
  "int \<Rightarrow> string option \<Rightarrow> order_status list option \<Rightarrow> nat \<Rightarrow> nat \<Rightarrow> ('s, order list) world_prog" where
  "list_orders user_id symbol statuses offset limit = list_user_orders user_id symbol statuses offset limit"

subsection \<open>What placing an order does\<close>

lemma reads_validate: "reads (validate_and_get_pair symbol)"
  unfolding validate_and_get_pair_def get_by_symbol_def by (intro readsI preserves_intros)

lemma reads_compute_lock: "reads (compute_lock R dto pair)"
  unfolding compute_lock_def compute_market_buy_lock_def
  by (intro readsI preserves_intros reads_preserves [OF reads_redP [OF reads_get_opposite]])

lemma sltp_child_result:
  "create_sltp_child u cfg parent w = (r, w1) \<Longrightarrow> case r of
     Inl e \<Rightarrow> w1 = w
   | Inr child \<Rightarrow> w1 = w\<lparr>w_orders := w_orders w @ [store_order child], w_next_order := w_next_order w + 1\<rparr> \<and>
       o_id child = w_next_order w \<and> o_parent_order_id child = Some (o_id parent) \<and> o_status child = PENDING"
  by (auto simp: create_sltp_child_def add_order_def bindP_def liftP_def new_order_def Let_def split: sum.splits)

text \<open>
  Inserting an order appends its row, with the next key, and the rows of its children behind it; nothing else of
  the state changes.
\<close>

definition inserted :: "int \<Rightarrow> order_create_dto \<Rightarrow> order \<Rightarrow> 's world \<Rightarrow> 's world \<Rightarrow> bool" where
  "inserted u dto order w w1 \<longleftrightarrow> (\<exists>row kids. order_of_dto u dto = Inr row \<and>
     order = row\<lparr>o_id := w_next_order w, o_sl_order_id := o_sl_order_id order, o_tp_order_id := o_tp_order_id order\<rparr> \<and>
     w1 = w\<lparr>w_orders := map (\<lambda>r. if o_id r = o_id order
         then store_order (r\<lparr>o_sl_order_id := o_sl_order_id order, o_tp_order_id := o_tp_order_id order\<rparr>) else r)
         (w_orders w @ store_order (row\<lparr>o_id := o_id order\<rparr>) # kids),
       w_next_order := w_next_order w + 1 + int (length kids)\<rparr> \<and>
     (\<forall>c\<in>set kids. o_id order < o_id c \<and> o_id c < w_next_order w1 \<and>
        o_parent_order_id c = Some (o_id order) \<and> o_status c = PENDING))"

lemma maybe_child:
  assumes "(case c of None \<Rightarrow> retP o0 | Some config \<Rightarrow> bindP (create_sltp_child u config parent) (\<lambda>k. retP (f k))) w = (Inr o1, w1)"
  shows "\<exists>kids. w1 = w\<lparr>w_orders := w_orders w @ kids, w_next_order := w_next_order w + int (length kids)\<rparr> \<and>
    (\<forall>k\<in>set kids. w_next_order w \<le> o_id k \<and> o_id k < w_next_order w1 \<and>
      o_parent_order_id k = Some (o_id parent) \<and> o_status k = PENDING) \<and> (o1 = o0 \<or> (\<exists>k. o1 = f k))"
proof (cases c)
  case None
  then show ?thesis using assms by (auto simp: retP_eq intro: exI [of _ "[]"])
next
  case (Some config)
  then obtain k where k: "create_sltp_child u config parent w = (Inr k, w1)" "o1 = f k"
    using assms by (auto simp: run_steps)
  from sltp_child_result [OF k(1)] show ?thesis using k(2) by (auto intro!: exI [of _ "[store_order k]"])
qed

lemma insert_order_result:
  assumes "insert_order u dto w = (Inr order, w1)"
  shows "inserted u dto order w w1"
proof -
  from assms obtain row o1 o2 wa wb wc where row: "order_of_dto u dto = Inr row" and a: "add_order row w = (Inr o1, wa)"
    and sl: "(case dto_sl dto of None \<Rightarrow> retP o1 | Some config \<Rightarrow>
        bindP (create_sltp_child u config o1) (\<lambda>sl. retP (o1\<lparr>o_sl_order_id := Some (o_id sl)\<rparr>))) wa = (Inr o2, wb)"
    and tp: "(case dto_tp dto of None \<Rightarrow> retP o2 | Some config \<Rightarrow>
        bindP (create_sltp_child u config o2) (\<lambda>tp. retP (o2\<lparr>o_tp_order_id := Some (o_id tp)\<rparr>))) wb = (Inr order, wc)"
    and fin: "set_order (o_id order) (\<lambda>r. r\<lparr>o_sl_order_id := o_sl_order_id order, o_tp_order_id := o_tp_order_id order\<rparr>) wc
      = (Inr (), w1)"
    by (auto simp: insert_order_def run_steps)
  from maybe_child [OF sl] obtain k1 where k1: "wb = wa\<lparr>w_orders := w_orders wa @ k1, w_next_order := w_next_order wa + int (length k1)\<rparr>"
    "\<forall>k\<in>set k1. w_next_order wa \<le> o_id k \<and> o_id k < w_next_order wb \<and> o_parent_order_id k = Some (o_id o1) \<and> o_status k = PENDING"
    "o2 = o1 \<or> (\<exists>k :: order. o2 = o1\<lparr>o_sl_order_id := Some (o_id k)\<rparr>)" by blast
  from maybe_child [OF tp] obtain k2 where k2: "wc = wb\<lparr>w_orders := w_orders wb @ k2, w_next_order := w_next_order wb + int (length k2)\<rparr>"
    "\<forall>k\<in>set k2. w_next_order wb \<le> o_id k \<and> o_id k < w_next_order wc \<and> o_parent_order_id k = Some (o_id o2) \<and> o_status k = PENDING"
    "order = o2 \<or> (\<exists>k :: order. order = o2\<lparr>o_tp_order_id := Some (o_id k)\<rparr>)" by blast
  have o1: "o1 = row\<lparr>o_id := w_next_order w\<rparr>" "wa = w\<lparr>w_orders := w_orders w @ [store_order o1], w_next_order := w_next_order w + 1\<rparr>"
    using a by (auto simp: add_order_def Let_def)
  have ids: "o_id o2 = o_id o1" "o_id order = o_id o1"
    "order = o1\<lparr>o_sl_order_id := o_sl_order_id order, o_tp_order_id := o_tp_order_id order\<rparr>"
    using k1(3) k2(3) by auto
  have w1: "w1 = wc\<lparr>w_orders := map (\<lambda>r. if o_id r = o_id order
      then store_order (r\<lparr>o_sl_order_id := o_sl_order_id order, o_tp_order_id := o_tp_order_id order\<rparr>) else r) (w_orders wc)\<rparr>"
    using fin by (auto simp: set_order_def update_orders_def run_steps)
  show ?thesis
    unfolding inserted_def
    by (rule exI [of _ row], rule exI [of _ "k1 @ k2"]) (use row w1 k1(1,2) k2(1,2) o1 ids in auto)
qed

lemma inserted_frame:
  assumes "inserted u dto order w w1"
  shows "w_balances w1 = w_balances w" "w_redis w1 = w_redis w" "w_pairs w1 = w_pairs w" "w_trade_rows w1 = w_trade_rows w"
proof -
  from assms obtain os n where "w1 = w\<lparr>w_orders := os, w_next_order := n\<rparr>" unfolding inserted_def by blast
  then show "w_balances w1 = w_balances w" "w_redis w1 = w_redis w" "w_pairs w1 = w_pairs w" "w_trade_rows w1 = w_trade_rows w" by simp_all
qed

lemma inserted_order:
  assumes "inserted u dto order w w1"
  obtains row where "order_of_dto u dto = Inr row" and "o_id order = w_next_order w" and "o_user_id order = u"
    and "o_symbol order = dto_symbol dto" and "o_side order = o_side row" and "o_type order = o_type row"
    and "o_status order = (if is_stop_dto dto then PENDING else NEW)" and "o_price order = dto_price dto"
    and "o_stop_price order = dto_stop_price dto" and "o_quantity order = dto_quantity dto" and "o_filled_quantity order = 0"
    and "o_parent_order_id order = None"
proof -
  from assms obtain row where row: "order_of_dto u dto = Inr row" and eq: "order =
      row\<lparr>o_id := w_next_order w, o_sl_order_id := o_sl_order_id order, o_tp_order_id := o_tp_order_id order\<rparr>"
    by (auto simp: inserted_def)
  have f: "o_user_id row = u" "o_symbol row = dto_symbol dto" "o_price row = dto_price dto"
    "o_status row = (if is_stop_dto dto then PENDING else NEW)" "o_stop_price row = dto_stop_price dto"
    "o_quantity row = dto_quantity dto" "o_filled_quantity row = 0" "o_parent_order_id row = None"
    using row by (auto simp: order_of_dto_def bind_result_Inr new_order_def)
  show thesis by (rule that [OF row]; subst eq; simp add: f)
qed

lemmas redis_op_defs = add_open_order_def remove_open_order_def store_order_hash_def delete_order_hash_def
  enqueue_order_action_def add_stop_order_def register_trailing_stop_def remove_stop_order_def remove_trailing_stop_def

context redis_server
begin

lemma hset_some: "\<exists>s1. (if flat = [] then retP () else modP (r_hset R k flat)) s = (Inr (), s1) \<and>
    lists (view s1) = lists (view s) \<and> zsets (view s1) = zsets (view s)"
  by (simp add: prog_defs view_after)

lemma store_hash_runs: "\<exists>s1. store_order_hash R i md s = (Inr (), s1) \<and>
    lists (view s1) = lists (view s) \<and> zsets (view s1) = zsets (view s)"
  unfolding store_order_hash_def Let_def by (rule hset_some)

lemma add_open_runs: "\<exists>s1. add_open_order R u symbol i s = (Inr (), s1) \<and>
    lists (view s1) = lists (view s) \<and> zsets (view s1) = zsets (view s)"
  by (simp add: add_open_order_def prog_defs view_after)

lemma register_stop_runs: "\<exists>s1. register_stop_order R order w = (Inr (), w\<lparr>w_redis := s1\<rparr>) \<and>
    lists (view s1) = lists (view (w_redis w))"
proof -
  have "\<exists>s1. (if o_type order = TRAILING_STOP
        then redP (register_trailing_stop R (o_id order) (o_symbol order) (side_value (o_side order)) ''abs''
               (or0 (o_trailing_delta order)) (or0 (o_stop_price order)) (or0 (o_stop_price order)))
        else redP (add_stop_order R (o_id order) (o_symbol order) (or0 (o_stop_price order)))) w = (Inr (), w\<lparr>w_redis := s1\<rparr>)
      \<and> lists (view s1) = lists (view (w_redis w))"
    by (cases "o_type order = TRAILING_STOP")
      (auto simp: redP_def register_trailing_stop_def add_stop_order_def prog_defs view_after intro!: exI)
  then obtain s1 where s1: "(if o_type order = TRAILING_STOP
        then redP (register_trailing_stop R (o_id order) (o_symbol order) (side_value (o_side order)) ''abs''
               (or0 (o_trailing_delta order)) (or0 (o_stop_price order)) (or0 (o_stop_price order)))
        else redP (add_stop_order R (o_id order) (o_symbol order) (or0 (o_stop_price order)))) w = (Inr (), w\<lparr>w_redis := s1\<rparr>)"
      "lists (view s1) = lists (view (w_redis w))" by blast
  obtain s2 where s2: "add_open_order R (o_user_id order) (o_symbol order) (o_id order) s1 = (Inr (), s2)"
      "lists (view s2) = lists (view s1)" using add_open_runs by blast
  let ?md = "[(''order_id'', h_int (o_id order)), (''user_id'', h_int (o_user_id order)), (''symbol'', HStr (o_symbol order)),
        (''side'', HStr (side_value (o_side order))), (''type'', HStr (type_value (o_type order))),
        (''stop_price'', h_opt (truthy (o_stop_price order))), (''quantity'', HNum (o_quantity order)), (''is_iceberg'', HStr ''0'')]"
  obtain s3 where s3: "store_order_hash R (o_id order) ?md s2 = (Inr (), s3)" "lists (view s3) = lists (view s2)"
    using store_hash_runs by blast
  show ?thesis unfolding register_stop_order_def
    using s1 s2 s3 by (intro exI [of _ s3]) (simp add: seqP_def bindP_def s1(1) redP_run)
qed

text \<open>Registering never fails and, unless the order waits for a trigger, queues exactly its place action.\<close>

lemma register_order_runs:
  "\<exists>s1. register_order R u dto extra order w = (Inr (), w\<lparr>w_redis := s1\<rparr>) \<and>
    lists (view s1) ORDERS_QUEUE =
      (if is_stop_dto dto then [] else [Action (place_payload u order)]) @ lists (view (w_redis w)) ORDERS_QUEUE"
proof (cases "is_stop_dto dto")
  case True
  then show ?thesis using register_stop_runs [of order w] by (auto simp: register_order_def)
next
  case False
  let ?s = "r_lpush R ORDERS_QUEUE (Action (place_payload u order)) (w_redis w)"
  obtain s2 where s2: "add_open_order R u (o_symbol order) (o_id order) ?s = (Inr (), s2)"
    "lists (view s2) = lists (view ?s)" using add_open_runs by blast
  obtain s3 where s3: "store_order_hash R (o_id order) (order_metadata u order @ extra) s2 = (Inr (), s3)"
    "lists (view s3) = lists (view s2)" using store_hash_runs by blast
  show ?thesis using False s2 s3
    by (intro exI [of _ s3])
      (simp add: register_order_def seqP_def bindP_def redP_def enqueue_order_action_def modP_def view_after)
qed

end

lemma place_order_steps:
  assumes "place_order R env u dto w = (Inr order, w1)"
  obtains pair asset amount w2 w3 where "validate_and_get_pair (dto_symbol dto) w = (Inr pair, w)"
    and "validate_params dto pair = Inr ()"
    and "compute_lock R dto pair w = (Inr (asset, amount), w)"
    and "(if \<not> is_stop_dto dto \<and> 0 < amount then bindP (balP (lock_optimistic env u asset amount)) (\<lambda>_. retP ()) else retP ()) w
      = (Inr (), w2)"
    and "insert_order u dto w2 = (Inr order, w3)" and "register_order R u dto [] order w3 = (Inr (), w1)"
proof -
  from assms show thesis
    by (auto simp: place_order_def run_steps dest: readsD [OF reads_validate] readsD [OF reads_compute_lock]
        intro!: that)
qed

text \<open>
  C7. An order that \<open>place_order\<close> accepts has locked exactly the computed amount, nothing when it waits for a
  trigger: the amount moved from the available to the locked part of one balance that covered it, no other balance
  changed, the order got the next key, and exactly its place action was added to the end of the queue, nothing for
  a stop order.
\<close>

theorem place_order_locks:
  assumes "redis_server R view" and "place_order R quiet u dto w = (Inr order, w1)"
  shows "\<exists>pair asset amount. compute_lock R dto pair w = (Inr (asset, amount), w) \<and>
    find (\<lambda>p. p_symbol p = dto_symbol dto) (w_pairs w) = Some pair \<and> validate_params dto pair = Inr () \<and>
    (if is_stop_dto dto \<or> amount \<le> 0 then w_balances w1 = w_balances w
     else \<exists>b. w_balances w (u, asset) = Some b \<and> amount \<le> available_balance b \<and>
       w_balances w1 = (w_balances w)((u, asset) \<mapsto> b\<lparr>locked_balance := numeric18 (locked_balance b + amount),
         available_balance := numeric18 (available_balance b - amount), b_version := b_version b + 1\<rparr>)) \<and>
    o_id order = w_next_order w \<and> o_user_id order = u \<and> o_symbol order = dto_symbol dto \<and> o_quantity order = dto_quantity dto \<and>
    o_status order = (if is_stop_dto dto then PENDING else NEW) \<and>
    lists (view (w_redis w1)) ORDERS_QUEUE =
      (if is_stop_dto dto then [] else [Action (place_payload u order)]) @ lists (view (w_redis w)) ORDERS_QUEUE"
proof -
  from assms(2) obtain pair asset amount w2 w3 where v: "validate_and_get_pair (dto_symbol dto) w = (Inr pair, w)"
    "validate_params dto pair = Inr ()" and c: "compute_lock R dto pair w = (Inr (asset, amount), w)"
    and l: "(if \<not> is_stop_dto dto \<and> 0 < amount then bindP (balP (lock_optimistic quiet u asset amount)) (\<lambda>_. retP ()) else retP ()) w
      = (Inr (), w2)"
    and i: "insert_order u dto w2 = (Inr order, w3)" and r: "register_order R u dto [] order w3 = (Inr (), w1)"
    by (rule place_order_steps)
  have p: "find (\<lambda>p. p_symbol p = dto_symbol dto) (w_pairs w) = Some pair"
    using v(1) by (auto simp: validate_and_get_pair_def get_by_symbol_def run_steps split: option.splits if_splits)
  from insert_order_result [OF i] have ins: "w_balances w3 = w_balances w2" "w_redis w3 = w_redis w2" by (rule inserted_frame)+
  from inserted_order [OF insert_order_result [OF i]] have row: "o_id order = w_next_order w2" "o_user_id order = u" "o_symbol order = dto_symbol dto" "o_quantity order = dto_quantity dto"
    "o_status order = (if is_stop_dto dto then PENDING else NEW)"
    by blast+
  from redis_server.register_order_runs [OF assms(1), of u dto "[]" order w3] r
  have reg: "w_balances w1 = w_balances w3" "lists (view (w_redis w1)) ORDERS_QUEUE =
      (if is_stop_dto dto then [] else [Action (place_payload u order)]) @ lists (view (w_redis w3)) ORDERS_QUEUE"
    by auto
  have l2: "w_redis w2 = w_redis w" "w_next_order w2 = w_next_order w"
    "if is_stop_dto dto \<or> amount \<le> 0 then w_balances w2 = w_balances w
     else \<exists>b. w_balances w (u, asset) = Some b \<and> amount \<le> available_balance b \<and>
       w_balances w2 = (w_balances w)((u, asset) \<mapsto> b\<lparr>locked_balance := numeric18 (locked_balance b + amount),
         available_balance := numeric18 (available_balance b - amount), b_version := b_version b + 1\<rparr>)"
    using l
    by (auto simp: run_steps balP_def lock_optimistic_quiet split: if_splits option.splits prod.splits)
  show ?thesis
    using c p v(2) ins row reg l2 by (intro exI [of _ pair] exI [of _ asset] exI [of _ amount]) simp
qed

subsection \<open>An example order\<close>

definition limit_buy :: "rat \<Rightarrow> rat \<Rightarrow> order_create_dto" where
  "limit_buy price quantity = \<lparr>dto_symbol = ''BTC/USDT'', dto_side = ''buy'', dto_type = ''limit'', dto_price = Some price,
     dto_stop_price = None, dto_trailing_delta = None, dto_quantity = quantity, dto_visible_quantity = None,
     dto_hidden_quantity = None, dto_sl = None, dto_tp = None, dto_bulk_id = None\<rparr>"

lemma limit_buy_facts:
  "\<not> is_stop_dto (limit_buy p q)" "dto_type (limit_buy p q) = ''limit''" "dto_symbol (limit_buy p q) = ''BTC/USDT''"
  "dto_quantity (limit_buy p q) = q" "dto_price (limit_buy p q) = Some p" "dto_sl (limit_buy p q) = None" "dto_tp (limit_buy p q) = None"
  "compute_lock R (limit_buy p q) btc_usdt w = (Inr (''USDT'', p * q), w)"
  "is_ok (order_of_dto u (limit_buy p q))"
  by (simp_all add: limit_buy_def is_stop_dto_def stop_names_def compute_lock_def compute_lock_asset_and_amount_def
      resting_names_def liftP_def btc_usdt_def order_of_dto_def OrderSide_def OrderType_def all_sides_def all_types_def)

text \<open>A plain order whose checks pass and whose amount is available is placed.\<close>

lemma place_order_succeeds:
  assumes "redis_server R view" and "find (\<lambda>p. p_symbol p = dto_symbol dto) (w_pairs w) = Some pair" and "p_is_active pair"
    and "validate_params dto pair = Inr ()" and "compute_lock R dto pair w = (Inr (asset, amount), w)"
    and "\<not> is_stop_dto dto" and "dto_sl dto = None" and "dto_tp dto = None" and "is_ok (order_of_dto u dto)"
    and "0 < amount" and "w_balances w (u, asset) = Some b" and "amount \<le> available_balance b"
  obtains order w1 where "place_order R quiet u dto w = (Inr order, w1)" and "o_id order = w_next_order w"
    and "zsets (view (w_redis w1)) = zsets (view (w_redis w))" and "o_symbol order = dto_symbol dto"
proof -
  from assms(9) obtain row where row: "order_of_dto u dto = Inr row" by (auto simp: is_ok_iff)
  let ?t = "(w_balances w)((u, asset) \<mapsto> b\<lparr>locked_balance := numeric18 (locked_balance b + amount),
         available_balance := numeric18 (available_balance b - amount), b_version := b_version b + 1\<rparr>)"
  have lock: "balP (lock_optimistic quiet u asset amount) w = (Inr b, w\<lparr>w_balances := ?t\<rparr>)"
    using assms(10-12) by (simp add: balP_def lock_optimistic_quiet)
  have "is_ok (fst (insert_order u dto (w\<lparr>w_balances := ?t\<rparr>)))"
    using assms(7,8) row by (simp add: insert_order_def prog_defs liftP_def add_order_def set_order_def update_orders_def Let_def)
  then obtain order w2 where ins: "insert_order u dto (w\<lparr>w_balances := ?t\<rparr>) = (Inr order, w2)"
    by (rule is_ok_runE)
  note f = insert_order_result [OF ins]
  have same: "w_redis w2 = w_redis w" "o_id order = w_next_order w" "o_symbol order = dto_symbol dto"
    using inserted_frame [OF f] inserted_order [OF f] by auto
  let ?s = "r_lpush R ORDERS_QUEUE (Action (place_payload u order)) (w_redis w2)"
  obtain s2 where s2: "add_open_order R u (o_symbol order) (o_id order) ?s = (Inr (), s2)" "zsets (view s2) = zsets (view ?s)"
    using redis_server.add_open_runs [OF assms(1)] by blast
  obtain s3 where s3: "store_order_hash R (o_id order) (order_metadata u order @ []) s2 = (Inr (), s3)" "zsets (view s3) = zsets (view s2)"
    using redis_server.store_hash_runs [OF assms(1)] by blast
  have "register_order R u dto [] order w2 = (Inr (), w2\<lparr>w_redis := s3\<rparr>)"
    using assms(6) s2(1) s3(1) by (simp add: register_order_def seqP_def bindP_def redP_def enqueue_order_action_def modP_def)
  then have "place_order R quiet u dto w = (Inr order, w2\<lparr>w_redis := s3\<rparr>)"
    using assms(2-6,10) lock ins
    by (simp add: place_order_def validate_and_get_pair_def get_by_symbol_def prog_defs liftP_def)
  moreover have "zsets (view s3) = zsets (view (w_redis w))"
    using s2(2) s3(2) same(1) by (simp add: redis_server.lpush [OF assms(1)])
  ultimately show thesis using that same by simp
qed

theorem place_order_locks_witness:
  "(let w = market [(1, ''USDT'') \<mapsto> funds 1 ''USDT'' 0 1000] [] empty_redis;
        (r, w1) = place_order mem_redis quiet 1 (limit_buy 100 3) w in
     \<exists>order. r = Inr order \<and> o_id order = 1 \<and>
       map_option locked_balance (w_balances w1 (1, ''USDT'')) = Some 300 \<and>
       lists (mem_view (w_redis w1)) ORDERS_QUEUE = [Action (place_payload 1 order)])"
proof -
  let ?w = "market [(1, ''USDT'') \<mapsto> funds 1 ''USDT'' 0 1000] [] empty_redis"
  have v: "validate_params (limit_buy 100 3) btc_usdt = Inr ()" by code_simp
  obtain order w1 where o: "place_order mem_redis quiet 1 (limit_buy 100 3) ?w = (Inr order, w1)"
    by (rule place_order_succeeds [OF mem.redis_server_axioms, where dto = "limit_buy 100 3" and w = ?w and u = 1,
          of btc_usdt "''USDT''" 300 "funds 1 ''USDT'' 0 1000"])
      (simp_all add: limit_buy_facts market_facts v funds_def)
  from place_order_locks [OF mem.redis_server_axioms o]
  have "o_id order = 1" "lists (mem_view (w_redis w1)) ORDERS_QUEUE = [Action (place_payload 1 order)]"
    "map_option locked_balance (w_balances w1 (1, ''USDT'')) = Some 300"
    by (auto simp: limit_buy_facts market_facts funds_def mem_view_def empty_redis_def)
  then show ?thesis unfolding Let_def o by simp
qed

subsection \<open>Placing and canceling\<close>

lemma find_inserted:
  assumes "inserted u dto order w w1" and "keys_fresh w"
  shows "find (\<lambda>r. o_id r = o_id order \<and> o_user_id r = u) (w_orders w1) = Some (store_order order)"
    and "keys_fresh w1" and "w_pairs w1 = w_pairs w"
proof -
  from assms(1) obtain row kids where row: "order_of_dto u dto = Inr row"
    and eq: "order = row\<lparr>o_id := w_next_order w, o_sl_order_id := o_sl_order_id order, o_tp_order_id := o_tp_order_id order\<rparr>"
    and w1: "w1 = w\<lparr>w_orders := map (\<lambda>r. if o_id r = o_id order
         then store_order (r\<lparr>o_sl_order_id := o_sl_order_id order, o_tp_order_id := o_tp_order_id order\<rparr>) else r)
         (w_orders w @ store_order (row\<lparr>o_id := o_id order\<rparr>) # kids),
       w_next_order := w_next_order w + 1 + int (length kids)\<rparr>"
    and kids: "\<forall>c\<in>set kids. o_id order < o_id c \<and> o_id c < w_next_order w1"
    unfolding inserted_def by blast
  have id: "o_id order = w_next_order w" by (subst eq) simp
  have user: "o_user_id row = u" using row by (auto simp: order_of_dto_def bind_result_Inr new_order_def)
  have user2: "o_user_id order = u" by (subst eq) (simp add: user)
  let ?f = "\<lambda>r. if o_id r = o_id order
         then store_order (r\<lparr>o_sl_order_id := o_sl_order_id order, o_tp_order_id := o_tp_order_id order\<rparr>) else r"
  have "find (\<lambda>r. o_id r = o_id order \<and> o_user_id r = u) (map ?f (w_orders w)) = None"
    using assms(2) id by (auto simp: find_None_iff_all keys_fresh_def)
  moreover have "?f (store_order (row\<lparr>o_id := o_id order\<rparr>)) = store_order order"
    unfolding arg_cong [OF eq, of store_order] by (simp add: store_order_def id option.map_comp comp_def)
  ultimately show "find (\<lambda>r. o_id r = o_id order \<and> o_user_id r = u) (w_orders w1) = Some (store_order order)"
    using user user2 by (simp add: w1 find_app)
  show "keys_fresh w1" using assms(2) kids id by (auto simp: keys_fresh_def w1)
  show "w_pairs w1 = w_pairs w" by (simp add: w1)
qed

lemma finish_cancel_frame:
  assumes "\<And>w os. I w \<Longrightarrow> I (w\<lparr>w_orders := os\<rparr>)" and "\<And>w t. I w \<Longrightarrow> I (w\<lparr>w_redis := t\<rparr>)"
  shows "preserves I (finish_cancel R u order)"
  unfolding finish_cancel_def update_status_def cancel_children_def order_get_for_update_def
  by (intro preserves_intros preserves_update_orders preserves_redP assms)

text \<open>The reloaded row is the order's own row, marked as canceled.\<close>

lemma finish_cancel_result:
  assumes "finish_cancel R u order w = (Inr r, w1)" and "find (\<lambda>r. o_id r = o_id order) (w_orders w) = Some row"
  shows "o_status r = CANCELED" and "o_id r = o_id order" and "find (\<lambda>r. o_id r = o_id order) (w_orders w1) = Some r"
proof -
  let ?f = "\<lambda>r. if o_id r = o_id order then store_order (r\<lparr>o_status := CANCELED, o_version := o_version r + 1\<rparr>) else r"
  let ?g = "\<lambda>r. if o_parent_order_id r = Some (o_id order) \<and> o_status r \<in> {PENDING, NEW, PARTIALLY_FILLED}
    then store_order (r\<lparr>o_status := CANCELED, o_version := o_version r + 1\<rparr>) else r"
  have "w_orders w1 = map ?g (map ?f (w_orders w)) \<and> find (\<lambda>r. o_id r = o_id order) (w_orders w1) = Some r"
    using assms(1)
    by (auto simp: finish_cancel_def run_steps update_status_def cancel_children_def update_orders_def
        order_get_for_update_def split: option.splits if_splits dest!: redP_orders)
  moreover have "find (\<lambda>r. o_id r = o_id order) (map ?g (map ?f (w_orders w))) = Some (?g (?f row))"
    using assms(2) by (simp add: find_map_upd comp_def)
  moreover have "o_id row = o_id order" using assms(2) by (auto simp: find_Some_iff)
  ultimately show "o_status r = CANCELED" "o_id r = o_id order" "find (\<lambda>r. o_id r = o_id order) (w_orders w1) = Some r"
    by auto
qed

lemma release_runs:
  assumes "t (u, a) = Some b" and "row_ok (u, a) b" and "0 < x" and "dec18 x" and "x \<le> locked_balance b"
  shows "release_locked u a x t = (Inr (), t((u, a) \<mapsto> b\<lparr>locked_balance := locked_balance b - x,
    available_balance := available_balance b + x, b_version := b_version b + 1\<rparr>))"
proof -
  let ?b = "b\<lparr>locked_balance := locked_balance b - x, available_balance := available_balance b + x, b_version := b_version b + 1\<rparr>"
  have "row_ok (u, a) ?b" using assms(2,3,4,5) by (auto simp: row_ok_def balance_ok_def)
  moreover have "repo_unlock_pessimistic b x = Inr ?b"
    using assms(2,3,5) by (auto simp: repo_unlock_pessimistic_def check_invariant_def row_ok_def balance_ok_def)
  ultimately show ?thesis
    using assms(1,3,5)
    by (simp add: release_locked_def get_for_update_def prog_defs Let_def unlock_pessimistic_def flush_row_def
        store_row [of "(u, a)"] min_absorb1)
qed

text \<open>Two ledgers that differ in the row versions only.\<close>

definition same_funds :: "balance_tbl \<Rightarrow> balance_tbl \<Rightarrow> bool" where
  "same_funds t t' \<longleftrightarrow> (\<forall>k. map_option (\<lambda>b. b\<lparr>b_version := 0\<rparr>) (t k) = map_option (\<lambda>b. b\<lparr>b_version := 0\<rparr>) (t' k))"

lemma lock_then_release:
  assumes "ledger_ok t" and "lock_optimistic quiet u a x t = (Inr b, t1)" and "dec18 x" and "0 < x"
    and "release_locked u a x t1 = (Inr (), t2)"
  shows "same_funds t t2"
proof -
  have b: "t (u, a) = Some b" "x \<le> available_balance b" and t1: "t1 = t((u, a) \<mapsto> b\<lparr>locked_balance := numeric18 (locked_balance b + x),
         available_balance := numeric18 (available_balance b - x), b_version := b_version b + 1\<rparr>)"
    using assms(2,4) by (auto simp: lock_optimistic_quiet split: option.splits if_splits)
  have row: "row_ok (u, a) b" using ledger_okD [OF assms(1) b(1)] .
  have d: "dec18 (locked_balance b + x)" "dec18 (available_balance b - x)" using row assms(3) by (auto simp: row_ok_def)
  let ?b = "b\<lparr>locked_balance := locked_balance b + x, available_balance := available_balance b - x, b_version := b_version b + 1\<rparr>"
  have row1: "row_ok (u, a) ?b" using row b(2) assms(3,4) d by (auto simp: row_ok_def balance_ok_def)
  have "t1 (u, a) = Some ?b" using t1 d by simp
  from release_runs [of t1 u a ?b x, OF this row1 assms(4,3)] have "t2 = t1((u, a) \<mapsto> ?b\<lparr>locked_balance := locked_balance ?b - x,
    available_balance := available_balance ?b + x, b_version := b_version ?b + 1\<rparr>)"
    using assms(5) row by (auto simp: row_ok_def balance_ok_def)
  then show ?thesis using b(1) t1 by (simp add: same_funds_def)
qed

lemma order_of_dto_lock:
  assumes "order_of_dto u dto = Inr row" and "validate_params dto pair = Inr ()"
    and "compute_lock_asset_and_amount dto pair = Inr (asset, amount)" and "\<not> is_stop_dto dto"
    and "\<not> (dto_type dto = ''market'' \<and> dto_side dto = ''buy'')"
  shows "0 < amount" and "\<not> is_stop_type row" and "o_side row = SELL \<longleftrightarrow> dto_side dto = ''sell''"
    and "unlock_target row pair = (asset, amount)"
proof -
  have side: "o_side row = SELL \<longleftrightarrow> dto_side dto = ''sell''"
    using assms(1,2) by (auto simp: order_of_dto_def bind_result_Inr OrderSide_def all_sides_def new_order_def validate_params_def
        split: if_splits)
  then show "o_side row = SELL \<longleftrightarrow> dto_side dto = ''sell''" .
  have tp: "OrderType (dto_type dto) = Inr (o_type row)" "o_price row = dto_price dto" "remaining_quantity row = dto_quantity dto"
    using assms(1) by (auto simp: order_of_dto_def bind_result_Inr new_order_def remaining_quantity_def)
  have name: "dto_type dto = type_value (o_type row)"
    using tp(1) by (auto simp: OrderType_def split: option.splits dest: find_SomeD)
  show "\<not> is_stop_type row"
    using assms(4) unfolding is_stop_dto_def name by (cases "o_type row") (auto simp: is_stop_type_def stop_type_def stop_names_def)
  have q: "0 < dto_quantity dto" "dto_side dto = ''sell'' \<or> dto_side dto = ''buy''" "dto_price dto = Some p \<Longrightarrow> 0 < p" for p
    using assms(2) by (auto simp: validate_params_def split: if_splits)
  have buy: "dto_side dto \<noteq> ''sell'' \<Longrightarrow> dto_type dto \<in> set resting_names"
    using assms(4,5) q(2) unfolding name is_stop_dto_def by (cases "o_type row") (auto simp: resting_names_def stop_names_def)
  show "0 < amount" "unlock_target row pair = (asset, amount)"
    using assms(3,4) q buy side tp(2,3)
    by (auto simp: compute_lock_asset_and_amount_def unlock_target_def mult.commute split: if_splits option.splits)
qed

lemma register_order_frame:
  assumes "\<And>w t. I w \<Longrightarrow> I (w\<lparr>w_redis := t\<rparr>)"
  shows "preserves I (register_order R u dto extra order)"
  unfolding register_order_def register_stop_order_def by (intro preserves_intros preserves_redP assms)

lemma unlock_target_stored:
  assumes "o_side order = o_side row" "o_price order = o_price row" "o_stop_price order = o_stop_price row"
    "o_quantity order = o_quantity row" "o_filled_quantity order = o_filled_quantity row"
    and "dec18 (o_quantity row)" "dec18 (o_filled_quantity row)" "\<forall>p. o_price row = Some p \<longrightarrow> dec18 p" "o_side row = SELL \<or> o_price row \<noteq> None"
  shows "unlock_target (store_order order) pair = unlock_target row pair"
  using assms by (auto simp: unlock_target_def store_order_def remaining_quantity_def split: option.splits)

lemma cancel_order_steps:
  assumes "cancel_order R u i w = (Inr r, w2)" and "find (\<lambda>r. o_id r = i \<and> o_user_id r = u) (w_orders w) = Some order"
    and "find (\<lambda>p. p_symbol p = o_symbol order) (w_pairs w) = Some pair" and "unlock_target order pair = (asset, amount)"
    and "\<not> is_stop_type order" and "0 < amount"
  obtains w1 where "balP (release_locked u asset amount) w = (Inr (), w1)" and "finish_cancel R u order w1 = (Inr r, w2)"
  using assms by (auto simp: cancel_order_def get_by_user_def get_by_symbol_def run_steps split: if_splits)

text \<open>What a freshly placed plain order looks like to a cancel.\<close>

lemma placed_order_open:
  assumes "keys_fresh w" and "\<not> is_stop_dto dto"
    and "\<not> (dto_type dto = ''market'' \<and> dto_side dto = ''buy'')" and "dec18 (dto_quantity dto)"
    and "\<forall>p. dto_price dto = Some p \<longrightarrow> dec18 p \<and> dec18 (p * dto_quantity dto)"
    and "place_order R quiet u dto w = (Inr order, w1)"
  obtains pair asset amount b where "find (\<lambda>r. o_id r = o_id order \<and> o_user_id r = u) (w_orders w1) = Some (store_order order)"
    and "find (\<lambda>p. p_symbol p = o_symbol (store_order order)) (w_pairs w1) = Some pair"
    and "unlock_target (store_order order) pair = (asset, amount)" and "0 < amount" and "dec18 amount"
    and "\<not> is_stop_type (store_order order)" and "is_active (store_order order)"
    and "lock_optimistic quiet u asset amount (w_balances w) = (Inr b, w_balances w1)"
proof -
  from assms(6) obtain pair asset amount wa wb where v: "validate_and_get_pair (dto_symbol dto) w = (Inr pair, w)"
    "validate_params dto pair = Inr ()" and c: "compute_lock R dto pair w = (Inr (asset, amount), w)"
    and l: "(if \<not> is_stop_dto dto \<and> 0 < amount then bindP (balP (lock_optimistic quiet u asset amount)) (\<lambda>_. retP ()) else retP ()) w
      = (Inr (), wa)"
    and i: "insert_order u dto wa = (Inr order, wb)" and reg: "register_order R u dto [] order wb = (Inr (), w1)"
    by (rule place_order_steps)
  have pair: "find (\<lambda>p. p_symbol p = dto_symbol dto) (w_pairs w) = Some pair"
    using v(1) by (auto simp: validate_and_get_pair_def get_by_symbol_def run_steps split: option.splits if_splits)
  have amount: "compute_lock_asset_and_amount dto pair = Inr (asset, amount)"
    using c assms(2,3) by (auto simp: compute_lock_def liftP_eq)
  note ins = insert_order_result [OF i]
  from inserted_order [OF ins] obtain row where row: "order_of_dto u dto = Inr row" and f: "o_symbol order = dto_symbol dto"
    "o_side order = o_side row" "o_type order = o_type row" "o_status order = NEW" "o_price order = dto_price dto"
    "o_stop_price order = dto_stop_price dto" "o_quantity order = dto_quantity dto" "o_filled_quantity order = 0"
    using assms(2) by metis
  note lock = order_of_dto_lock [OF row v(2) amount assms(2,3)]
  have rowf: "o_price row = dto_price dto" "o_stop_price row = dto_stop_price dto" "o_quantity row = dto_quantity dto" "o_filled_quantity row = 0"
    using row by (auto simp: order_of_dto_def bind_result_Inr new_order_def)
  have "o_side row = SELL \<or> o_price row \<noteq> None"
    using amount lock(1,3) assms(2) rowf(1) by (auto simp: compute_lock_asset_and_amount_def split: option.splits if_splits)
  then have target: "unlock_target (store_order order) pair = (asset, amount)"
    using unlock_target_stored [of order row pair] f rowf assms(4,5) lock(4) by simp
  from l lock(1) assms(2) obtain b t1 where t1: "lock_optimistic quiet u asset amount (w_balances w) = (Inr b, t1)"
    "wa = w\<lparr>w_balances := t1\<rparr>" by (auto simp: run_steps balP_def split: prod.splits)
  have "keys_fresh wa" using assms(1) t1(2) by (simp add: keys_fresh_def)
  note found = find_inserted [OF ins this]
  have keep: "w_orders w1 = w_orders wb" "w_pairs w1 = w_pairs wb" "w_balances w1 = w_balances wb"
    by (rule frameD [OF register_order_frame reg]; simp)+
  have bal: "w_balances w1 = t1" using inserted_frame(1) [OF ins] t1(2) keep(3) by simp
  have d: "dec18 amount"
    using amount assms(4,5) by (auto simp: compute_lock_asset_and_amount_def split: if_splits option.splits)
  show thesis
    by (rule that [OF _ _ target lock(1) d, of b])
      (use found keep pair t1 bal f(1,3,4) lock(2) in \<open>auto simp: is_stop_type_def is_active_def\<close>)
qed

text \<open>
  C9. Placing an order and canceling it before anything is filled gives the funds back: for every order but a stop
  or a market buy, whose amounts have at most eighteen decimals, the ledger after the cancel differs from the one before
  the placement in row versions only, and the order's row is CANCELED.
\<close>

theorem place_cancel_restores:
  assumes "ledger_ok (w_balances w)" and "keys_fresh w" and "\<not> is_stop_dto dto"
    and "\<not> (dto_type dto = ''market'' \<and> dto_side dto = ''buy'')" and "dec18 (dto_quantity dto)"
    and "\<forall>p. dto_price dto = Some p \<longrightarrow> dec18 p \<and> dec18 (p * dto_quantity dto)"
    and "place_order R quiet u dto w = (Inr order, w1)" and "cancel_order R u (o_id order) w1 = (Inr r, w2)"
  shows "same_funds (w_balances w) (w_balances w2) \<and> o_status r = CANCELED \<and> o_id r = o_id order"
proof -
  from assms(2-7) obtain pair asset amount b where
    found: "find (\<lambda>r. o_id r = o_id order \<and> o_user_id r = u) (w_orders w1) = Some (store_order order)"
    and pair: "find (\<lambda>p. p_symbol p = o_symbol (store_order order)) (w_pairs w1) = Some pair"
    and target: "unlock_target (store_order order) pair = (asset, amount)" "0 < amount" "dec18 amount"
    and stop: "\<not> is_stop_type (store_order order)"
    and lock: "lock_optimistic quiet u asset amount (w_balances w) = (Inr b, w_balances w1)"
    by (rule placed_order_open)
  from cancel_order_steps [OF assms(8) found pair target(1) stop target(2)] obtain wc
    where rel: "balP (release_locked u asset amount) w1 = (Inr (), wc)" and fin: "finish_cancel R u (store_order order) wc = (Inr r, w2)" .
  from rel have r2: "release_locked u asset amount (w_balances w1) = (Inr (), w_balances wc)" "w_orders wc = w_orders w1"
    by (auto simp: balP_def split: prod.splits)
  have "w_balances w2 = w_balances wc" by (rule frameD [OF finish_cancel_frame fin]; simp)
  then have "same_funds (w_balances w) (w_balances w2)"
    using lock_then_release [OF assms(1) lock target(3,2) r2(1)] by simp
  moreover obtain row where "find (\<lambda>r. o_id r = o_id (store_order order)) (w_orders wc) = Some row"
    using find_weaken [OF found, of "\<lambda>r. o_id r = o_id order"] r2(2) by auto
  note finish_cancel_result [OF fin this]
  ultimately show ?thesis by simp
qed

lemma side_key_value: "side_key symbol (side_value sd) = Inr (if sd = BUY then bids_key symbol else asks_key symbol)"
  using lower_side [of sd] by (cases sd) (simp_all add: side_key_def)

context redis_server
begin

lemma empty_snapshot:
  assumes "zsets (view s) (bids_key symbol) = []" and "zsets (view s) (asks_key symbol) = []"
  shows "get_book_snapshot R symbol depth s = (Inr ([], []), s)"
  using assms by (simp add: get_book_snapshot_def aggregate_side_def prog_defs zrange zrevrange slice_def)

lemma remove_resting_runs: "\<exists>b s1. remove_resting_order R i symbol (side_value sd) s = (Inr b, s1) \<and>
    zsets (view s1) = (zsets (view s))((if sd = BUY then bids_key symbol else asks_key symbol) :=
      z_remove (str_int i) (zsets (view s) (if sd = BUY then bids_key symbol else asks_key symbol)))"
  by (simp add: remove_resting_order_def side_key_value prog_defs liftP_def cmdP_def zrem case_prod_beta)

lemma del_runs: "\<exists>s1. delete_order_hash R i s = (Inr (), s1) \<and> zsets (view s1) = (zsets (view s))(order_hash_key i := [])"
  by (simp add: delete_order_hash_def prog_defs cmdP_def del forget_def case_prod_beta)

text \<open>With an empty book, canceling a plain order whose row exists returns.\<close>

lemma finish_cancel_runs:
  assumes "\<not> is_stop_type order" and "\<exists>row. find (\<lambda>r. o_id r = o_id order) (w_orders w) = Some row"
    and "zsets (view (w_redis w)) (bids_key (o_symbol order)) = []" "zsets (view (w_redis w)) (asks_key (o_symbol order)) = []"
  shows "is_ok (fst (finish_cancel R u order w))"
proof -
  obtain b s1 where s1: "remove_resting_order R (o_id order) (o_symbol order) (side_value (o_side order)) (w_redis w) = (Inr b, s1)"
    "zsets (view s1) = (zsets (view (w_redis w)))((if o_side order = BUY then bids_key (o_symbol order) else asks_key (o_symbol order)) :=
      z_remove (str_int (o_id order)) (zsets (view (w_redis w)) (if o_side order = BUY then bids_key (o_symbol order) else asks_key (o_symbol order))))"
    using remove_resting_runs by blast
  obtain s2 where s2: "delete_order_hash R (o_id order) s1 = (Inr (), s2)"
    "zsets (view s2) = (zsets (view s1))(order_hash_key (o_id order) := [])" using del_runs by blast
  let ?q = "build_order_action_payload ''cancel'' (o_id order) (o_symbol order) u
         (side_value (o_side order)) (type_value (o_type order)) None None None False None None None None None"
  obtain s3 where s3: "remove_open_order R u (o_symbol order) (o_id order) s2 = (Inr (), s3)" "zsets (view s3) = zsets (view s2)"
    by (simp add: remove_open_order_def prog_defs view_after)
  have empty: "zsets (view s3) (bids_key (o_symbol order)) = []" "zsets (view s3) (asks_key (o_symbol order)) = []"
    using s1(2) s2(2) s3(2) assms(3,4) by (auto simp: z_remove_def)
  let ?s4 = "r_lpush R ORDERS_QUEUE (Action ?q) s3"
  have snap: "get_book_snapshot R (o_symbol order) 20 ?s4 = (Inr ([], []), ?s4)"
    using empty by (intro empty_snapshot) (simp_all add: lpush)
  let ?f = "\<lambda>r. if o_id r = o_id order then store_order (r\<lparr>o_status := CANCELED, o_version := o_version r + 1\<rparr>) else r"
  let ?g = "\<lambda>r. if o_parent_order_id r = Some (o_id order) \<and> o_status r \<in> {PENDING, NEW, PARTIALLY_FILLED}
    then store_order (r\<lparr>o_status := CANCELED, o_version := o_version r + 1\<rparr>) else r"
  have "find (\<lambda>r. o_id r = o_id order) (map ?g (map ?f (w_orders w))) \<noteq> None"
    using assms(2) by (auto simp: find_map_upd)
  then show ?thesis
    using assms(1) s1(1) s2(1) s3(1) snap
    by (auto simp: finish_cancel_def seqP_def bindP_def redP_def update_status_def cancel_children_def update_orders_def retP_def
        enqueue_order_action_def modP_def order_get_for_update_def getP_def raiseP_def split: option.splits)
qed

end

lemma cancel_order_succeeds:
  assumes "redis_server R view" and "find (\<lambda>r. o_id r = i \<and> o_user_id r = u) (w_orders w) = Some order"
    and "is_active order" and "find (\<lambda>p. p_symbol p = o_symbol order) (w_pairs w) = Some pair"
    and "\<not> is_stop_type order" and "is_ok (fst (release_locked u (fst (unlock_target order pair)) (snd (unlock_target order pair)) (w_balances w)))"
    and "zsets (view (w_redis w)) (bids_key (o_symbol order)) = []" "zsets (view (w_redis w)) (asks_key (o_symbol order)) = []"
  shows "is_ok (fst (cancel_order R u i w))"
proof -
  let ?m = "if \<not> is_stop_type order \<and> 0 < snd (unlock_target order pair)
    then balP (release_locked u (fst (unlock_target order pair)) (snd (unlock_target order pair))) else retP ()"
  obtain t where t: "?m w = (Inr (), w\<lparr>w_balances := t\<rparr>)"
  proof (cases "0 < snd (unlock_target order pair)")
    case True
    from assms(6) obtain x t where "release_locked u (fst (unlock_target order pair)) (snd (unlock_target order pair)) (w_balances w) = (Inr x, t)"
      by (rule is_ok_runE)
    then show ?thesis using True assms(5) that [of t] by (simp add: balP_def)
  next
    case False
    then show ?thesis using that [of "w_balances w"] by (simp add: retP_def)
  qed
  have "o_id order = i" using assms(2) by (auto simp: find_Some_iff)
  then have "\<exists>row. find (\<lambda>r. o_id r = o_id order) (w_orders w) = Some row"
    using find_weaken [OF assms(2), of "\<lambda>r. o_id r = i"] by simp
  then have "is_ok (fst (finish_cancel R u order (w\<lparr>w_balances := t\<rparr>)))"
    using redis_server.finish_cancel_runs [OF assms(1,5), of "w\<lparr>w_balances := t\<rparr>" u] assms(7,8) by simp
  moreover have "cancel_order R u i w = finish_cancel R u order (w\<lparr>w_balances := t\<rparr>)"
    using assms(2-4) t by (simp add: cancel_order_def get_by_user_def get_by_symbol_def getP_def bindP_def seqP_def case_prod_beta)
  ultimately show ?thesis by simp
qed

lemma lock_then_release_ok:
  assumes "ledger_ok t" and "lock_optimistic quiet u a x t = (Inr b, t1)" and "dec18 x" and "0 < x"
  shows "is_ok (fst (release_locked u a x t1))"
proof -
  have b: "t (u, a) = Some b" "x \<le> available_balance b" and t1: "t1 = t((u, a) \<mapsto> b\<lparr>locked_balance := numeric18 (locked_balance b + x),
         available_balance := numeric18 (available_balance b - x), b_version := b_version b + 1\<rparr>)"
    using assms(2,4) by (auto simp: lock_optimistic_quiet split: option.splits if_splits)
  have row: "row_ok (u, a) b" using ledger_okD [OF assms(1) b(1)] .
  let ?b = "b\<lparr>locked_balance := locked_balance b + x, available_balance := available_balance b - x, b_version := b_version b + 1\<rparr>"
  have d: "dec18 (locked_balance b + x)" "dec18 (available_balance b - x)" using row assms(3) by (auto simp: row_ok_def)
  have "row_ok (u, a) ?b" using row b(2) assms(3,4) d by (auto simp: row_ok_def balance_ok_def)
  then show ?thesis using release_runs [of t1 u a ?b x] t1 d assms(3,4) row by (simp add: row_ok_def balance_ok_def)
qed

theorem place_cancel_restores_witness:
  "(let w = market [(1, ''USDT'') \<mapsto> funds 1 ''USDT'' 50 1000] [] empty_redis in
     \<exists>order w1 r w2. place_order mem_redis quiet 1 (limit_buy 100 3) w = (Inr order, w1) \<and>
       cancel_order mem_redis 1 (o_id order) w1 = (Inr r, w2) \<and> same_funds (w_balances w) (w_balances w2))"
proof -
  let ?w = "market [(1, ''USDT'') \<mapsto> funds 1 ''USDT'' 50 1000] [] empty_redis"
  have v: "validate_params (limit_buy 100 3) btc_usdt = Inr ()" by code_simp
  have ok: "ledger_ok (w_balances ?w)" by (auto simp: ledger_ok_def market_def funds_def row_ok_def balance_ok_def)
  have d: "\<forall>p. dto_price (limit_buy 100 3) = Some p \<longrightarrow> dec18 p \<and> dec18 (p * dto_quantity (limit_buy 100 3))"
    "dec18 (dto_quantity (limit_buy 100 3))" "\<not> (dto_type (limit_buy 100 3) = ''market'' \<and> dto_side (limit_buy 100 3) = ''buy'')"
    by (auto simp: limit_buy_def)
  obtain order w1 where o: "place_order mem_redis quiet 1 (limit_buy 100 3) ?w = (Inr order, w1)"
    and z: "zsets (mem_view (w_redis w1)) = zsets (mem_view (w_redis ?w))"
    by (rule place_order_succeeds [OF mem.redis_server_axioms, where dto = "limit_buy 100 3" and w = ?w and u = 1,
          of btc_usdt "''USDT''" 300 "funds 1 ''USDT'' 50 1000"])
      (simp_all add: limit_buy_facts market_facts v funds_def)
  obtain pair asset amount b where
    p: "find (\<lambda>r. o_id r = o_id order \<and> o_user_id r = 1) (w_orders w1) = Some (store_order order)"
    "find (\<lambda>p. p_symbol p = o_symbol (store_order order)) (w_pairs w1) = Some pair"
    and t: "unlock_target (store_order order) pair = (asset, amount)" "0 < amount" "dec18 amount"
    and s: "\<not> is_stop_type (store_order order)" "is_active (store_order order)"
    and l: "lock_optimistic quiet 1 asset amount (w_balances ?w) = (Inr b, w_balances w1)"
    by (rule placed_order_open [OF keys_fresh_market limit_buy_facts(1) d(3,2,1) o])
  have e: "zsets (mem_view (w_redis w1)) k = []" for k
    unfolding z by (simp add: market_facts mem_view_def empty_redis_def mz_def)
  have "is_ok (fst (cancel_order mem_redis 1 (o_id order) w1))"
    by (rule cancel_order_succeeds [OF mem.redis_server_axioms p(1) s(2) p(2) s(1)])
      (use lock_then_release_ok [OF ok l t(3,2)] t(1) e in auto)
  then obtain r w2 where r: "cancel_order mem_redis 1 (o_id order) w1 = (Inr r, w2)" by (rule is_ok_runE)
  from place_cancel_restores [OF ok keys_fresh_market limit_buy_facts(1) d(3,2,1) o r] o r show ?thesis by (auto simp: Let_def)
qed


subsection \<open>Bulk placement is all or nothing\<close>

text \<open>The strings of a request that become enums are values of the enums.\<close>

definition typed_dto :: "order_create_dto \<Rightarrow> bool" where
  "typed_dto dto \<longleftrightarrow> is_ok (OrderSide (dto_side dto)) \<and> is_ok (OrderType (dto_type dto)) \<and>
     (case dto_sl dto of None \<Rightarrow> True | Some c \<Rightarrow> is_ok (OrderType (cfg_type c))) \<and>
     (case dto_tp dto of None \<Rightarrow> True | Some c \<Rightarrow> is_ok (OrderType (cfg_type c)))"

lemma sltp_child_runs:
  "is_ok (OrderType (cfg_type c)) \<Longrightarrow> \<exists>child w1. create_sltp_child u c parent w = (Inr child, w1)"
  by (auto simp: create_sltp_child_def is_ok_iff bindP_def liftP_def add_order_def Let_def)

lemma insert_order_runs:
  assumes "typed_dto dto"
  shows "\<exists>order w1. insert_order u dto w = (Inr order, w1)"
proof -
  from assms obtain row where row: "order_of_dto u dto = Inr row" by (auto simp: typed_dto_def order_of_dto_def is_ok_iff)
  have child: "\<exists>o1 w1. (case c of None \<Rightarrow> retP o0 | Some config \<Rightarrow> bindP (create_sltp_child u config o0) (\<lambda>k. retP (f k))) w = (Inr o1, w1)"
    if "case c of None \<Rightarrow> True | Some c \<Rightarrow> is_ok (OrderType (cfg_type c))" for c o0 f and w :: "'a world"
  proof (cases c)
    case (Some config)
    with that sltp_child_runs [of config u o0 w] show ?thesis by (auto simp: bindP_def retP_def)
  qed (simp add: retP_def)
  obtain o1 wa where a: "add_order row w = (Inr o1, wa)" by (simp add: add_order_def Let_def)
  have c: "case dto_sl dto of None \<Rightarrow> True | Some c \<Rightarrow> is_ok (OrderType (cfg_type c))"
    "case dto_tp dto of None \<Rightarrow> True | Some c \<Rightarrow> is_ok (OrderType (cfg_type c))"
    using assms by (simp_all add: typed_dto_def)
  obtain o2 wb where b: "(case dto_sl dto of None \<Rightarrow> retP o1 | Some config \<Rightarrow>
      bindP (create_sltp_child u config o1) (\<lambda>sl. retP (o1\<lparr>o_sl_order_id := Some (o_id sl)\<rparr>))) wa = (Inr o2, wb)"
    using child [OF c(1), of o1 "\<lambda>sl. o1\<lparr>o_sl_order_id := Some (o_id sl)\<rparr>" wa] by auto
  obtain o3 wc where d: "(case dto_tp dto of None \<Rightarrow> retP o2 | Some config \<Rightarrow>
      bindP (create_sltp_child u config o2) (\<lambda>tp. retP (o2\<lparr>o_tp_order_id := Some (o_id tp)\<rparr>))) wb = (Inr o3, wc)"
    using child [OF c(2), of o2 "\<lambda>tp. o2\<lparr>o_tp_order_id := Some (o_id tp)\<rparr>" wb] by auto
  show ?thesis
    unfolding insert_order_def using a b d
    by (simp add: row bindP_def [of _ _ w] bindP_def [of _ _ wa] bindP_def [of _ _ wb] bindP_def [of _ _ wc] liftP_def seqP_def
        set_order_def update_orders_def retP_def)
qed

lemma reads_validate_all: "reads (validate_all R dtos req)"
  by (rule readsI, induction dtos arbitrary: req)
    (auto intro!: preserves_intros reads_preserves [OF reads_validate] reads_preserves [OF reads_compute_lock])

text \<open>The actions of the placed orders, oldest first.\<close>

definition bulk_actions :: "int \<Rightarrow> order_create_dto list \<Rightarrow> order list \<Rightarrow> queue_item list" where
  "bulk_actions u dtos orders = map (\<lambda>p. Action (place_payload u (snd p))) (filter (\<lambda>p. \<not> is_stop_dto (fst p)) (zip dtos orders))"

definition placed_as :: "int \<Rightarrow> order_create_dto \<Rightarrow> order \<Rightarrow> bool" where
  "placed_as u dto r \<longleftrightarrow> o_user_id r = u \<and> o_symbol r = dto_symbol dto \<and> o_price r = dto_price dto \<and> o_quantity r = dto_quantity dto \<and>
     o_status r = (if is_stop_dto dto then PENDING else NEW)"

lemma insert_all_runs:
  assumes "redis_server R view" and "\<forall>d\<in>set dtos. typed_dto d"
  shows "\<exists>orders w1. insert_all R u b dtos w = (Inr orders, w1) \<and> list_all2 (placed_as u) dtos orders \<and> w_balances w1 = w_balances w \<and>
    lists (view (w_redis w1)) ORDERS_QUEUE = rev (bulk_actions u dtos orders) @ lists (view (w_redis w)) ORDERS_QUEUE"
  using assms(2)
proof (induction dtos arbitrary: w)
  case Nil
  then show ?case by (simp add: retP_def bulk_actions_def)
next
  case (Cons d dtos)
  obtain order wa where i: "insert_order u d w = (Inr order, wa)" using insert_order_runs [of d u w] Cons.prems by auto
  note f = insert_order_result [OF i]
  obtain s1 where r: "register_order R u d [(''bulk_id'', HStr b)] order wa = (Inr (), wa\<lparr>w_redis := s1\<rparr>)"
    "lists (view s1) ORDERS_QUEUE = (if is_stop_dto d then [] else [Action (place_payload u order)]) @ lists (view (w_redis wa)) ORDERS_QUEUE"
    using redis_server.register_order_runs [OF assms(1)] by blast
  from Cons.IH [of "wa\<lparr>w_redis := s1\<rparr>"] Cons.prems obtain orders w1 where
    a: "insert_all R u b dtos (wa\<lparr>w_redis := s1\<rparr>) = (Inr orders, w1)" "list_all2 (placed_as u) dtos orders" "w_balances w1 = w_balances wa"
    "lists (view (w_redis w1)) ORDERS_QUEUE = rev (bulk_actions u dtos orders) @ lists (view s1) ORDERS_QUEUE" by auto
  have "placed_as u d order" by (rule inserted_order [OF f]) (simp add: placed_as_def)
  moreover have "insert_all R u b (d # dtos) w = (Inr (order # orders), w1)"
    using i r(1) a(1) by (simp add: bindP_def seqP_def retP_def)
  ultimately show ?case using a r(2) inserted_frame [OF f] by (auto simp: bulk_actions_def)
qed

lemma bulk_transaction:
  assumes "redis_server R view" and "\<forall>d\<in>set dtos. typed_dto d"
    and "transactionP (place_bulk_orders R env uuid4 u dtos bulk_id) w = (r, w1)"
  shows "case r of Inl e \<Rightarrow> w1 = w
    | Inr orders \<Rightarrow> list_all2 (placed_as u) dtos orders \<and>
        lists (view (w_redis w1)) ORDERS_QUEUE = rev (bulk_actions u dtos orders) @ lists (view (w_redis w)) ORDERS_QUEUE"
proof (cases "dtos = []")
  case True
  then show ?thesis using assms(3) by (auto simp: place_bulk_orders_def transactionP_def retP_def bulk_actions_def)
next
  case False
  let ?b = "case bulk_id of None \<Rightarrow> uuid4 | Some b \<Rightarrow> if b = [] then uuid4 else b"
  let ?ds = "map (\<lambda>d. d\<lparr>dto_bulk_id := Some ?b\<rparr>) dtos"
  have typed: "\<forall>d\<in>set ?ds. typed_dto d" using assms(2) by (auto simp: typed_dto_def)
  have "placed_as u (d\<lparr>dto_bulk_id := x\<rparr>) = placed_as u d" for d x by (simp add: fun_eq_iff placed_as_def is_stop_dto_def)
  then have same: "list_all2 (placed_as u) ?ds orders = list_all2 (placed_as u) dtos orders" "bulk_actions u ?ds orders = bulk_actions u dtos orders" for orders
    by (simp_all add: list_all2_map1 is_stop_dto_def bulk_actions_def zip_map1 filter_map comp_def case_prod_beta)
  have undo: "w\<lparr>w_balances := t\<rparr>\<lparr>w_balances := w_balances w, w_orders := w_orders w, w_pairs := w_pairs w, w_trade_rows := w_trade_rows w, w_users := w_users w, w_api_keys := w_api_keys w\<rparr> = w" for t
    by (cases w) simp
  have undo0: "w\<lparr>w_balances := w_balances w, w_orders := w_orders w, w_pairs := w_pairs w, w_trade_rows := w_trade_rows w, w_users := w_users w, w_api_keys := w_api_keys w\<rparr> = w" by (cases w) simp
  obtain v w0 where v0: "validate_all R ?ds [] w = (v, w0)" by (cases "validate_all R ?ds [] w")
  then have v: "validate_all R ?ds [] w = (v, w)" using readsD [OF reads_validate_all] by simp
  show ?thesis
  proof (cases v)
    case (Inl e)
    then show ?thesis using assms(3) False v undo0 by (auto simp: place_bulk_orders_def transactionP_def bindP_def Let_def)
  next
    case (Inr req)
    obtain l t where l: "lock_all env u [] (sort_key fst req) (w_balances w) = (l, t)" by (cases "lock_all env u [] (sort_key fst req) (w_balances w)")
    from insert_all_runs [OF assms(1) typed, of u ?b "w\<lparr>w_balances := t\<rparr>"] obtain orders w2 where
      i: "insert_all R u ?b ?ds (w\<lparr>w_balances := t\<rparr>) = (Inr orders, w2)" "list_all2 (placed_as u) ?ds orders"
      "lists (view (w_redis w2)) ORDERS_QUEUE = rev (bulk_actions u ?ds orders) @ lists (view (w_redis w)) ORDERS_QUEUE" by auto
    have "place_bulk_orders R env uuid4 u dtos bulk_id w = (case l of Inl e \<Rightarrow> (Inl e, w\<lparr>w_balances := t\<rparr>) | Inr _ \<Rightarrow> (Inr orders, w2))"
      using False v Inr l i(1) by (cases l) (simp_all add: place_bulk_orders_def bindP_def seqP_def balP_def Let_def)
    then show ?thesis using assms(3) i same undo by (cases l) (auto simp: transactionP_def)
  qed
qed

text \<open>
  Placing a bulk of well-typed orders is all or nothing, Redis included: within its transaction it either fails and
  leaves the whole state, tables and Redis, as it was, or it places every order of the request as asked and
  queues exactly one action for each that does not wait for a trigger, in the order of the request.
\<close>

theorem bulk_all_or_nothing:
  assumes "redis_server R view" and "\<forall>d\<in>set dtos. typed_dto d"
    and "transactionP (place_bulk_orders R env uuid4 u dtos bulk_id) w = (r, w1)"
  shows "case r of Inl e \<Rightarrow> w1 = w
    | Inr orders \<Rightarrow> list_all2 (placed_as u) dtos orders \<and>
        lists (view (w_redis w1)) ORDERS_QUEUE = rev (bulk_actions u dtos orders) @ lists (view (w_redis w)) ORDERS_QUEUE"
  by (rule bulk_transaction [OF assms])

theorem bulk_all_or_nothing_witness:
  "(let w = market [(1, ''USDT'') \<mapsto> funds 1 ''USDT'' 0 500] [] empty_redis;
        r = transactionP (place_bulk_orders mem_redis quiet ''id'' 1 [limit_buy 100 3, limit_buy 50 6] None) w in
     \<not> is_ok (fst r) \<and> snd r = w)"
proof -
  let ?w = "market [(1, ''USDT'') \<mapsto> funds 1 ''USDT'' 0 500] [] empty_redis"
  let ?r = "transactionP (place_bulk_orders mem_redis quiet ''id'' 1 [limit_buy 100 3, limit_buy 50 6] None) ?w"
  have fail: "\<not> is_ok (fst ?r)" by code_simp
  have "\<forall>d\<in>set [limit_buy 100 3, limit_buy 50 6]. typed_dto d"
    by (simp add: typed_dto_def limit_buy_def OrderSide_def OrderType_def all_sides_def all_types_def)
  from bulk_all_or_nothing [OF mem.redis_server_axioms this, of quiet "''id''" 1 None ?w "fst ?r" "snd ?r"] fail
  show ?thesis by (auto simp: is_ok_iff split: sum.splits)
qed

end
