(* ===== verification/Bridge.thy ===== *)
theory Bridge
  imports Engine
begin

section \<open>The bridge between domain values and the engine\<close>

text \<open>
  \<open>matching/_bridge.py\<close>: sides and types as engine codes, decimals as doubles, the construction
  of the incoming order, and engine trades as rows to persist. A side or type argument is its string
  (an enum member is passed as its value); \<open>None\<close> stands for Python's None and for NaN.
\<close>

subsection \<open>Domain to engine\<close>

definition SIDE_MAP :: "(string \<times> int) list" where
  "SIDE_MAP = [(side_value BUY, C_BUY), (side_value SELL, C_SELL)]"

definition TYPE_MAP :: "(string \<times> int) list" where
  "TYPE_MAP = [(type_value MARKET, C_MARKET), (type_value LIMIT, C_LIMIT), (type_value IOC, C_IOC),
     (type_value FOK, C_FOK), (type_value POST_ONLY, C_POST_ONLY), (type_value ICEBERG, C_LIMIT),
     (type_value STOP_MARKET, C_MARKET), (type_value STOP_LIMIT, C_LIMIT),
     (type_value TRAILING_STOP, C_MARKET)]"

definition to_c_side :: "string \<Rightarrow> (exn, int) result" where
  "to_c_side side = (case map_of SIDE_MAP (lower side) of
     None \<Rightarrow> Inl (ValueError ''Unknown side'') | Some c \<Rightarrow> Inr c)"

definition to_c_type :: "string \<Rightarrow> (exn, int) result" where
  "to_c_type order_type = (case map_of TYPE_MAP (lower order_type) of
     None \<Rightarrow> Inl (ValueError ''Unknown order type'') | Some c \<Rightarrow> Inr c)"

definition decimal_to_double :: "rat option \<Rightarrow> rat option" where
  "decimal_to_double d = map_option rnd d"

text \<open>\<open>math.isclose\<close> on doubles, with the tolerances of the call.\<close>

definition isclose :: "rat \<Rightarrow> rat \<Rightarrow> bool" where
  "isclose a b \<longleftrightarrow> (let diff = \<bar>dsub b a\<bar>; rel_tol = rnd (1 / 10 ^ 9); abs_tol = rnd (1 / 10 ^ 12) in
     a = b \<or> diff \<le> \<bar>dmul rel_tol b\<bar> \<or> diff \<le> \<bar>dmul rel_tol a\<bar> \<or> diff \<le> abs_tol)"

definition build_corder ::
  "int \<Rightarrow> string \<Rightarrow> string \<Rightarrow> rat option \<Rightarrow> rat \<Rightarrow> bool \<Rightarrow> rat option \<Rightarrow> rat option \<Rightarrow> (exn, corder) result" where
  "build_corder order_id side order_type price quantity is_ice visible_qty hidden_qty =
     bind_result (to_c_side side) (\<lambda>cdef_side.
     bind_result (to_c_type order_type) (\<lambda>cdef_type.
     (let price_d = decimal_to_double price; qty_d = rnd quantity;
          vis_d = (if is_ice then decimal_to_double visible_qty else Some qty_d);
          hid_d = (if is_ice then decimal_to_double hidden_qty else Some 0) in
      if qty_d \<le> 0 then Inl (ValueError ''quantity must be positive'')
      else if is_ice \<and> (case vis_d of None \<Rightarrow> False | Some v \<Rightarrow> v \<le> 0)
      then Inl (ValueError ''iceberg visible_qty must be positive'')
      else if is_ice \<and> (case hid_d of None \<Rightarrow> False | Some h \<Rightarrow> h < 0)
      then Inl (ValueError ''iceberg hidden_qty must be non-negative'')
      else (case (vis_d, hid_d) of
          (Some v, Some h) \<Rightarrow>
            if is_ice \<and> dadd v h \<noteq> qty_d \<and> \<not> isclose (dadd v h) qty_d
            then Inl (ValueError ''iceberg invariant violated'')
            else Inr \<lparr>c_order_id = order_id, c_side = cdef_side, c_type = cdef_type, c_price = price_d,
              c_quantity = qty_d, c_remaining = qty_d, c_is_iceberg = is_ice, c_visible = v, c_hidden = h\<rparr>
        | _ \<Rightarrow> Inl (ValueError ''iceberg invariant violated'')))))"

subsection \<open>Engine to domain\<close>

definition OUTCOME_MAP :: "(int \<times> string) list" where
  "OUTCOME_MAP = [(C_OK, ''ok''), (C_FOK_REJECTED, ''fok_rejected''),
     (C_POST_ONLY_CROSS, ''post_only_cross''), (C_NO_LIQUIDITY, ''no_liquidity'')]"

definition outcome_to_str :: "int \<Rightarrow> (exn, string) result" where
  "outcome_to_str outcome = (case map_of OUTCOME_MAP outcome of
     None \<Rightarrow> Inl (ValueError ''Unknown outcome code'') | Some s \<Rightarrow> Inr s)"

record domain_trade =
  d_taker_order_id :: int
  d_maker_order_id :: int
  d_symbol :: string
  d_price :: rat
  d_quantity :: rat
  d_quote_quantity :: rat
  d_side :: order_side

definition trade_dict_to_domain :: "trade_result \<Rightarrow> string \<Rightarrow> domain_trade" where
  "trade_dict_to_domain t symbol =
     (let price = dec_of_float (tr_price t); qty = dec_of_float (tr_quantity t) in
      \<lparr>d_taker_order_id = tr_taker t, d_maker_order_id = tr_maker t, d_symbol = symbol, d_price = price,
        d_quantity = qty, d_quote_quantity = price * qty, d_side = (if tr_side t = C_BUY then BUY else SELL)\<rparr>)"

definition is_outcome_terminal :: "int \<Rightarrow> bool" where
  "is_outcome_terminal outcome \<longleftrightarrow> outcome \<in> {C_OK, C_FOK_REJECTED, C_POST_ONLY_CROSS, C_NO_LIQUIDITY}"

definition is_outcome_reject :: "int \<Rightarrow> bool" where
  "is_outcome_reject outcome \<longleftrightarrow> outcome \<in> {C_FOK_REJECTED, C_POST_ONLY_CROSS, C_NO_LIQUIDITY}"

subsection \<open>What reaches the engine is well formed\<close>

lemma to_c_side_value: "to_c_side (side_value s) = Inr (if s = BUY then C_BUY else C_SELL)"
  by (cases s) (simp_all add: to_c_side_def SIDE_MAP_def lower_def lower_char_def)

lemma to_c_side_range: "to_c_side s = Inr c \<Longrightarrow> c = C_BUY \<or> c = C_SELL"
  by (auto simp: to_c_side_def SIDE_MAP_def split: option.splits if_splits)

lemma build_corder_ok:
  assumes "build_corder i side tp price q ice vis hid = Inr c"
  shows "0 < c_quantity c" "c_remaining c = c_quantity c" "c_quantity c = rnd q" "c_order_id c = i"
    "c_side c = C_BUY \<or> c_side c = C_SELL" "c_price c = map_option rnd price"
  using assms
  by (auto simp: build_corder_def bind_result_Inr Let_def decimal_to_double_def not_le
      dest: to_c_side_range split: if_splits option.splits)

text \<open>
  An order built by the bridge can be matched: its side is a valid engine side, its quantity
  is positive and equal to what remains, and when the book fits the trade buffer a
  rejecting outcome means that no trade was emitted and nothing was filled.
\<close>

theorem reject_means_no_trades:
  assumes "build_corder i side tp price q ice vis hid = Inr c"
    and "reachable_engine e" and "fits_buffer e c"
    and "match_active_order c e = ((ts, outcome, rem), e1)" and "is_outcome_reject outcome"
  shows "(c_side c = C_BUY \<or> c_side c = C_SELL) \<and> 0 < c_remaining c \<and> ts = [] \<and> 0 < rem"
proof -
  note c = build_corder_ok [OF assms(1)]
  have ok: "engine_ok e" using reachable_engine_ok [OF assms(2)] .
  have nn: "0 \<le> c_remaining c" using c by simp
  obtain ls rem' trades full where w: "walk_levels c (c_remaining c) [] (s_levels (opposite e c)) = (ls, rem', trades, full)"
    by (cases "walk_levels c (c_remaining c) [] (s_levels (opposite e c))")
  show ?thesis
  proof (cases "c_type c = C_POST_ONLY \<or> c_type c = C_FOK \<and> \<not> precheck_fok e c")
    case True
    then show ?thesis using assms(4) match_rejects [of c e] c by auto
  next
    case False
    then show ?thesis
      using match_runs [OF ok assms(3) nn _ _ w] assms(4,5) c
      by (auto simp: is_outcome_reject_def code_defs split: if_splits)
  qed
qed

theorem reject_means_no_trades_witness:
  "(let r = build_corder 9 ''BUY'' ''market'' None 7 False None None in
     \<exists>c. r = Inr c \<and> match_active_order c new_engine = (([], C_NO_LIQUIDITY, 7), new_engine) \<and>
       is_outcome_reject C_NO_LIQUIDITY \<and> c_side c = C_BUY \<and> 0 < c_remaining c)"
proof -
  let ?c = "\<lparr>c_order_id = 9, c_side = 0, c_type = 0, c_price = None, c_quantity = 7, c_remaining = 7,
    c_is_iceberg = False, c_visible = 7, c_hidden = 0\<rparr>"
  have b: "build_corder 9 ''BUY'' ''market'' None 7 False None None = Inr ?c" by code_simp
  have m: "match_active_order ?c new_engine = (([], C_NO_LIQUIDITY, 7), new_engine)" by code_simp
  have f: "fits_buffer new_engine ?c" by code_simp
  have "is_outcome_reject C_NO_LIQUIDITY" by (simp add: is_outcome_reject_def)
  with reject_means_no_trades [OF b reachable_engine.new f m] b m show ?thesis by (simp add: Let_def C_BUY_def)
qed

end
