(* ===== verification/Trade_Service.thy ===== *)
theory Trade_Service
  imports World Bridge
begin

section \<open>The trade service\<close>

text \<open>
  \<open>services/trade_service.py\<close>: persisting the trades of one match. The input is the list of trade dictionaries of
  the bridge, each with the user id the worker found for its maker. The whole batch runs inside the worker's
  transaction; what it writes to Redis is not undone when the transaction fails. The events it publishes
  at the end are in the theory \<open>Events\<close>.
\<close>

subsection \<open>Balances\<close>

text \<open>
  Both rows are fetched first; a payment settles what was locked, a receipt is credited, and a row that does not exist is
  silently skipped.
\<close>

definition settle_leg :: "int \<Rightarrow> string \<Rightarrow> rat \<Rightarrow> string \<Rightarrow> rat \<Rightarrow> unit balance_prog" where
  "settle_leg user_id pay_asset pay receive_asset receive =
     bindP (get_for_update user_id pay_asset) (\<lambda>pay_bal.
     bindP (get_for_update user_id receive_asset) (\<lambda>receive_bal.
     seqP (if pay_bal \<noteq> None then row_step settle_pessimistic (user_id, pay_asset) pay else retP ())
       (if receive_bal \<noteq> None then row_step credit_pessimistic (user_id, receive_asset) receive else retP ())))"

definition settle_trade_balances ::
  "order_side \<Rightarrow> bool \<Rightarrow> int \<Rightarrow> rat \<Rightarrow> rat \<Rightarrow> string \<Rightarrow> string \<Rightarrow> unit balance_prog" where
  "settle_trade_balances taker_side is_taker user_id qty quote_qty base_asset quote_asset =
     (if is_taker then
        (if taker_side = BUY then settle_leg user_id quote_asset quote_qty base_asset qty
         else settle_leg user_id base_asset qty quote_asset quote_qty)
      else
        (if taker_side = BUY then settle_leg user_id base_asset qty quote_asset quote_qty
         else settle_leg user_id quote_asset quote_qty base_asset qty))"

subsection \<open>Orders and the Redis book\<close>

definition fill_maker :: "rat \<Rightarrow> rat \<Rightarrow> order \<Rightarrow> order" where
  "fill_maker qty quote_qty mo =
     (let filled = o_filled_quantity mo + qty in
      mo\<lparr>o_filled_quantity := filled, o_filled_quote_qty := o_filled_quote_qty mo + quote_qty, o_version := o_version mo + 1,
        o_status := (if o_quantity mo \<le> filled then FILLED else PARTIALLY_FILLED)\<rparr>)"

definition fill_taker :: "rat \<Rightarrow> rat \<Rightarrow> order \<Rightarrow> order" where
  "fill_taker qty quote_qty to =
     (let filled = o_filled_quantity to + qty in
      to\<lparr>o_filled_quantity := filled, o_filled_quote_qty := o_filled_quote_qty to + quote_qty, o_version := o_version to + 1,
        o_status := (if o_quantity to \<le> filled then FILLED else if 0 < filled then PARTIALLY_FILLED else o_status to)\<rparr>)"

definition update_redis_maker :: "'s redis_ops \<Rightarrow> order \<Rightarrow> ('s, unit) world_prog" where
  "update_redis_maker R mo =
     (if o_status mo = FILLED then
        seqP (redP (remove_resting_order R (o_id mo) (o_symbol mo) (side_value (o_side mo))))
       (seqP (redP (delete_order_hash R (o_id mo)))
        (redP (remove_open_order R (o_user_id mo) (o_symbol mo) (o_id mo))))
      else (let remaining = o_quantity mo - o_filled_quantity mo in
        redP (update_order_hash_fields R (o_id mo)
          [(''filled_quantity'', HNum (o_filled_quantity mo)), (''visible_quantity'', HNum remaining),
           (''quantity'', HNum remaining), (''status'', HStr (status_value (o_status mo)))])))"

definition child_payload :: "int \<Rightarrow> order \<Rightarrow> order_action" where
  "child_payload parent_id child = build_order_action_payload ''place'' (o_id child) (o_symbol child) (o_user_id child)
     (side_value (o_side child)) (type_value (o_type child)) (map_option rnd (truthy (o_price child))) None
     (Some (rnd (o_quantity child))) False None None (Some parent_id) None None"

definition activate_sltp_children :: "'s redis_ops \<Rightarrow> order \<Rightarrow> ('s, unit) world_prog" where
  "activate_sltp_children R parent =
     bindP (list_children_by_parent (o_id parent)) (\<lambda>children.
     forP children (\<lambda>child. if o_status child \<noteq> PENDING then retP ()
       else seqP (set_order (o_id child) (\<lambda>r. r\<lparr>o_status := NEW, o_version := o_version r + 1\<rparr>))
         (redP (enqueue_order_action R (child_payload (o_id parent) child)))))"

subsection \<open>A batch\<close>

text \<open>\<open>maker_fill_deltas\<close> as the list of its items in insertion order.\<close>

type_synonym fill_deltas = "(int \<times> rat \<times> rat) list"

fun add_delta :: "int \<Rightarrow> rat \<Rightarrow> rat \<Rightarrow> fill_deltas \<Rightarrow> fill_deltas" where
  "add_delta maker_id qty quote_qty [] = [(maker_id, qty, quote_qty)]"
| "add_delta maker_id qty quote_qty ((m, q, x) # ds) =
     (if m = maker_id then (m, q + qty, x + quote_qty) # ds else (m, q, x) # add_delta maker_id qty quote_qty ds)"

definition collect_deltas :: "(domain_trade \<times> int) list \<Rightarrow> fill_deltas" where
  "collect_deltas trades = fold (\<lambda>(t, _). add_delta (d_maker_order_id t) (d_quantity t) (d_price t * d_quantity t)) trades []"

definition trade_row :: "int \<Rightarrow> int \<Rightarrow> order_side \<Rightarrow> string \<Rightarrow> domain_trade \<times> int \<Rightarrow> trade" where
  "trade_row taker_user_id taker_order_id taker_side symbol = (\<lambda>(t, maker_user_id).
     \<lparr>t_id = 0, t_taker_order_id = taker_order_id, t_maker_order_id = d_maker_order_id t, t_symbol = symbol,
      t_price = d_price t, t_quantity = d_quantity t, t_quote_quantity = d_price t * d_quantity t, t_side = taker_side,
      t_taker_user_id = taker_user_id, t_maker_user_id = maker_user_id, t_taker_fee = 0, t_maker_fee = 0,
      t_executed_at = 0\<rparr>)"

text \<open>The body of the loop over the makers; \<open>first\<close> is the key of the batch's first trade row.\<close>

definition settle_maker ::
  "'s redis_ops \<Rightarrow> order_side \<Rightarrow> string \<Rightarrow> string \<Rightarrow> int \<Rightarrow> int \<times> rat \<times> rat \<Rightarrow> ('s, unit) world_prog" where
  "settle_maker R taker_side base_asset quote_asset first = (\<lambda>(maker_id, qty_delta, quote_delta).
     bindP (order_get_for_update maker_id) (\<lambda>found. case found of
       None \<Rightarrow> retP ()
     | Some row \<Rightarrow> (let mo = fill_maker qty_delta quote_delta row in
         seqP (set_order maker_id (\<lambda>_. mo))
        (seqP (modP (\<lambda>w. w\<lparr>w_trade_rows := map (\<lambda>t. if first \<le> t_id t \<and> t_maker_order_id t = maker_id
             then t\<lparr>t_maker_user_id := o_user_id mo\<rparr> else t) (w_trade_rows w)\<rparr>))
        (seqP (balP (settle_trade_balances taker_side False (o_user_id mo) qty_delta quote_delta base_asset quote_asset))
         (update_redis_maker R mo))))))"

definition settle_taker ::
  "'s redis_ops \<Rightarrow> order_side \<Rightarrow> string \<Rightarrow> string \<Rightarrow> int \<Rightarrow> rat \<Rightarrow> rat \<Rightarrow> ('s, unit) world_prog" where
  "settle_taker R taker_side base_asset quote_asset taker_order_id total_qty total_quote =
     bindP (order_get_for_update taker_order_id) (\<lambda>found. case found of
       None \<Rightarrow> retP ()
     | Some row \<Rightarrow> (let to = fill_taker total_qty total_quote row in
         seqP (set_order taker_order_id (\<lambda>_. to))
        (seqP (balP (settle_trade_balances taker_side True (o_user_id to) total_qty total_quote base_asset quote_asset))
         (if o_status to = FILLED then activate_sltp_children R to else retP ()))))"

definition persist_trade_batch :: "'s redis_ops \<Rightarrow> (domain_trade \<times> int) list \<Rightarrow> int \<Rightarrow> int \<Rightarrow> order_side \<Rightarrow> string \<Rightarrow>
    string \<Rightarrow> string \<Rightarrow> ('s, trade list) world_prog" where
  "persist_trade_batch R trades taker_user_id taker_order_id taker_side symbol base_asset quote_asset =
     (if trades = [] then retP []
      else bindP (getP w_next_trade) (\<lambda>first.
        seqP (forP trades (\<lambda>t. add_trade (trade_row taker_user_id taker_order_id taker_side symbol t)))
       (seqP (forP (collect_deltas trades) (settle_maker R taker_side base_asset quote_asset first))
       (seqP (settle_taker R taker_side base_asset quote_asset taker_order_id
           (\<Sum>t\<leftarrow>trades. d_quantity (fst t)) (\<Sum>t\<leftarrow>trades. d_price (fst t) * d_quantity (fst t)))
        (getP (\<lambda>w. filter (\<lambda>t. first \<le> t_id t) (w_trade_rows w)))))))"

subsection \<open>What a batch moves\<close>

context balance_op
begin

lemma held_moves:
  assumes ok: "ledger_ok t" and x: "dec18 x"
    and run: "row_step (\<lambda>b x. flush_row (op b x)) k x t = (Inr (), t')"
  shows "ledger_ok t'" and "dom t' = dom t" and "asset_total c t' = asset_total c t + (if c = snd k then dl x + da x else 0)"
proof -
  from run obtain b where b: "t k = Some b" and f: "flush_row (op b x) t = (Inr (), t')"
    by (auto simp: row_step_def prog_defs split: option.splits)
  from f obtain b' where b': "op b x = Inr b'" "t' = store_balance b' t"
    by (cases "op b x") (auto simp: flush_row_def prog_defs)
  have row: "row_ok k b" "row_ok k b'" using ledger_okD [OF ok b] keeps_row [OF _ x b'(1)] by auto
  have t': "t' = t(k \<mapsto> b')" using b'(2) store_row [OF row(2)] by simp
  show "ledger_ok t'" using t' ledger_ok_upd [OF ok row(2)] by simp
  show "dom t' = dom t" using t' b by auto
  have "guard b x" using op_result(2) [OF _ b'(1)] row(1) by (simp add: row_ok_def)
  from flush_total [OF ok b x this, of c] f row(1)
  show "asset_total c t' = asset_total c t + (if c = snd k then dl x + da x else 0)" by (auto simp: row_ok_def)
qed

end

lemmas settle_moves = settle_op.held_moves [folded settle_pessimistic_def]
lemmas credit_moves = credit_op.held_moves [folded credit_pessimistic_def]

text \<open>How a leg changes the total of an asset.\<close>

definition leg_total :: "string \<Rightarrow> string \<Rightarrow> rat \<Rightarrow> string \<Rightarrow> rat \<Rightarrow> rat" where
  "leg_total c pay_asset pay receive_asset receive =
     (if c = receive_asset then receive else 0) - (if c = pay_asset then pay else 0)"

lemma settle_leg_moves:
  assumes "ledger_ok t" and "dec18 x" and "dec18 y" and "settle_leg u p x q y t = (Inr (), t')"
    and "t (u, p) \<noteq> None" and "t (u, q) \<noteq> None"
  shows "ledger_ok t'" and "dom t' = dom t" and "asset_total c t' = asset_total c t + leg_total c p x q y"
proof -
  from assms(4-6) obtain t1 where s: "row_step settle_pessimistic (u, p) x t = (Inr (), t1)"
    and c: "row_step credit_pessimistic (u, q) y t1 = (Inr (), t')"
    by (auto simp: settle_leg_def get_for_update_def run_steps)
  note a = settle_moves [OF assms(1,2) s] and b = credit_moves [OF settle_moves(1) [OF assms(1,2) s] assms(3) c]
  show "ledger_ok t'" "dom t' = dom t" using a b by simp_all
  show "asset_total c t' = asset_total c t + leg_total c p x q y"
    using a(3) [of c] b(3) [of c] by (simp add: leg_total_def)
qed

definition side_total :: "string \<Rightarrow> order_side \<Rightarrow> bool \<Rightarrow> rat \<Rightarrow> rat \<Rightarrow> string \<Rightarrow> string \<Rightarrow> rat" where
  "side_total c taker_side is_taker q x base_asset quote_asset =
     (if is_taker = (taker_side = BUY) then leg_total c quote_asset x base_asset q else leg_total c base_asset q quote_asset x)"

lemma settle_trade_balances_moves:
  assumes "ledger_ok t" and "dec18 q" and "dec18 x" and "settle_trade_balances side tk u q x base quote t = (Inr (), t')"
    and "t (u, base) \<noteq> None" and "t (u, quote) \<noteq> None"
  shows "ledger_ok t' \<and> dom t' = dom t \<and> (\<forall>c. asset_total c t' = asset_total c t + side_total c side tk q x base quote)"
proof (cases "tk = (side = BUY)")
  case True
  then have "settle_leg u quote x base q t = (Inr (), t')" using assms(4) by (auto simp: settle_trade_balances_def split: if_splits)
  from settle_leg_moves [OF assms(1,3,2) this assms(6,5)] True show ?thesis by (simp add: side_total_def)
next
  case False
  then have "settle_leg u base q quote x t = (Inr (), t')" using assms(4) by (auto simp: settle_trade_balances_def split: if_splits)
  from settle_leg_moves [OF assms(1-3) this assms(5,6)] False show ?thesis by (simp add: side_total_def)
qed

lemma update_redis_maker_frame:
  "(\<And>w t. I w \<Longrightarrow> I (w\<lparr>w_redis := t\<rparr>)) \<Longrightarrow> preserves I (update_redis_maker R mo)"
  unfolding update_redis_maker_def by (intro preserves_intros preserves_redP)

lemma activate_frame:
  assumes "\<And>w t. I w \<Longrightarrow> I (w\<lparr>w_redis := t\<rparr>)" and "\<And>w os. I w \<Longrightarrow> I (w\<lparr>w_orders := os\<rparr>)"
  shows "preserves I (activate_sltp_children R to)"
  unfolding activate_sltp_children_def list_children_by_parent_def set_order_def
  by (intro preserves_intros preserves_redP preserves_update_orders assms)

text \<open>The order exists and its user has a row for both assets of the pair.\<close>

definition holds_both :: "string \<Rightarrow> string \<Rightarrow> 's world \<Rightarrow> int \<Rightarrow> bool" where
  "holds_both base_asset quote_asset w i \<longleftrightarrow> (\<exists>row. find (\<lambda>r. o_id r = i) (w_orders w) = Some row \<and>
     w_balances w (o_user_id row, base_asset) \<noteq> None \<and> w_balances w (o_user_id row, quote_asset) \<noteq> None)"

lemma holds_both_set:
  assumes "holds_both base quote w i" and "find (\<lambda>r. o_id r = j) (w_orders w) = Some row"
    and "o_id mo = j" and "o_user_id mo = o_user_id row" and "dom t = dom (w_balances w)"
  shows "holds_both base quote (w1\<lparr>w_orders := map (\<lambda>r. if o_id r = j then store_order mo else r) (w_orders w), w_balances := t\<rparr>) i"
proof -
  from assms(1) obtain r where r: "find (\<lambda>r. o_id r = i) (w_orders w) = Some r" "w_balances w (o_user_id r, base) \<noteq> None"
    "w_balances w (o_user_id r, quote) \<noteq> None" by (auto simp: holds_both_def)
  have "find (\<lambda>r. o_id r = i) (map (\<lambda>r. if o_id r = j then store_order mo else r) (w_orders w)) =
      Some (if o_id r = j then store_order mo else r)"
    using r(1) assms(3) by (subst find_map_upd) auto
  moreover have "o_id r = i" using r(1) by (auto simp: find_Some_iff)
  then have "o_id r = j \<Longrightarrow> o_user_id r = o_user_id mo" using r(1) assms(2,4) by simp
  moreover have "t k \<noteq> None \<longleftrightarrow> w_balances w k \<noteq> None" for k
    using assms(5) by (metis domIff)
  ultimately show ?thesis using r(2,3) by (auto simp: holds_both_def)
qed

lemma fill_simps [simp]:
  "o_id (fill_maker q x row) = o_id row" "o_user_id (fill_maker q x row) = o_user_id row"
  "o_id (fill_taker q x row) = o_id row" "o_user_id (fill_taker q x row) = o_user_id row"
  by (simp_all add: fill_maker_def fill_taker_def Let_def)

lemma settle_maker_moves:
  assumes "settle_maker R side base quote first (i, q, x) w = (Inr (), w1)" and "ledger_ok (w_balances w)"
    and "holds_both base quote w i" and "dec18 q" and "dec18 x"
  shows "ledger_ok (w_balances w1)"
    and "asset_total c (w_balances w1) = asset_total c (w_balances w) + side_total c side False q x base quote"
    and "holds_both base quote w j \<Longrightarrow> holds_both base quote w1 j"
proof -
  from assms(3) obtain row where row: "find (\<lambda>r. o_id r = i) (w_orders w) = Some row"
    "w_balances w (o_user_id row, base) \<noteq> None" "w_balances w (o_user_id row, quote) \<noteq> None" by (auto simp: holds_both_def)
  let ?mo = "fill_maker q x row"
  let ?rows = "map (\<lambda>t. if first \<le> t_id t \<and> t_maker_order_id t = i then t\<lparr>t_maker_user_id := o_user_id ?mo\<rparr> else t) (w_trade_rows w)"
  let ?w = "w\<lparr>w_orders := map (\<lambda>r. if o_id r = i then store_order ?mo else r) (w_orders w), w_trade_rows := ?rows\<rparr>"
  have "o_id row = i" using row(1) by (auto simp: find_Some_iff)
  from assms(1) row(1) obtain wa where b: "balP (settle_trade_balances side False (o_user_id row) q x base quote) ?w = (Inr (), wa)"
    and u: "update_redis_maker R ?mo wa = (Inr (), w1)"
    by (auto simp: settle_maker_def order_get_for_update_def set_order_def update_orders_def modP_def Let_def run_steps)
  from b obtain t where t: "settle_trade_balances side False (o_user_id row) q x base quote (w_balances w) = (Inr (), t)" "wa = ?w\<lparr>w_balances := t\<rparr>"
    by (auto simp: balP_def split: prod.splits)
  note m = settle_trade_balances_moves [OF assms(2,4,5) t(1) row(2,3)]
  have keep: "w_balances w1 = t" "w_orders w1 = w_orders ?w"
    using frameD [OF update_redis_maker_frame u, of w_balances] frameD [OF update_redis_maker_frame u, of w_orders] t(2) by simp_all
  show "ledger_ok (w_balances w1)" using keep m by simp
  show "asset_total c (w_balances w1) = asset_total c (w_balances w) + side_total c side False q x base quote" using keep m by simp
  assume "holds_both base quote w j"
  from holds_both_set [OF this row(1), of ?mo t wa] \<open>o_id row = i\<close> m show "holds_both base quote w1 j"
    using keep by (simp add: holds_both_def)
qed

lemma side_total_add: "side_total c side tk (q + q') (x + x') base quote =
    side_total c side tk q x base quote + side_total c side tk q' x' base quote"
  by (simp add: side_total_def leg_total_def)

lemma side_total_zero [simp]: "side_total c side tk 0 0 base quote = 0"
  by (simp add: side_total_def leg_total_def)

lemma side_total_opposite: "side_total c side True q x base quote = - side_total c side False q x base quote"
  by (simp add: side_total_def leg_total_def)

lemma settle_makers_move:
  assumes "forP ds (settle_maker R side base quote first) w = (Inr (), w1)" and "ledger_ok (w_balances w)"
    and "\<forall>(i, q, x)\<in>set ds. holds_both base quote w i \<and> dec18 q \<and> dec18 x"
  shows "ledger_ok (w_balances w1) \<and> (\<forall>j. holds_both base quote w j \<longrightarrow> holds_both base quote w1 j) \<and>
    asset_total c (w_balances w1) = asset_total c (w_balances w) +
      side_total c side False (\<Sum>(i, q, x)\<leftarrow>ds. q) (\<Sum>(i, q, x)\<leftarrow>ds. x) base quote"
  using assms
proof (induction ds arbitrary: w)
  case Nil
  then show ?case by (simp add: retP_def)
next
  case (Cons d ds)
  obtain i q x where d: "d = (i, q, x)" by (cases d)
  from Cons.prems(1) obtain wa where a: "settle_maker R side base quote first (i, q, x) w = (Inr (), wa)"
    and r: "forP ds (settle_maker R side base quote first) wa = (Inr (), w1)" by (auto simp: run_steps d)
  have h: "holds_both base quote w i" "dec18 q" "dec18 x" using Cons.prems(3) d by auto
  note m = settle_maker_moves [OF a Cons.prems(2) h]
  have "\<forall>(i, q, x)\<in>set ds. holds_both base quote wa i \<and> dec18 q \<and> dec18 x"
    using Cons.prems(3) m(3) by auto
  from Cons.IH [OF r m(1) this] m(2,3) show ?case by (simp add: d side_total_add)
qed

lemma sum_add_delta:
  "(\<Sum>(i, q, x)\<leftarrow>add_delta m q' x' ds. q) = (\<Sum>(i, q, x)\<leftarrow>ds. q) + q'"
  "(\<Sum>(i, q, x)\<leftarrow>add_delta m q' x' ds. x) = (\<Sum>(i, q, x)\<leftarrow>ds. x) + x'"
  by (induction m q' x' ds rule: add_delta.induct) auto

lemma keys_add_delta: "fst ` set (add_delta m q x ds) = insert m (fst ` set ds)"
  by (induction m q x ds rule: add_delta.induct) auto

lemma dec18_add_delta:
  "dec18 q \<Longrightarrow> dec18 x \<Longrightarrow> \<forall>(i, q, x)\<in>set ds. dec18 q \<and> dec18 x \<Longrightarrow> \<forall>(i, q, x)\<in>set (add_delta m q x ds). dec18 q \<and> dec18 x"
  by (induction m q x ds rule: add_delta.induct) auto

lemma collect_fold:
  "(\<Sum>(i, q, x)\<leftarrow>fold (\<lambda>(t, _). add_delta (d_maker_order_id t) (d_quantity t) (d_price t * d_quantity t)) trades ds. q) =
     (\<Sum>(i, q, x)\<leftarrow>ds. q) + (\<Sum>t\<leftarrow>trades. d_quantity (fst t))"
  "(\<Sum>(i, q, x)\<leftarrow>fold (\<lambda>(t, _). add_delta (d_maker_order_id t) (d_quantity t) (d_price t * d_quantity t)) trades ds. x) =
     (\<Sum>(i, q, x)\<leftarrow>ds. x) + (\<Sum>t\<leftarrow>trades. d_price (fst t) * d_quantity (fst t))"
  "fst ` set (fold (\<lambda>(t, _). add_delta (d_maker_order_id t) (d_quantity t) (d_price t * d_quantity t)) trades ds) =
     fst ` set ds \<union> (\<lambda>t. d_maker_order_id (fst t)) ` set trades"
  by (induction trades arbitrary: ds) (auto simp: sum_add_delta keys_add_delta case_prod_beta)

lemma collect_dec18_fold:
  assumes "\<forall>t\<in>set trades. dec18 (d_quantity (fst t)) \<and> dec18 (d_price (fst t) * d_quantity (fst t))" and "\<forall>(i, q, x)\<in>set ds. dec18 q \<and> dec18 x"
  shows "\<forall>(i, q, x)\<in>set (fold (\<lambda>(t, _). add_delta (d_maker_order_id t) (d_quantity t) (d_price t * d_quantity t)) trades ds). dec18 q \<and> dec18 x"
  using assms
proof (induction trades arbitrary: ds)
  case Nil
  then show ?case by simp
next
  case (Cons t trades)
  show ?case
    unfolding fold_simps case_prod_beta comp_apply
    using Cons.prems by (intro Cons.IH [unfolded case_prod_beta] dec18_add_delta [unfolded case_prod_beta]) auto
qed

lemma dec18_sum: "\<forall>t\<in>set ts. dec18 (f t) \<Longrightarrow> dec18 (\<Sum>t\<leftarrow>ts. f t)"
  by (induction ts) auto

lemma add_trades_frame:
  assumes "\<And>w ts n. I w \<Longrightarrow> I (w\<lparr>w_trade_rows := ts, w_next_trade := n\<rparr>)"
  shows "preserves I (forP trades (\<lambda>t. add_trade (f t)))"
  using assms by (intro preserves_for) (simp add: preserves_def add_trade_def)

lemma settle_taker_moves:
  assumes "settle_taker R side base quote i q x w = (Inr (), w1)" and "ledger_ok (w_balances w)"
    and "holds_both base quote w i" and "dec18 q" and "dec18 x"
  shows "ledger_ok (w_balances w1)"
    and "asset_total c (w_balances w1) = asset_total c (w_balances w) + side_total c side True q x base quote"
proof -
  from assms(3) obtain row where row: "find (\<lambda>r. o_id r = i) (w_orders w) = Some row"
    "w_balances w (o_user_id row, base) \<noteq> None" "w_balances w (o_user_id row, quote) \<noteq> None" by (auto simp: holds_both_def)
  let ?to = "fill_taker q x row"
  let ?w = "w\<lparr>w_orders := map (\<lambda>r. if o_id r = i then store_order ?to else r) (w_orders w)\<rparr>"
  from assms(1) row(1) obtain wa where b: "balP (settle_trade_balances side True (o_user_id row) q x base quote) ?w = (Inr (), wa)"
    and u: "(if o_status ?to = FILLED then activate_sltp_children R ?to else retP ()) wa = (Inr (), w1)"
    by (auto simp: settle_taker_def order_get_for_update_def set_order_def update_orders_def Let_def run_steps)
  from b obtain t where t: "settle_trade_balances side True (o_user_id row) q x base quote (w_balances w) = (Inr (), t)" "wa = ?w\<lparr>w_balances := t\<rparr>"
    by (auto simp: balP_def split: prod.splits)
  note m = settle_trade_balances_moves [OF assms(2,4,5) t(1) row(2,3)]
  let ?m = "if o_status ?to = FILLED then activate_sltp_children R ?to else retP ()"
  have "preserves (\<lambda>w. w_balances w = k) ?m" for k by (intro preserves_intros activate_frame) simp_all
  from frameD [where f = w_balances and m = ?m, OF this u] have keep: "w_balances w1 = t" by (simp add: t(2))
  show "ledger_ok (w_balances w1)" using keep m by simp
  show "asset_total c (w_balances w1) = asset_total c (w_balances w) + side_total c side True q x base quote" using keep m by simp
qed

lemma persist_steps:
  assumes "persist_trade_batch R trades u i side symbol base quote w = (Inr rows, w1)" and "trades \<noteq> []"
  obtains wa wb where "w_balances wa = w_balances w" and "w_orders wa = w_orders w"
    and "forP (collect_deltas trades) (settle_maker R side base quote (w_next_trade w)) wa = (Inr (), wb)"
    and "settle_taker R side base quote i (\<Sum>t\<leftarrow>trades. d_quantity (fst t)) (\<Sum>t\<leftarrow>trades. d_price (fst t) * d_quantity (fst t)) wb = (Inr (), w1)"
proof -
  from assms obtain wa wb where a: "forP trades (\<lambda>t. add_trade (trade_row u i side symbol t)) w = (Inr (), wa)"
    and b: "forP (collect_deltas trades) (settle_maker R side base quote (w_next_trade w)) wa = (Inr (), wb)"
    and c: "settle_taker R side base quote i (\<Sum>t\<leftarrow>trades. d_quantity (fst t)) (\<Sum>t\<leftarrow>trades. d_price (fst t) * d_quantity (fst t)) wb = (Inr (), w1)"
    by (auto simp: persist_trade_batch_def run_steps)
  have "w_balances wa = w_balances w" "w_orders wa = w_orders w" by (rule frameD [OF add_trades_frame a]; simp)+
  with b c that show thesis by blast
qed

text \<open>
  When the taker's and all makers' orders exist, their users have a balance row for both assets, and quantities and quote
  amounts have at most eighteen decimals, persisting a batch leaves the total of every asset unchanged.
\<close>

lemma persist_conserves:
  assumes "persist_trade_batch R trades u i side symbol base quote w = (Inr rows, w1)" and "ledger_ok (w_balances w)"
    and "holds_both base quote w i" and "\<forall>t\<in>set trades. holds_both base quote w (d_maker_order_id (fst t))"
    and "\<forall>t\<in>set trades. dec18 (d_quantity (fst t)) \<and> dec18 (d_price (fst t) * d_quantity (fst t))"
  shows "asset_total c (w_balances w1) = asset_total c (w_balances w) \<and> ledger_ok (w_balances w1)"
proof (cases "trades = []")
  case True
  then show ?thesis using assms(1,2) by (simp add: persist_trade_batch_def retP_def)
next
  case False
  let ?q = "\<Sum>t\<leftarrow>trades. d_quantity (fst t)" and ?x = "\<Sum>t\<leftarrow>trades. d_price (fst t) * d_quantity (fst t)"
  obtain wa wb where keep: "w_balances wa = w_balances w" "w_orders wa = w_orders w"
    and b: "forP (collect_deltas trades) (settle_maker R side base quote (w_next_trade w)) wa = (Inr (), wb)"
    and c: "settle_taker R side base quote i ?q ?x wb = (Inr (), w1)"
    by (rule persist_steps [OF assms(1) False])
  have h: "holds_both base quote wa j \<longleftrightarrow> holds_both base quote w j" for j using keep by (simp add: holds_both_def)
  have keys: "fst ` set (collect_deltas trades) = (\<lambda>t. d_maker_order_id (fst t)) ` set trades"
    and sums: "(\<Sum>(i, q, x)\<leftarrow>collect_deltas trades. q) = ?q" "(\<Sum>(i, q, x)\<leftarrow>collect_deltas trades. x) = ?x"
    using collect_fold [of trades "[]"] by (simp_all add: collect_deltas_def)
  have "\<forall>(j, q, x)\<in>set (collect_deltas trades). dec18 q \<and> dec18 x"
    using collect_dec18_fold [OF assms(5), of "[]"] by (simp add: collect_deltas_def)
  moreover have "\<forall>d\<in>set (collect_deltas trades). holds_both base quote wa (fst d)"
    using assms(4) keys h by (metis (no_types, lifting) image_iff)
  ultimately have "\<forall>(j, q, x)\<in>set (collect_deltas trades). holds_both base quote wa j \<and> dec18 q \<and> dec18 x" by fastforce
  from settle_makers_move [OF b _ this, of c] keep(1) assms(2)
  have m: "ledger_ok (w_balances wb)" "\<forall>j. holds_both base quote w j \<longrightarrow> holds_both base quote wb j"
    "asset_total c (w_balances wb) = asset_total c (w_balances w) + side_total c side False ?q ?x base quote"
    using sums h by auto
  have taker: "holds_both base quote wb i" "dec18 ?q" "dec18 ?x" using m(2) assms(3,5) by (auto intro: dec18_sum)
  show ?thesis using settle_taker_moves [OF c m(1) taker] m(3) by (simp add: side_total_opposite)
qed


text \<open>
  An example: user 1 buys 2 at 100 from the resting order of user 2, which sells 5; user 1's order asked for 3.
\<close>

definition two_users :: balance_tbl where
  "two_users = [(1, ''USDT'') \<mapsto> funds 1 ''USDT'' 300 700, (1, ''BTC'') \<mapsto> funds 1 ''BTC'' 0 0,
     (2, ''BTC'') \<mapsto> funds 2 ''BTC'' 5 0, (2, ''USDT'') \<mapsto> funds 2 ''USDT'' 0 0]"

definition two_at_100 :: domain_trade where
  "two_at_100 = \<lparr>d_taker_order_id = 2, d_maker_order_id = 1, d_symbol = ''BTC/USDT'', d_price = 100, d_quantity = 2,
     d_quote_quantity = 200, d_side = BUY\<rparr>"

definition crossed :: "mem_state world" where
  "crossed = market two_users [limit_row 1 2 SELL 100 5, limit_row 2 1 BUY 100 3] empty_redis"

lemma two_users_ok: "ledger_ok two_users"
  by (auto simp: ledger_ok_def row_ok_def balance_ok_def two_users_def funds_def split: if_splits)

lemma crossed_simps: "w_balances crossed = two_users" "w_redis crossed = empty_redis"
  by (simp_all add: crossed_def market_def)

lemma crossed_holds: "holds_both ''BTC'' ''USDT'' crossed 2" "holds_both ''BTC'' ''USDT'' crossed 1"
  by (simp_all add: holds_both_def crossed_def market_def limit_row_def two_users_def)

lemma persist_conserves_example:
  "(let r = persist_trade_batch mem_redis [(two_at_100, 2)] 1 2 BUY ''BTC/USDT'' ''BTC'' ''USDT'' crossed in
     is_ok (fst r) \<and> asset_total ''USDT'' (w_balances (snd r)) = asset_total ''USDT'' two_users)"
proof -
  let ?r = "persist_trade_batch mem_redis [(two_at_100, 2)] 1 2 BUY ''BTC/USDT'' ''BTC'' ''USDT'' crossed"
  have ok: "is_ok (fst ?r)" by code_simp
  then obtain rows w1 where r: "?r = (Inr rows, w1)" by (rule is_ok_runE)
  have d: "\<forall>t\<in>set [(two_at_100, 2::int)]. dec18 (d_quantity (fst t)) \<and> dec18 (d_price (fst t) * d_quantity (fst t))"
    by (simp add: two_at_100_def)
  from persist_conserves [OF r _ crossed_holds(1) _ d, of "''USDT''"] crossed_holds two_users_ok
  show ?thesis using ok r by (simp add: crossed_simps two_at_100_def)
qed


subsection \<open>What a batch does to the orders\<close>

abbreviation order_at :: "'s world \<Rightarrow> int \<Rightarrow> order option" where
  "order_at w i \<equiv> find (\<lambda>r. o_id r = i) (w_orders w)"

lemma order_at_id: "order_at w i = Some row \<Longrightarrow> o_id row = i"
  by (auto simp: find_Some_iff)

lemma order_at_mem: "order_at w i = Some row \<Longrightarrow> row \<in> set (w_orders w)"
  by (auto simp: find_Some_iff)

lemma find_set:
  assumes "\<And>r. o_id r = i \<Longrightarrow> o_id (f r) = i"
  shows "find (\<lambda>r. o_id r = j) (map (\<lambda>r. if o_id r = i then store_order (f r) else r) rs) =
    (if j = i then map_option (\<lambda>r. store_order (f r)) (find (\<lambda>r. o_id r = i) rs) else find (\<lambda>r. o_id r = j) rs)"
  using assms by (induction rs) auto

text \<open>The orders with keys in \<open>S\<close> are not children of order \<open>i\<close>.\<close>

definition no_children_in :: "int \<Rightarrow> int set \<Rightarrow> 's world \<Rightarrow> bool" where
  "no_children_in i S w \<longleftrightarrow> (\<forall>r\<in>set (w_orders w). o_parent_order_id r = Some i \<longrightarrow> o_id r \<notin> S)"

lemma fill_parent [simp]: "o_parent_order_id (fill_maker q x row) = o_parent_order_id row"
  "o_parent_order_id (fill_taker q x row) = o_parent_order_id row"
  by (simp_all add: fill_maker_def fill_taker_def Let_def)

lemma settle_maker_orders:
  assumes "settle_maker R side base quote first (i, q, x) w = (Inr (), w1)"
  shows "order_at w1 j = (if j = i then map_option (\<lambda>r. store_order (fill_maker q x r)) (order_at w i) else order_at w j)"
    and "no_children_in k S w \<Longrightarrow> no_children_in k S w1"
proof -
  have "order_at w1 j = (if j = i then map_option (\<lambda>r. store_order (fill_maker q x r)) (order_at w i) else order_at w j) \<and>
    (no_children_in k S w \<longrightarrow> no_children_in k S w1)"
  proof (cases "order_at w i")
    case None
    then show ?thesis using assms by (auto simp: settle_maker_def order_get_for_update_def run_steps)
  next
    case (Some row)
    let ?mo = "fill_maker q x row" and ?os = "map (\<lambda>r. if o_id r = i then store_order (fill_maker q x row) else r) (w_orders w)"
    let ?w = "w\<lparr>w_orders := ?os, w_trade_rows := map (\<lambda>t. if first \<le> t_id t \<and> t_maker_order_id t = i
      then t\<lparr>t_maker_user_id := o_user_id ?mo\<rparr> else t) (w_trade_rows w)\<rparr>"
    from assms Some obtain wb where b: "balP (settle_trade_balances side False (o_user_id row) q x base quote) ?w = (Inr (), wb)"
      and u: "update_redis_maker R ?mo wb = (Inr (), w1)"
      by (auto simp: settle_maker_def order_get_for_update_def set_order_def update_orders_def modP_def Let_def run_steps)
    have "w_orders wb = ?os" using b by (auto simp: balP_def split: prod.splits)
    moreover have "w_orders w1 = w_orders wb" by (rule frameD [OF update_redis_maker_frame u]) simp
    ultimately have os: "w_orders w1 = ?os" by simp
    have id: "o_id row = i" using Some by (rule order_at_id)
    have "order_at w1 j = (if j = i then map_option (\<lambda>r. store_order ?mo) (order_at w i) else order_at w j)"
      unfolding os by (rule find_set) (simp add: id)
    moreover have "no_children_in k S w \<longrightarrow> no_children_in k S w1"
      using order_at_mem [OF Some] id by (auto simp: no_children_in_def os)
    ultimately show ?thesis using Some by simp
  qed
  then show "order_at w1 j = (if j = i then map_option (\<lambda>r. store_order (fill_maker q x r)) (order_at w i) else order_at w j)"
    and "no_children_in k S w \<Longrightarrow> no_children_in k S w1" by auto
qed

lemma settle_makers_orders:
  assumes "forP ds (settle_maker R side base quote first) w = (Inr (), w1)" and "distinct (map fst ds)"
  shows "order_at w1 j = (case map_of ds j of None \<Rightarrow> order_at w j
      | Some (q, x) \<Rightarrow> map_option (\<lambda>r. store_order (fill_maker q x r)) (order_at w j))"
    and "no_children_in k S w \<Longrightarrow> no_children_in k S w1"
  using assms
proof (induction ds arbitrary: w)
  case Nil
  { case 1 with Nil show ?case by (simp add: retP_def) }
  { case 2 with Nil show ?case by (simp add: retP_def) }
next
  case (Cons d ds)
  obtain i q x where d: "d = (i, q, x)" by (cases d)
  { case 1
    then obtain wa where a: "settle_maker R side base quote first (i, q, x) w = (Inr (), wa)"
      and r: "forP ds (settle_maker R side base quote first) wa = (Inr (), w1)" by (auto simp: run_steps d)
    have "map_of ds i = None" using 1(2) by (simp add: map_of_eq_None_iff d)
    then show ?case using Cons.IH(1) [OF r] 1(2) settle_maker_orders(1) [OF a, of j] by (cases "j = i") (auto simp: d split: option.split) }
  { case 2
    then obtain wa where a: "settle_maker R side base quote first (i, q, x) w = (Inr (), wa)"
      and r: "forP ds (settle_maker R side base quote first) wa = (Inr (), w1)" by (auto simp: run_steps d)
    show ?case using Cons.IH(2) [OF _ r] 2(1,3) settle_maker_orders(2) [OF a] by simp }
qed

lemma activate_children_orders:
  assumes "forP cs (\<lambda>child. if o_status child \<noteq> PENDING then retP ()
       else seqP (set_order (o_id child) (\<lambda>r. r\<lparr>o_status := NEW, o_version := o_version r + 1\<rparr>))
         (redP (enqueue_order_action R (child_payload p child)))) w = (Inr (), w1)"
    and "\<forall>c\<in>set cs. o_id c \<noteq> j"
  shows "order_at w1 j = order_at w j"
  using assms
proof (induction cs arbitrary: w)
  case Nil
  then show ?case by (simp add: retP_def)
next
  case (Cons c cs)
  from Cons.prems(1) obtain wa where a: "(if o_status c \<noteq> PENDING then retP ()
       else seqP (set_order (o_id c) (\<lambda>r. r\<lparr>o_status := NEW, o_version := o_version r + 1\<rparr>))
         (redP (enqueue_order_action R (child_payload p c)))) w = (Inr (), wa)"
    and r: "forP cs (\<lambda>child. if o_status child \<noteq> PENDING then retP ()
       else seqP (set_order (o_id child) (\<lambda>r. r\<lparr>o_status := NEW, o_version := o_version r + 1\<rparr>))
         (redP (enqueue_order_action R (child_payload p child)))) wa = (Inr (), w1)" by (auto simp: run_steps)
  have ne: "o_id c \<noteq> j" using Cons.prems(2) by simp
  have "order_at wa j = order_at w j"
  proof (cases "o_status c \<noteq> PENDING")
    case True
    then show ?thesis using a by (simp add: retP_def)
  next
    case False
    let ?f = "\<lambda>r. r\<lparr>o_status := NEW, o_version := o_version r + 1\<rparr>"
    from a False have e: "redP (enqueue_order_action R (child_payload p c))
        (w\<lparr>w_orders := map (\<lambda>r. if o_id r = o_id c then store_order (?f r) else r) (w_orders w)\<rparr>) = (Inr (), wa)"
      by (auto simp: set_order_def update_orders_def run_steps)
    have "order_at wa j = (if j = o_id c then map_option (\<lambda>r. store_order (?f r)) (order_at w (o_id c)) else order_at w j)"
      unfolding redP_orders [OF e] by (simp add: find_set)
    with ne show ?thesis by simp
  qed
  with Cons.IH [OF r] Cons.prems(2) show ?case by simp
qed

lemma settle_taker_orders:
  assumes "settle_taker R side base quote i q x w = (Inr (), w1)" and "j \<in> S" and "no_children_in i S w"
  shows "order_at w1 j = (if j = i then map_option (\<lambda>r. store_order (fill_taker q x r)) (order_at w i) else order_at w j)"
proof (cases "order_at w i")
  case None
  then show ?thesis using assms(1) by (auto simp: settle_taker_def order_get_for_update_def run_steps)
next
  case (Some row)
  let ?to = "fill_taker q x row" and ?os = "map (\<lambda>r. if o_id r = i then store_order (fill_taker q x row) else r) (w_orders w)"
  from assms(1) Some obtain wb where b: "balP (settle_trade_balances side True (o_user_id row) q x base quote) (w\<lparr>w_orders := ?os\<rparr>) = (Inr (), wb)"
    and u: "(if o_status ?to = FILLED then activate_sltp_children R ?to else retP ()) wb = (Inr (), w1)"
    by (auto simp: settle_taker_def order_get_for_update_def set_order_def update_orders_def Let_def run_steps)
  have os: "w_orders wb = ?os" using b by (auto simp: balP_def split: prod.splits)
  have id: "o_id row = i" using Some by (rule order_at_id)
  have "no_children_in i S wb" using order_at_mem [OF Some] id assms(3) by (auto simp: no_children_in_def os)
  then have "\<forall>c\<in>set (filter (\<lambda>r. o_parent_order_id r = Some i) (w_orders wb)). o_id c \<noteq> j"
    using assms(2) by (auto simp: no_children_in_def)
  then have "order_at w1 j = order_at wb j"
    using u activate_children_orders [of "filter (\<lambda>r. o_parent_order_id r = Some i) (w_orders wb)" R "o_id ?to" wb w1 j]
    by (auto simp: activate_sltp_children_def list_children_by_parent_def id run_steps split: if_splits)
  also have "\<dots> = (if j = i then map_option (\<lambda>r. store_order ?to) (order_at w i) else order_at w j)"
    unfolding os by (rule find_set) (simp add: id)
  finally show ?thesis using Some by simp
qed


lemma distinct_add_delta: "distinct (map fst ds) \<Longrightarrow> distinct (map fst (add_delta m q x ds))"
  by (induction m q x ds rule: add_delta.induct) (auto simp: keys_add_delta simp flip: image_set)

lemma map_of_add_delta: "map_of (add_delta m q x ds) = (map_of ds)(m \<mapsto>
    (case map_of ds m of None \<Rightarrow> (q, x) | Some (q', x') \<Rightarrow> (q' + q, x' + x)))"
  by (induction m q x ds rule: add_delta.induct) (auto simp: fun_eq_iff)

text \<open>The trades with one maker.\<close>

definition trades_of :: "int \<Rightarrow> (domain_trade \<times> int) list \<Rightarrow> (domain_trade \<times> int) list" where
  "trades_of m trades = filter (\<lambda>t. d_maker_order_id (fst t) = m) trades"

lemma trades_of_simps [simp]: "trades_of m [] = []"
  "trades_of m (t # ts) = (if d_maker_order_id (fst t) = m then t # trades_of m ts else trades_of m ts)"
  by (simp_all add: trades_of_def)

lemma collect_map_of: "map_of (fold (\<lambda>(t, _). add_delta (d_maker_order_id t) (d_quantity t) (d_price t * d_quantity t)) trades ds) m =
    (case map_of ds m of
      None \<Rightarrow> if trades_of m trades = [] then None
        else Some (\<Sum>t\<leftarrow>trades_of m trades. d_quantity (fst t), \<Sum>t\<leftarrow>trades_of m trades. d_price (fst t) * d_quantity (fst t))
    | Some (q, x) \<Rightarrow> Some (q + (\<Sum>t\<leftarrow>trades_of m trades. d_quantity (fst t)),
        x + (\<Sum>t\<leftarrow>trades_of m trades. d_price (fst t) * d_quantity (fst t))))"
  by (induction trades arbitrary: ds) (auto simp: map_of_add_delta case_prod_beta split: option.split)

lemma collect_distinct: "distinct (map fst (collect_deltas trades))"
proof -
  have "distinct (map fst ds) \<Longrightarrow> distinct (map fst (fold (\<lambda>(t, _). add_delta (d_maker_order_id t) (d_quantity t) (d_price t * d_quantity t)) trades ds))" for ds
    by (induction trades arbitrary: ds) (auto simp: distinct_add_delta)
  from this [of "[]"] show ?thesis by (simp add: collect_deltas_def)
qed

text \<open>What a batch makes of one order, in terms of the fill.\<close>

lemma persist_orders:
  assumes "persist_trade_batch R trades u i side symbol base quote w = (Inr rows, w1)" and "trades \<noteq> []"
    and "\<forall>t\<in>set trades. d_maker_order_id (fst t) \<noteq> i" and "no_children_in i S w" and "j \<in> S"
  shows "order_at w1 j =
    (if j = i then map_option (\<lambda>r. store_order (fill_taker (\<Sum>t\<leftarrow>trades. d_quantity (fst t))
        (\<Sum>t\<leftarrow>trades. d_price (fst t) * d_quantity (fst t)) r)) (order_at w i)
     else if trades_of j trades \<noteq> [] then map_option (\<lambda>r. store_order (fill_maker (\<Sum>t\<leftarrow>trades_of j trades. d_quantity (fst t))
        (\<Sum>t\<leftarrow>trades_of j trades. d_price (fst t) * d_quantity (fst t)) r)) (order_at w j)
     else order_at w j)"
proof -
  obtain wa wb where o: "w_orders wa = w_orders w"
    and b: "forP (collect_deltas trades) (settle_maker R side base quote (w_next_trade w)) wa = (Inr (), wb)"
    and c: "settle_taker R side base quote i (\<Sum>t\<leftarrow>trades. d_quantity (fst t)) (\<Sum>t\<leftarrow>trades. d_price (fst t) * d_quantity (fst t)) wb = (Inr (), w1)"
    by (rule persist_steps [OF assms(1,2)])
  note m = settle_makers_orders [OF b collect_distinct]
  have "no_children_in i S wb" using m(2) assms(4) o by (simp add: no_children_in_def)
  note t = settle_taker_orders [OF c assms(5) this]
  have d: "map_of (collect_deltas trades) k = (if trades_of k trades = [] then None
        else Some (\<Sum>t\<leftarrow>trades_of k trades. d_quantity (fst t), \<Sum>t\<leftarrow>trades_of k trades. d_price (fst t) * d_quantity (fst t)))" for k
    using collect_map_of [of trades "[]" k] by (simp add: collect_deltas_def)
  have "trades_of i trades = []" using assms(3) by (simp add: trades_of_def)
  then show ?thesis using t m(1) [of i] m(1) [of j] o by (simp add: d)
qed

text \<open>
  C8. A persisted batch fills every order it names by exactly what its trades say: the taker by the sum over the batch
  and each maker by the sum of its own trades, once each, with the status \<open>filled\<close> when the quantity is reached, and
  no other order but the children of the taker changes.
\<close>

theorem trade_batch_fills:
  assumes "persist_trade_batch R trades u i side symbol base quote w = (Inr rows, w1)" and "trades \<noteq> []"
    and "\<forall>t\<in>set trades. d_maker_order_id (fst t) \<noteq> i" and "no_children_in i S w" and "j \<in> S" and "order_at w j = Some r"
    and "ts = (if j = i then trades else trades_of j trades)"
  shows "\<exists>r1. order_at w1 j = Some r1 \<and> (if ts = [] then r1 = r
    else (let filled = o_filled_quantity r + (\<Sum>t\<leftarrow>ts. d_quantity (fst t));
              paid = o_filled_quote_qty r + (\<Sum>t\<leftarrow>ts. d_price (fst t) * d_quantity (fst t)) in
      o_filled_quantity r1 = numeric18 filled \<and> o_filled_quote_qty r1 = numeric18 paid \<and>
      o_quantity r1 = numeric18 (o_quantity r) \<and> o_version r1 = o_version r + 1 \<and>
      o_status r1 = (if o_quantity r \<le> filled then FILLED else if j = i \<and> filled \<le> 0 then o_status r else PARTIALLY_FILLED)))"
proof -
  let ?q = "\<Sum>t\<leftarrow>ts. d_quantity (fst t)" and ?x = "\<Sum>t\<leftarrow>ts. d_price (fst t) * d_quantity (fst t)"
  note p = persist_orders [OF assms(1-5)]
  consider (taker) "j = i" "ts = trades" | (maker) "j \<noteq> i" "ts = trades_of j trades" "ts \<noteq> []" | (other) "j \<noteq> i" "ts = []" "trades_of j trades = []"
    using assms(7) by (cases "j = i"; cases "ts = []") auto
  then show ?thesis
  proof cases
    case taker
    then have "order_at w1 j = Some (store_order (fill_taker ?q ?x r))" using p assms(6) by simp
    then show ?thesis using taker assms(2) by (simp add: fill_taker_def store_order_def Let_def)
  next
    case maker
    then have "order_at w1 j = Some (store_order (fill_maker ?q ?x r))" using p assms(6) by simp
    then show ?thesis using maker by (simp add: fill_maker_def store_order_def Let_def)
  next
    case other
    then show ?thesis using p assms(6) by simp
  qed
qed

theorem trade_batch_fills_witness:
  "(let w1 = snd (persist_trade_batch mem_redis [(two_at_100, 2)] 1 2 BUY ''BTC/USDT'' ''BTC'' ''USDT'' crossed) in
     \<exists>r1. order_at w1 1 = Some r1 \<and> o_filled_quantity r1 = 2 \<and> o_filled_quote_qty r1 = 200 \<and> o_status r1 = PARTIALLY_FILLED)"
proof -
  let ?r = "persist_trade_batch mem_redis [(two_at_100, 2)] 1 2 BUY ''BTC/USDT'' ''BTC'' ''USDT'' crossed"
  have "is_ok (fst ?r)" by code_simp
  then obtain rows w1 where r: "?r = (Inr rows, w1)" by (rule is_ok_runE)
  have c: "no_children_in 2 UNIV crossed" by (simp add: no_children_in_def crossed_def market_def limit_row_def)
  have at: "order_at crossed 1 = Some (limit_row 1 2 SELL 100 5)" by (simp add: crossed_def market_def limit_row_def)
  have t: "[(two_at_100, 2)] = (if (1::int) = 2 then [(two_at_100, 2)] else trades_of 1 [(two_at_100, 2)])" by (simp add: two_at_100_def)
  from trade_batch_fills [OF r _ _ c _ at t]
  have "\<exists>r1. order_at w1 1 = Some r1 \<and> o_filled_quantity r1 = 2 \<and> o_filled_quote_qty r1 = 200 \<and> o_status r1 = PARTIALLY_FILLED"
    by (auto simp: two_at_100_def limit_row_def dec18_numeric18)
  then show ?thesis using r by simp
qed

text \<open>
  C37. A payment is settled even when the receiver has no row for the asset received: for a buyer who holds no row for the
  base asset, settling the trade takes the quote amount out of circulation and hands over nothing, without an error.
\<close>

theorem settlement_without_row_burns:
  assumes "ledger_ok t" and "dec18 x" and "t (u, base) = None" and "t (u, quote) \<noteq> None"
    and "settle_trade_balances BUY True u q x base quote t = (Inr (), t1)"
  shows "asset_total quote t1 = asset_total quote t - x \<and> t1 (u, base) = None \<and>
    (\<forall>c. c \<noteq> quote \<longrightarrow> asset_total c t1 = asset_total c t)"
proof -
  from assms(3-5) have s: "row_step settle_pessimistic (u, quote) x t = (Inr (), t1)"
    by (auto simp: settle_trade_balances_def settle_leg_def get_for_update_def run_steps)
  note m = settle_moves [OF assms(1,2) s]
  have "t1 (u, base) = None" using m(2) assms(3) by (metis domIff)
  with m(3) show ?thesis by simp
qed

theorem settlement_without_row_burns_witness:
  "(let t = [(1, ''USDT'') \<mapsto> funds 1 ''USDT'' 300 700]; r = settle_trade_balances BUY True 1 2 200 ''BTC'' ''USDT'' t in
     fst r = Inr () \<and> asset_total ''USDT'' (snd r) = asset_total ''USDT'' t - 200 \<and> snd r (1, ''BTC'') = None)"
proof -
  let ?t = "[(1, ''USDT'') \<mapsto> funds 1 ''USDT'' 300 700] :: balance_tbl"
  let ?r = "settle_trade_balances BUY True 1 2 200 ''BTC'' ''USDT'' ?t"
  have ok: "fst ?r = Inr ()" by code_simp
  then have r: "?r = (Inr (), snd ?r)" by (metis prod.collapse)
  have "ledger_ok ?t" by (auto simp: ledger_ok_def row_ok_def balance_ok_def funds_def split: if_splits)
  from settlement_without_row_burns [OF this _ _ _ r] ok show ?thesis by simp
qed

end
