(* ===== verification/Stop_Monitor.thy ===== *)
theory Stop_Monitor
  imports Order_Service Trade_Service
begin

section \<open>The stop monitor\<close>

text \<open>
  \<open>services/stop_monitor_service.py\<close>: what the background task does on a trade print and at start-up. The tasks are in
  \<open>Lifecycle\<close>; their subscriptions and the retry delays are left out. An exception of one trigger is logged and the next stop is tried;
  a return from inside the transaction commits it.
\<close>

subsection \<open>Triggering one stop\<close>

definition child_type :: "order \<Rightarrow> order_type" where
  "child_type order = (if o_type order \<in> {STOP_MARKET, TRAILING_STOP} then MARKET else LIMIT)"

definition child_price :: "order \<Rightarrow> rat option" where
  "child_price order = (if o_type order \<in> {STOP_MARKET, TRAILING_STOP} then None else o_price order)"

text \<open>The asset and amount to lock; \<open>None\<close> where the code gives up.\<close>

definition stop_lock :: "'s redis_ops \<Rightarrow> order \<Rightarrow> trading_pair \<Rightarrow> ('s, (string \<times> rat) option) world_prog" where
  "stop_lock R order pair =
     (if o_side order = SELL then retP (Some (p_base_asset pair, o_quantity order))
      else case (child_type order, child_price order) of
        (LIMIT, Some p) \<Rightarrow> retP (Some (p_quote_asset pair, p * o_quantity order))
      | _ \<Rightarrow>
         bindP (redP (get_opposite_orders_for_match R (o_symbol order) ''buy'' 1000)) (\<lambda>ask_orders.
         if ask_orders = [] then retP None
         else case walk_asks ask_orders (o_quantity order) 0 of (remaining_qty, total_cost) \<Rightarrow>
           if 0 < remaining_qty then retP None else retP (Some (p_quote_asset pair, total_cost * (1001 / 1000)))))"

definition stop_child :: "order \<Rightarrow> order" where
  "stop_child order = (new_order (o_user_id order) (o_symbol order) (o_side order) (child_type order) NEW (child_price order)
     None (o_quantity order))\<lparr>o_parent_order_id := Some (o_id order)\<rparr>"

definition stop_payload :: "order \<Rightarrow> order \<Rightarrow> order_action" where
  "stop_payload order child = build_order_action_payload ''place'' (o_id child) (o_symbol child) (o_user_id child)
     (side_value (o_side child)) (type_value (o_type child)) (map_option rnd (truthy (o_price child))) None
     (Some (rnd (o_quantity child))) False None None (Some (o_id order)) None None"

definition stop_metadata :: "order \<Rightarrow> (string \<times> hval) list" where
  "stop_metadata child =
     [(''order_id'', h_int (o_id child)), (''user_id'', h_int (o_user_id child)), (''symbol'', HStr (o_symbol child)),
      (''side'', HStr (side_value (o_side child))), (''type'', HStr (type_value (o_type child))),
      (''price'', h_opt (truthy (o_price child))), (''quantity'', HNum (o_quantity child)), (''is_iceberg'', HStr ''0'')]"

text \<open>The Redis writes for the child, and the removal of the stop from its queue.\<close>

definition publish_child :: "'s redis_ops \<Rightarrow> bool \<Rightarrow> order \<Rightarrow> order \<Rightarrow> ('s, exn, unit) prog" where
  "publish_child R is_trailing order child =
     seqP (enqueue_order_action R (stop_payload order child))
    (seqP (add_open_order R (o_user_id child) (o_symbol child) (o_id child))
    (seqP (store_order_hash R (o_id child) (stop_metadata child))
    (seqP (if is_trailing then remove_trailing_stop R (o_id order) (o_symbol order)
        else remove_stop_order R (o_id order) (o_symbol order))
     (retP ()))))"

definition convert_stop :: "'s redis_ops \<Rightarrow> bool \<Rightarrow> order \<Rightarrow> ('s, unit) world_prog" where
  "convert_stop R is_trailing order =
     seqP (set_order (o_id order) (\<lambda>r. r\<lparr>o_status := FILLED, o_version := o_version r + 1\<rparr>))
    (bindP (add_order (stop_child order)) (\<lambda>child. redP (publish_child R is_trailing order child)))"

definition trigger_stop_order :: "'s redis_ops \<Rightarrow> interference \<Rightarrow> bool \<Rightarrow> int \<Rightarrow> ('s, unit) world_prog" where
  "trigger_stop_order R env is_trailing order_id = transactionP
     (bindP (order_get_for_update order_id) (\<lambda>found. case found of
       None \<Rightarrow> retP ()
     | Some order \<Rightarrow>
       if o_status order \<noteq> PENDING then retP ()
       else bindP (get_by_symbol (o_symbol order)) (\<lambda>pr. case pr of
         None \<Rightarrow> retP ()
       | Some pair \<Rightarrow> bindP (stop_lock R order pair) (\<lambda>lock. case lock of
           None \<Rightarrow> retP ()
         | Some (lock_asset, lock_amount) \<Rightarrow>
             bindP (tryP (bindP (balP (lock_optimistic env (o_user_id order) lock_asset lock_amount)) (\<lambda>_. retP True))
                 (\<lambda>_. retP False)) (\<lambda>locked.
             if locked then convert_stop R is_trailing order else retP ())))))"

subsection \<open>A trade print\<close>

definition trigger_all :: "'s redis_ops \<Rightarrow> interference \<Rightarrow> bool \<Rightarrow> int list \<Rightarrow> ('s, unit) world_prog" where
  "trigger_all R env is_trailing ids =
     forP ids (\<lambda>order_id. tryP (trigger_stop_order R env is_trailing order_id) (\<lambda>_. retP ()))"

text \<open>The new extremes a price sets, \<open>None\<close> for one that stays.\<close>

definition new_high :: "string \<Rightarrow> rat \<Rightarrow> 's world \<Rightarrow> rat option" where
  "new_high symbol price w = (case w_local_high w symbol of
     None \<Rightarrow> Some price | Some h \<Rightarrow> if h < price then Some price else None)"

definition new_low :: "string \<Rightarrow> rat \<Rightarrow> 's world \<Rightarrow> rat option" where
  "new_low symbol price w = (case w_local_low w symbol of
     None \<Rightarrow> Some price | Some l \<Rightarrow> if price < l then Some price else None)"

definition process_trade_print :: "'s redis_ops \<Rightarrow> interference \<Rightarrow> string \<Rightarrow> rat \<Rightarrow> ('s, unit) world_prog" where
  "process_trade_print R env symbol price =
     bindP (getP (\<lambda>w. (new_high symbol price w, new_low symbol price w))) (\<lambda>(high, low).
     seqP (if high \<noteq> None then modP (\<lambda>w. w\<lparr>w_local_high := (w_local_high w)(symbol \<mapsto> price)\<rparr>) else retP ())
    (seqP (if low \<noteq> None then modP (\<lambda>w. w\<lparr>w_local_low := (w_local_low w)(symbol \<mapsto> price)\<rparr>) else retP ())
    (seqP (if high \<noteq> None \<or> low \<noteq> None
        then bindP (redP (update_trailing_extremes R symbol (map_option rnd (truthy high)) (map_option rnd (truthy low)))) (\<lambda>_. retP ())
        else retP ())
    (bindP (redP (get_all_triggered_stops R symbol price)) (\<lambda>triggered.
     seqP (trigger_all R env False triggered)
    (bindP (redP (get_triggered_trailing_stops R symbol price)) (\<lambda>triggered_trailing.
     trigger_all R env True triggered_trailing)))))))"

subsection \<open>Start-up\<close>

definition should_trigger :: "rat \<Rightarrow> order \<Rightarrow> bool" where
  "should_trigger last_price order = (case truthy (o_stop_price order) of
     None \<Rightarrow> False
   | Some stop_price \<Rightarrow> if o_side order = SELL then dec_of_float last_price \<le> stop_price else stop_price \<le> dec_of_float last_price)"

definition rescan_pending_stops :: "'s redis_ops \<Rightarrow> interference \<Rightarrow> string list \<Rightarrow> ('s, unit) world_prog" where
  "rescan_pending_stops R env symbols = forP symbols (\<lambda>symbol.
     bindP (get_last_price symbol) (\<lambda>last. case last of
       None \<Rightarrow> retP ()
     | Some last_price \<Rightarrow> bindP (list_pending_stops_by_symbol symbol) (\<lambda>pending.
         trigger_all R env False (map o_id (filter (should_trigger last_price) pending)))))"


subsection \<open>A stop fires once\<close>

lemma stop_keys: "trailing_state_key i \<noteq> ORDERS_QUEUE" "trailing_key sy \<noteq> stops_key sy'"
  by (simp_all add: trailing_state_key_def ORDERS_QUEUE_def trailing_key_def stops_key_def)

context redis_server
begin

lemma publish_child_runs:
  "\<exists>s1. publish_child R tr order child s = (Inr (), s1) \<and>
    lists (view s1) ORDERS_QUEUE = Action (stop_payload order child) # lists (view s) ORDERS_QUEUE \<and>
    (\<not> tr \<longrightarrow> (\<forall>sy. zsets (view s1) (trailing_key sy) = zsets (view s) (trailing_key sy)))"
  by (auto simp: publish_child_def enqueue_order_action_def add_open_order_def store_order_hash_def stop_metadata_def
      ORDER_HASH_FIELDS_def List.map_filter_def remove_trailing_stop_def remove_stop_order_def prog_defs cmdP_def case_prod_beta
      Let_def view_after forget_def stop_keys stop_keys [symmetric])

lemma convert_stop_runs:
  assumes "keys_fresh w" and "order_at w (o_id order) = Some row"
  obtains w1 where "convert_stop R tr order w = (Inr (), w1)" and "w_balances w1 = w_balances w" and "w_pairs w1 = w_pairs w"
    and "map_option o_status (order_at w1 (o_id order)) = Some FILLED"
    and "order_at w1 (w_next_order w) = Some (store_order ((stop_child order)\<lparr>o_id := w_next_order w\<rparr>))"
    and "lists (view (w_redis w1)) ORDERS_QUEUE =
      Action (stop_payload order ((stop_child order)\<lparr>o_id := w_next_order w\<rparr>)) # lists (view (w_redis w)) ORDERS_QUEUE"
    and "\<not> tr \<longrightarrow> (\<forall>sy. zsets (view (w_redis w1)) (trailing_key sy) = zsets (view (w_redis w)) (trailing_key sy))"
proof -
  let ?f = "\<lambda>r. r\<lparr>o_status := FILLED, o_version := o_version r + 1\<rparr>"
  let ?child = "(stop_child order)\<lparr>o_id := w_next_order w\<rparr>"
  let ?os = "map (\<lambda>r. if o_id r = o_id order then store_order (?f r) else r) (w_orders w)"
  let ?w = "w\<lparr>w_orders := ?os @ [store_order ?child], w_next_order := w_next_order w + 1\<rparr>"
  obtain s1 where s1: "publish_child R tr order ?child (w_redis w) = (Inr (), s1)"
    "lists (view s1) ORDERS_QUEUE = Action (stop_payload order ?child) # lists (view (w_redis w)) ORDERS_QUEUE"
    "\<not> tr \<longrightarrow> (\<forall>sy. zsets (view s1) (trailing_key sy) = zsets (view (w_redis w)) (trailing_key sy))"
    using publish_child_runs by blast
  have run: "convert_stop R tr order w = (Inr (), ?w\<lparr>w_redis := s1\<rparr>)"
    using s1(1) by (simp add: convert_stop_def set_order_def update_orders_def add_order_def Let_def prog_defs redP_def)
  have "o_id order \<noteq> w_next_order w" using assms order_at_id [OF assms(2)] order_at_mem [OF assms(2)] by (auto simp: keys_fresh_def)
  then have "map_option o_status (order_at ?w (o_id order)) = Some FILLED"
    using assms(2) by (simp add: find_app find_set)
  moreover have "find (\<lambda>r. o_id r = w_next_order w) ?os = None"
    using assms(1) by (auto simp: find_None_iff keys_fresh_def)
  then have "order_at ?w (w_next_order w) = Some (store_order ?child)" by (simp add: find_app)
  ultimately show thesis using run s1(2,3) by (intro that [OF run]) simp_all
qed

end

lemma trigger_not_pending:
  "order_at w i = Some order \<Longrightarrow> o_status order \<noteq> PENDING \<Longrightarrow> trigger_stop_order R env tr i w = (Inr (), w)"
  by (simp add: trigger_stop_order_def transactionP_def order_get_for_update_def bindP_def getP_def retP_def)

lemma trigger_runs:
  assumes "redis_server R view" and "keys_fresh w" and "order_at w i = Some order" and "o_status order = PENDING"
    and "find (\<lambda>p. p_symbol p = o_symbol order) (w_pairs w) = Some pair"
    and "stop_lock R order pair w = (Inr (Some (asset, amount)), w)" and "0 < amount"
    and "w_balances w (o_user_id order, asset) = Some b" and "amount \<le> available_balance b"
  obtains w1 where "trigger_stop_order R quiet tr i w = (Inr (), w1)"
    and "w_balances w1 = (w_balances w)((o_user_id order, asset) \<mapsto> b\<lparr>locked_balance := numeric18 (locked_balance b + amount),
           available_balance := numeric18 (available_balance b - amount), b_version := b_version b + 1\<rparr>)"
    and "map_option o_status (order_at w1 i) = Some FILLED"
    and "order_at w1 (w_next_order w) = Some (store_order ((stop_child order)\<lparr>o_id := w_next_order w\<rparr>))"
    and "lists (view (w_redis w1)) ORDERS_QUEUE =
      Action (stop_payload order ((stop_child order)\<lparr>o_id := w_next_order w\<rparr>)) # lists (view (w_redis w)) ORDERS_QUEUE"
    and "\<not> tr \<longrightarrow> (\<forall>sy. zsets (view (w_redis w1)) (trailing_key sy) = zsets (view (w_redis w)) (trailing_key sy))"
proof -
  let ?t = "(w_balances w)((o_user_id order, asset) \<mapsto> b\<lparr>locked_balance := numeric18 (locked_balance b + amount),
           available_balance := numeric18 (available_balance b - amount), b_version := b_version b + 1\<rparr>)"
  have lock: "balP (lock_optimistic quiet (o_user_id order) asset amount) w = (Inr b, w\<lparr>w_balances := ?t\<rparr>)"
    using assms(7-9) by (simp add: balP_def lock_optimistic_quiet)
  have i: "o_id order = i" using assms(3) by (rule order_at_id)
  have "keys_fresh (w\<lparr>w_balances := ?t\<rparr>)" "order_at (w\<lparr>w_balances := ?t\<rparr>) (o_id order) = Some order"
    using assms(2,3) i by (simp_all add: keys_fresh_def)
  note fresh = this
  let ?w = "w\<lparr>w_balances := ?t\<rparr>"
  obtain w1 where c: "convert_stop R tr order ?w = (Inr (), w1)" "w_balances w1 = w_balances ?w"
    "map_option o_status (order_at w1 (o_id order)) = Some FILLED"
    "order_at w1 (w_next_order ?w) = Some (store_order ((stop_child order)\<lparr>o_id := w_next_order ?w\<rparr>))"
    "lists (view (w_redis w1)) ORDERS_QUEUE =
      Action (stop_payload order ((stop_child order)\<lparr>o_id := w_next_order ?w\<rparr>)) # lists (view (w_redis ?w)) ORDERS_QUEUE"
    "\<not> tr \<longrightarrow> (\<forall>sy. zsets (view (w_redis w1)) (trailing_key sy) = zsets (view (w_redis ?w)) (trailing_key sy))"
    by (rule redis_server.convert_stop_runs [OF assms(1) fresh])
  have "trigger_stop_order R quiet tr i w = (Inr (), w1)"
    using assms(3-6) lock c(1)
    by (simp add: trigger_stop_order_def transactionP_def order_get_for_update_def get_by_symbol_def getP_def bindP_def tryP_def retP_def)
  with c i that show thesis by simp
qed


text \<open>
  C15. A stop fires once: a pending stop whose funds are there locks them, becomes filled, gets one child
  market or limit order with the stop as its parent, and queues exactly one action for it; firing it again, by the same or
  another path, changes nothing.
\<close>

theorem stop_fires_once:
  assumes "redis_server R view" and "keys_fresh w" and "order_at w i = Some order" and "o_status order = PENDING"
    and "find (\<lambda>p. p_symbol p = o_symbol order) (w_pairs w) = Some pair"
    and "stop_lock R order pair w = (Inr (Some (asset, amount)), w)" and "0 < amount"
    and "w_balances w (o_user_id order, asset) = Some b" and "amount \<le> available_balance b"
  shows "\<exists>w1. trigger_stop_order R quiet tr i w = (Inr (), w1) \<and>
    w_balances w1 = (w_balances w)((o_user_id order, asset) \<mapsto> b\<lparr>locked_balance := numeric18 (locked_balance b + amount),
           available_balance := numeric18 (available_balance b - amount), b_version := b_version b + 1\<rparr>) \<and>
    map_option o_status (order_at w1 i) = Some FILLED \<and>
    order_at w1 (w_next_order w) = Some (store_order ((stop_child order)\<lparr>o_id := w_next_order w\<rparr>)) \<and>
    lists (view (w_redis w1)) ORDERS_QUEUE =
      Action (stop_payload order ((stop_child order)\<lparr>o_id := w_next_order w\<rparr>)) # lists (view (w_redis w)) ORDERS_QUEUE \<and>
    (\<forall>env tr'. trigger_stop_order R env tr' i w1 = (Inr (), w1))"
proof -
  obtain w1 where t: "trigger_stop_order R quiet tr i w = (Inr (), w1)"
    "w_balances w1 = (w_balances w)((o_user_id order, asset) \<mapsto> b\<lparr>locked_balance := numeric18 (locked_balance b + amount),
           available_balance := numeric18 (available_balance b - amount), b_version := b_version b + 1\<rparr>)"
    "map_option o_status (order_at w1 i) = Some FILLED"
    "order_at w1 (w_next_order w) = Some (store_order ((stop_child order)\<lparr>o_id := w_next_order w\<rparr>))"
    "lists (view (w_redis w1)) ORDERS_QUEUE =
      Action (stop_payload order ((stop_child order)\<lparr>o_id := w_next_order w\<rparr>)) # lists (view (w_redis w)) ORDERS_QUEUE"
    by (rule trigger_runs [OF assms])
  from t(3) obtain row where "order_at w1 i = Some row" "o_status row = FILLED" by auto
  then have "trigger_stop_order R env tr' i w1 = (Inr (), w1)" for env tr'
    using trigger_not_pending [where w = w1 and i = i and order = row] by simp
  with t show ?thesis by blast
qed

text \<open>An example: user 2 asks to sell 5 once the price falls to 90.\<close>

definition stop_row :: order where
  "stop_row = (limit_row 1 2 SELL 0 5)\<lparr>o_type := STOP_MARKET, o_status := PENDING, o_price := None, o_stop_price := Some 90\<rparr>"

definition armed :: "mem_state world" where
  "armed = market [(2, ''BTC'') \<mapsto> funds 2 ''BTC'' 0 5] [stop_row]
     (empty_redis\<lparr>m_zsets := (\<lambda>k. if k = stops_key ''BTC/USDT'' then [(''1'', 90000000)] else [])\<rparr>)"

lemma armed_facts:
  "keys_fresh armed" "order_at armed 1 = Some stop_row" "o_status stop_row = PENDING"
  "find (\<lambda>p. p_symbol p = o_symbol stop_row) (w_pairs armed) = Some btc_usdt"
  "stop_lock R stop_row btc_usdt w = (Inr (Some (''BTC'', 5)), w)"
  "w_balances armed (o_user_id stop_row, ''BTC'') = Some (funds 2 ''BTC'' 0 5)" "available_balance (funds 2 ''BTC'' 0 5) = 5"
  "o_side stop_row = SELL" "o_symbol stop_row = ''BTC/USDT''" "o_quantity stop_row = 5" "p_base_asset btc_usdt = ''BTC''"
  "w_next_order armed = 2" "o_user_id stop_row = 2"
  by (simp_all add: keys_fresh_def armed_def market_def stop_row_def limit_row_def btc_usdt_def stop_lock_def retP_def funds_def)

theorem stop_fires_once_witness:
  "\<exists>w1. trigger_stop_order mem_redis quiet False 1 armed = (Inr (), w1) \<and> map_option o_status (order_at w1 1) = Some FILLED \<and>
     map_option o_type (order_at w1 2) = Some MARKET \<and> trigger_stop_order mem_redis quiet True 1 w1 = (Inr (), w1)"
proof -
  have "(5::rat) \<le> available_balance (funds 2 ''BTC'' 0 5)" by (simp add: armed_facts)
  note once = stop_fires_once [OF mem.redis_server_axioms armed_facts(1-5) _ armed_facts(6) this, of False]
  have "o_type (stop_child stop_row) = MARKET" by (simp add: stop_child_def new_order_def child_type_def stop_row_def)
  with once show ?thesis by (fastforce simp: armed_facts)
qed

subsection \<open>Every trade print fires every stop\<close>

lemma no_trailing:
  assumes "redis_server R view" and "zsets (view s) (trailing_key symbol) = []"
  shows "update_trailing_extremes R symbol h l s = (Inr [], s)" "get_triggered_trailing_stops R symbol price s = (Inr [], s)"
proof -
  have z: "r_zrange R (trailing_key symbol) 0 (- 1) s = []" "r_zrangebyscore R (trailing_key symbol) lo hi s = []" for lo hi
    using assms(2) by (simp_all add: redis_server.zrange [OF assms(1)] redis_server.zrangebyscore [OF assms(1)] slice_def)
  show "update_trailing_extremes R symbol h l s = (Inr [], s)" by (simp add: update_trailing_extremes_def z prog_defs Let_def)
  show "get_triggered_trailing_stops R symbol price s = (Inr [], s)"
    by (simp add: get_triggered_trailing_stops_def both_ranges_def z prog_defs liftP_def)
qed

text \<open>
  A stop fires on the next trade print whatever its price: a sell stop that waits in the queue, with its quantity
  available, is converted to a market or limit order by a print at any price, above or below its stop price.
\<close>

theorem any_print_fires_sell_stop:
  assumes "redis_server R view" and "keys_fresh w" and "order_at w i = Some order" and "o_status order = PENDING"
    and "find (\<lambda>p. p_symbol p = o_symbol order) (w_pairs w) = Some pair" and "o_side order = SELL" and "0 < o_quantity order"
    and "w_balances w (o_user_id order, p_base_asset pair) = Some b" and "o_quantity order \<le> available_balance b"
    and "zsets (view (w_redis w)) (stops_key (o_symbol order)) = [(str_int i, score)]" and "0 \<le> score"
    and "zsets (view (w_redis w)) (trailing_key (o_symbol order)) = []"
  shows "\<exists>w1. process_trade_print R quiet (o_symbol order) price w = (Inr (), w1) \<and> map_option o_status (order_at w1 i) = Some FILLED \<and>
    lists (view (w_redis w1)) ORDERS_QUEUE =
      Action (stop_payload order ((stop_child order)\<lparr>o_id := w_next_order w\<rparr>)) # lists (view (w_redis w)) ORDERS_QUEUE"
proof -
  let ?sy = "o_symbol order"
  let ?h = "new_high ?sy price w" and ?l = "new_low ?sy price w"
  define w0 where "w0 = (let wa = if ?h \<noteq> None then w\<lparr>w_local_high := (w_local_high w)(?sy \<mapsto> price)\<rparr> else w in
    if ?l \<noteq> None then wa\<lparr>w_local_low := (w_local_low wa)(?sy \<mapsto> price)\<rparr> else wa)"
  have same: "w_redis w0 = w_redis w" "w_orders w0 = w_orders w" "w_next_order w0 = w_next_order w" "w_pairs w0 = w_pairs w" "w_balances w0 = w_balances w"
    by (simp_all add: w0_def Let_def)
  have fresh: "keys_fresh w0" and at: "order_at w0 i = Some order" and pr: "find (\<lambda>p. p_symbol p = ?sy) (w_pairs w0) = Some pair"
    and bal: "w_balances w0 (o_user_id order, p_base_asset pair) = Some b"
    using assms(2,3,5,8) same by (simp_all add: keys_fresh_def)
  have lock: "stop_lock R order pair w0 = (Inr (Some (p_base_asset pair, o_quantity order)), w0)"
    using assms(6) by (simp add: stop_lock_def retP_def)
  obtain w1 where t: "trigger_stop_order R quiet False i w0 = (Inr (), w1)" "map_option o_status (order_at w1 i) = Some FILLED"
    "lists (view (w_redis w1)) ORDERS_QUEUE =
      Action (stop_payload order ((stop_child order)\<lparr>o_id := w_next_order w0\<rparr>)) # lists (view (w_redis w0)) ORDERS_QUEUE"
    "\<not> False \<longrightarrow> (\<forall>sy. zsets (view (w_redis w1)) (trailing_key sy) = zsets (view (w_redis w0)) (trailing_key sy))"
    by (rule trigger_runs [OF assms(1) fresh at assms(4) pr lock assms(7) bal assms(9), where tr = False])
  have z: "zsets (view (w_redis w0)) (stops_key ?sy) = map (\<lambda>(i, x). (str_int i, x)) [(i, score)]"
    "\<forall>(i, x)\<in>set [(i, score)]. 0 \<le> x" using assms(10,11) same by simp_all
  from redis_server.both_ranges_all [OF assms(1) z, of "stop_score price"]
  obtain ids where "get_all_triggered_stops R ?sy price (w_redis w0) = (Inr ids, w_redis w0)" "set ids = {i}" "distinct ids"
    by (auto simp: get_all_triggered_stops_def)
  moreover from this(2,3) have "ids = [i]" by (cases ids) (auto simp: subset_singleton_iff)
  ultimately have stops: "redP (get_all_triggered_stops R ?sy price) w0 = (Inr [i], w0)" by (simp add: redP_def)
  have trail: "redP (update_trailing_extremes R ?sy a c) w0 = (Inr [], w0)" "redP (get_triggered_trailing_stops R ?sy price) w1 = (Inr [], w1)" for a c
    using no_trailing [OF assms(1)] assms(12) t(4) same by (simp_all add: redP_def)
  have "process_trade_print R quiet ?sy price w = (Inr (), w1)"
    using stops trail t(1) unfolding w0_def
    by (cases "?h = None"; cases "?l = None")
      (simp_all add: process_trade_print_def trigger_all_def bindP_def seqP_def getP_def modP_def retP_def tryP_def Let_def)
  with t same show ?thesis by auto
qed

theorem any_print_fires_sell_stop_witness:
  "\<exists>w1. process_trade_print mem_redis quiet ''BTC/USDT'' 100 armed = (Inr (), w1) \<and> o_stop_price stop_row = Some 90 \<and>
     map_option o_status (order_at w1 1) = Some FILLED \<and> length (lists (mem_view (w_redis w1)) ORDERS_QUEUE) = 1"
proof -
  have q: "0 < o_quantity stop_row" "o_quantity stop_row \<le> available_balance (funds 2 ''BTC'' 0 5)" by (simp_all add: armed_facts)
  have "str_int 1 = ''1''" by code_simp
  then have z: "zsets (mem_view (w_redis armed)) (stops_key (o_symbol stop_row)) = [(str_int 1, 90000000)]"
    "zsets (mem_view (w_redis armed)) (trailing_key (o_symbol stop_row)) = []" "lists (mem_view (w_redis armed)) ORDERS_QUEUE = []"
    by (simp_all add: armed_def market_def mem_view_def mz_def z_ok_def armed_facts stop_keys empty_redis_def)
  have b: "w_balances armed (o_user_id stop_row, p_base_asset btc_usdt) = Some (funds 2 ''BTC'' 0 5)"
    using armed_facts(6) by (simp add: armed_facts(11))
  have "o_stop_price stop_row = Some 90" by (simp add: stop_row_def)
  with any_print_fires_sell_stop [OF mem.redis_server_axioms armed_facts(1-4,8) q(1) b q(2) z(1) _ z(2), of 100]
  show ?thesis using z(3) by (auto simp: armed_facts)
qed

end
