(* ===== verification/Text_Ops.thy ===== *)
theory Text_Ops
  imports Redis
begin

section \<open>Python's text operations\<close>

text \<open>
  The string methods the request handling uses. A text is the list of its code points; the model has those below 256,
  which is what a header decoded from Latin-1 can hold. \<open>encode("utf-8")\<close> gives one byte for an ASCII character and two
  for the others.
\<close>

definition code :: "char \<Rightarrow> nat" where
  "code c = of_char c"

definition is_ascii :: "string \<Rightarrow> bool" where
  "is_ascii s \<longleftrightarrow> (\<forall>c\<in>set s. code c < 128)"

definition utf8 :: "string \<Rightarrow> string" where
  "utf8 s = concat (map (\<lambda>c. if code c < 128 then [c] else [char_of (192 + code c div 64), char_of (128 + code c mod 64)]) s)"

definition is_space :: "char \<Rightarrow> bool" where
  "is_space c \<longleftrightarrow> (let n = code c in 9 \<le> n \<and> n \<le> 13 \<or> 28 \<le> n \<and> n \<le> 32 \<or> n = 133 \<or> n = 160)"

definition strip :: "string \<Rightarrow> string" where
  "strip s = rev (dropWhile is_space (rev (dropWhile is_space s)))"

definition upper_char :: "char \<Rightarrow> char" where
  "upper_char c = (let n = code c in if 97 \<le> n \<and> n \<le> 122 then char_of (n - 32) else c)"

definition upper :: "string \<Rightarrow> string" where
  "upper s = map upper_char s"

definition startswith :: "string \<Rightarrow> string \<Rightarrow> bool" where
  "startswith s p \<longleftrightarrow> take (length p) s = p"

definition removeprefix :: "string \<Rightarrow> string \<Rightarrow> string" where
  "removeprefix s p = (if startswith s p then drop (length p) s else s)"

text \<open>\<open>s.split(sep)\<close> on one character.\<close>

fun split_on :: "char \<Rightarrow> string \<Rightarrow> string list" where
  "split_on d [] = [[]]"
| "split_on d (c # cs) = (if c = d then [] # split_on d cs
     else case split_on d cs of [] \<Rightarrow> [[c]] | w # ws \<Rightarrow> (c # w) # ws)"

text \<open>
  \<open>int(s)\<close>: surrounding whitespace and a sign are allowed, single underscores may separate digits, and texts of more
  than 4300 digits are refused.
\<close>

fun underscored :: "string \<Rightarrow> string option" where
  "underscored [] = None"
| "underscored [c] = (if digit_val c = None then None else Some [c])"
| "underscored (c # d # cs) = (if digit_val c = None then None
     else if d = CHR ''_'' then map_option (Cons c) (underscored cs)
     else map_option (Cons c) (underscored (d # cs)))"

definition py_int :: "string \<Rightarrow> (exn, int) result" where
  "py_int s = (let t = strip s;
       sign = (if t \<noteq> [] \<and> hd t = CHR ''-'' then -1 else 1);
       body = (if t \<noteq> [] \<and> (hd t = CHR ''-'' \<or> hd t = CHR ''+'') then tl t else t) in
     case underscored body of
       None \<Rightarrow> Inl (ValueError ''invalid literal for int()'')
     | Some ds \<Rightarrow> if 4300 < length ds then Inl (ValueError ''Exceeds the limit for integer string conversion'')
         else case read_nat ds of
           None \<Rightarrow> Inl (ValueError ''invalid literal for int()'')
         | Some n \<Rightarrow> Inr (sign * int n))"

subsection \<open>Reading back a printed integer\<close>

lemma digit_val_None_underscore: "digit_val CHR ''_'' = None"
  by code_simp

lemma underscored_digits: "list_all (\<lambda>c. digit_val c \<noteq> None) ds \<Longrightarrow> ds \<noteq> [] \<Longrightarrow> underscored ds = Some ds"
  by (induction ds rule: underscored.induct) (auto simp: digit_val_None_underscore)

lemma digits_are_digits: "list_all (\<lambda>c. digit_val c \<noteq> None) (digits n)"
proof (induction n rule: less_induct)
  case (less n)
  show ?case
    by (subst digits.simps) (use less.IH [of "n div 10"] in \<open>auto simp: digit_val_digit\<close>)
qed

lemma digit_not_special:
  assumes "digit_val c \<noteq> None"
  shows "\<not> is_space c" "c \<noteq> CHR ''-''" "c \<noteq> CHR ''+''"
  using assms by (auto simp: digit_val_def is_space_def code_def Let_def split: if_splits)

lemma strip_none: "s \<noteq> [] \<Longrightarrow> \<not> is_space (hd s) \<Longrightarrow> \<not> is_space (last s) \<Longrightarrow> strip s = s"
proof -
  assume s: "s \<noteq> []" "\<not> is_space (hd s)" "\<not> is_space (last s)"
  then have "dropWhile is_space s = s" by (cases s) auto
  moreover have "dropWhile is_space (rev s) = rev s" using s by (cases s rule: rev_cases) auto
  ultimately show ?thesis by (simp add: strip_def)
qed

lemma py_int_str_int:
  assumes "0 \<le> i" and "length (str_int i) \<le> 4300"
  shows "py_int (str_int i) = Inr i"
proof -
  let ?d = "digits (nat i)"
  have s: "str_int i = ?d" using assms(1) by (simp add: str_int_def)
  have ne: "?d \<noteq> []" by (rule digits_not_Nil)
  have all: "digit_val c \<noteq> None" if "c \<in> set ?d" for c using digits_are_digits [of "nat i"] that by (auto simp: list_all_iff)
  have "strip ?d = ?d"
    using ne digit_not_special(1) [OF all [OF hd_in_set [OF ne]]] digit_not_special(1) [OF all [OF last_in_set [OF ne]]]
    by (intro strip_none)
  moreover have "underscored ?d = Some ?d" by (rule underscored_digits [OF digits_are_digits ne])
  ultimately show ?thesis
    using ne digit_not_special(2,3) [OF all [OF hd_in_set [OF ne]]] assms
    by (simp add: py_int_def s read_nat_def read_digits_digits Let_def)
qed

end
