(* ===== verification/Accounts.thy ===== *)
theory Accounts
  imports World Text_Ops
begin

section \<open>The generic repository, users, API keys and trading pairs\<close>

text \<open>
  \<open>repositories/base.py\<close>, \<open>user_repo.py\<close>, \<open>api_key_repo.py\<close>. A table with a serial key is the list of its rows with
  the next value of its sequence; one further column is unique (\<open>users.email\<close>, \<open>api_keys.api_key\<close>,
  \<open>trading_pairs.symbol\<close>), and an insert that repeats a value there raises and still uses up a number of the sequence.
\<close>

type_synonym 'r table = "'r list \<times> int"

type_synonym ('r, 'a) table_prog = "('r table, exn, 'a) prog"

definition scalar_one_or_none :: "'r list \<Rightarrow> (exn, 'r option) result" where
  "scalar_one_or_none rows = (case rows of [] \<Rightarrow> Inr None | [r] \<Rightarrow> Inr (Some r) | _ \<Rightarrow> Inl MultipleResultsFound)"

definition base_get :: "('r \<Rightarrow> int) \<Rightarrow> int \<Rightarrow> ('r, 'r option) table_prog" where
  "base_get key i = getP (\<lambda>(rows, n). find (\<lambda>r. key r = i) rows)"

text \<open>
  \<open>order_by\<close> names a column; a name the model does not have leaves the order of the table. Rows that agree on the
  column keep it too, where SQL leaves their order open.
\<close>

definition get_multi :: "nat \<Rightarrow> nat \<Rightarrow> ('r \<Rightarrow> 'c::linorder) option \<Rightarrow> bool \<Rightarrow> ('r, 'r list) table_prog" where
  "get_multi offset limit order_by order_desc = getP (\<lambda>(rows, n). page offset limit
     (case order_by of None \<Rightarrow> rows | Some col \<Rightarrow> if order_desc then rev (sort_key col (rev rows)) else sort_key col rows))"

definition base_count :: "('r, int) table_prog" where
  "base_count = getP (\<lambda>(rows, n). int (length rows))"

definition base_create :: "('r \<Rightarrow> 'u) \<Rightarrow> (int \<Rightarrow> 'r \<Rightarrow> 'r) \<Rightarrow> 'r \<Rightarrow> ('r, 'r) table_prog" where
  "base_create uniq with_key r t = (case t of (rows, n) \<Rightarrow>
     if uniq r \<in> set (map uniq rows) then (Inl IntegrityError, (rows, n + 1))
     else (Inr (with_key n r), (rows @ [with_key n r], n + 1)))"

definition base_update :: "('r \<Rightarrow> int) \<Rightarrow> int \<Rightarrow> ('r \<Rightarrow> 'r) \<Rightarrow> ('r, 'r option) table_prog" where
  "base_update key i setattrs = bindP (base_get key i) (\<lambda>obj. case obj of
       None \<Rightarrow> retP None
     | Some r \<Rightarrow> seqP (modP (\<lambda>(rows, n). (map (\<lambda>x. if key x = i then setattrs x else x) rows, n)))
         (retP (Some (setattrs r))))"

definition base_delete :: "('r \<Rightarrow> int) \<Rightarrow> int \<Rightarrow> ('r, bool) table_prog" where
  "base_delete key i = bindP (base_get key i) (\<lambda>obj. case obj of
       None \<Rightarrow> retP False
     | Some r \<Rightarrow> seqP (modP (\<lambda>(rows, n). (filter (\<lambda>x. key x \<noteq> i) rows, n))) (retP True))"

lemmas base_defs = base_get_def base_count_def base_create_def base_update_def base_delete_def

declare base_get_def [exec_defs] base_create_def [exec_defs] base_update_def [exec_defs] base_delete_def [exec_defs]
  scalar_one_or_none_def [exec_defs]

definition table_ok :: "('r \<Rightarrow> int) \<Rightarrow> ('r \<Rightarrow> 'u) \<Rightarrow> 'r table \<Rightarrow> bool" where
  "table_ok key uniq t \<longleftrightarrow> distinct (map key (fst t)) \<and> distinct (map uniq (fst t)) \<and> (\<forall>r\<in>set (fst t). key r < snd t)"

subsection \<open>What a repository promises\<close>

lemma find_key_Some:
  "distinct (map key rows) \<Longrightarrow> r \<in> set rows \<Longrightarrow> key r = i \<Longrightarrow> find (\<lambda>x. key x = i) rows = Some r"
  by (induction rows) (auto simp: image_iff)

lemma find_key_None: "find (\<lambda>x. key x = i) rows = None \<longleftrightarrow> i \<notin> key ` set rows"
  by (induction rows) auto

lemma filter_uniq: "distinct (map f rows) \<Longrightarrow> r \<in> set rows \<Longrightarrow> filter (\<lambda>x. f x = f r) rows = [r]"
proof (induction rows)
  case Nil
  then show ?case by simp
next
  case (Cons x xs)
  show ?case
  proof (cases "r = x")
    case True
    then have "filter (\<lambda>y. f y = f r) xs = []" using Cons.prems(1) by (auto simp: filter_empty_conv image_iff)
    then show ?thesis using True by simp
  next
    case False
    then have "f x \<noteq> f r" using Cons.prems by (auto simp: image_iff)
    then show ?thesis using Cons False by simp
  qed
qed

lemma image_map_if: "(\<And>r. h (f r) = h r) \<Longrightarrow> h ` set (map (\<lambda>x. if P x then f x else x) rows) = h ` set rows"
  by (induction rows) auto

lemma scalar_filter_uniq:
  assumes "distinct (map f rows)"
  shows "scalar_one_or_none (filter (\<lambda>x. f x = v) rows) = Inr (find (\<lambda>x. f x = v) rows)"
proof (cases "find (\<lambda>x. f x = v) rows")
  case None
  then have "filter (\<lambda>x. f x = v) rows = []" by (simp add: find_None_iff_all filter_empty_conv)
  then show ?thesis using None by (simp add: scalar_one_or_none_def)
next
  case (Some r)
  then have "r \<in> set rows" "f r = v" by (auto dest: find_SomeD)
  then show ?thesis using filter_uniq [OF assms, of r] Some by (simp add: scalar_one_or_none_def)
qed

lemma scalar_one_or_noneD: "scalar_one_or_none (filter P rows) = Inr (Some r) \<Longrightarrow> r \<in> set rows \<and> P r"
proof -
  assume "scalar_one_or_none (filter P rows) = Inr (Some r)"
  then have "filter P rows = [r]" by (auto simp: scalar_one_or_none_def split: list.splits)
  then have "r \<in> set (filter P rows)" by simp
  then show ?thesis by simp
qed

lemma scalar_two: "a \<in> set xs \<Longrightarrow> b \<in> set xs \<Longrightarrow> a \<noteq> b \<Longrightarrow> scalar_one_or_none xs = Inl MultipleResultsFound"
  by (cases xs rule: remdups_adj.cases) (auto simp: scalar_one_or_none_def)

locale repository =
  fixes key :: "'r \<Rightarrow> int" and uniq :: "'r \<Rightarrow> 'u" and with_key :: "int \<Rightarrow> 'r \<Rightarrow> 'r"
  assumes key_with_key: "key (with_key i r) = i"
    and uniq_with_key: "uniq (with_key i r) = uniq r"
begin

lemma create_ok: "preserves (table_ok key uniq) (base_create uniq with_key r)"
proof (rule preservesI)
  fix t assume t: "table_ok key uniq t"
  obtain rows n where rows: "t = (rows, n)" by (cases t)
  have "key x < n" if "x \<in> set rows" for x using t that by (auto simp: table_ok_def rows)
  then have "n \<notin> key ` set rows" "\<forall>x\<in>set rows. key x < n + 1" by force+
  then show "table_ok key uniq (snd (base_create uniq with_key r t))"
    using t by (auto simp: table_ok_def base_create_def key_with_key uniq_with_key rows)
qed

lemma update_ok:
  assumes "\<And>r. key (f r) = key r" and "\<And>r. uniq (f r) = uniq r"
  shows "preserves (table_ok key uniq) (base_update key i f)"
proof (rule preservesI)
  fix t assume t: "table_ok key uniq t"
  let ?f = "\<lambda>x. if key x = i then f x else x"
  have "map key (map ?f rows) = map key rows" "map uniq (map ?f rows) = map uniq rows" for rows
    using assms by auto
  then show "table_ok key uniq (snd (base_update key i f t))"
    using t assms by (auto simp: table_ok_def base_update_def base_get_def prog_defs split: prod.splits option.splits simp del: map_map)
qed

lemma delete_ok: "preserves (table_ok key uniq) (base_delete key i)"
  by (rule preservesI)
    (auto simp: table_ok_def base_delete_def base_get_def prog_defs distinct_map_filter split: prod.splits option.splits)

lemma created:
  assumes "table_ok key uniq t" and "base_create uniq with_key r t = (Inr r1, t1)"
  shows "r1 = with_key (snd t) r" and "fst (base_get key (key r1) t1) = Inr (Some r1)"
    and "j \<noteq> key r1 \<Longrightarrow> fst (base_get key j t1) = fst (base_get key j t)"
    and "scalar_one_or_none (filter (\<lambda>x. uniq x = uniq r) (fst t1)) = Inr (Some r1)"
proof -
  obtain rows n where t: "t = (rows, n)" by (cases t)
  have new: "uniq r \<notin> uniq ` set rows" "r1 = with_key n r" "t1 = (rows @ [with_key n r], n + 1)"
    using assms(2) by (auto simp: t base_create_def split: if_splits)
  have fresh: "n \<notin> key ` set rows" using assms(1) by (auto simp: t table_ok_def)
  have none: "find (\<lambda>x. key x = n) rows = None" using fresh using find_key_None [of key n rows] by blast
  have "filter (\<lambda>x. uniq x = uniq r) rows = []" using new(1) unfolding filter_empty_conv by (metis imageI)
  then show "scalar_one_or_none (filter (\<lambda>x. uniq x = uniq r) (fst t1)) = Inr (Some r1)"
    by (simp add: new scalar_one_or_none_def uniq_with_key)
  show "r1 = with_key (snd t) r" by (simp add: new t)
  show "fst (base_get key (key r1) t1) = Inr (Some r1)"
    by (simp add: new base_get_def getP_def find_app none key_with_key)
  show "fst (base_get key j t1) = fst (base_get key j t)" if "j \<noteq> key r1"
    using that by (simp add: new t base_get_def getP_def find_app key_with_key split: option.split)
qed

lemma updated:
  assumes "\<And>r. key (f r) = key r"
  shows "base_get key j (snd (base_update key i f t)) =
    (Inr (map_option (\<lambda>r. if j = i then f r else r) (find (\<lambda>r. key r = j) (fst t))), snd (base_update key i f t))"
proof -
  obtain rows n where t: "t = (rows, n)" by (cases t)
  have upd: "find (\<lambda>r. key r = j) (map (\<lambda>x. if key x = i then f x else x) rows) =
      map_option (\<lambda>r. if j = i then f r else r) (find (\<lambda>r. key r = j) rows)"
    using assms by (induction rows) auto
  show ?thesis
  proof (cases "find (\<lambda>r. key r = i) rows")
    case None
    then have "map_option (\<lambda>r. if j = i then f r else r) (find (\<lambda>r. key r = j) rows) = find (\<lambda>r. key r = j) rows"
      by (cases "j = i") (auto simp: option.map_ident)
    then show ?thesis using None by (simp add: t base_update_def base_get_def prog_defs)
  next
    case (Some r)
    then show ?thesis using upd by (simp add: t base_update_def base_get_def prog_defs)
  qed
qed

lemma deleted: "fst (base_get key j (snd (base_delete key i t))) =
    Inr (if j = i then None else find (\<lambda>r. key r = j) (fst t))"
proof -
  obtain rows n where t: "t = (rows, n)" by (cases t)
  have "find (\<lambda>r. key r = j) (filter (\<lambda>x. key x \<noteq> i) rows) = (if j = i then None else find (\<lambda>r. key r = j) rows)"
    by (induction rows) auto
  then show ?thesis
    by (auto simp: t base_delete_def base_get_def prog_defs split: option.split)
qed

end

interpretation users: repository u_id u_email "\<lambda>i r. r\<lparr>u_id := i\<rparr>"
  by unfold_locales simp_all

interpretation api_keys: repository k_id k_api_key "\<lambda>i r. r\<lparr>k_id := i\<rparr>"
  by unfold_locales simp_all

interpretation pairs: repository p_id p_symbol "\<lambda>i r. r\<lparr>p_id := i\<rparr>"
  by unfold_locales simp_all

subsection \<open>Users, API keys and pairs in the database\<close>

definition usersP :: "(user, 'a) table_prog \<Rightarrow> ('s, 'a) world_prog" where
  "usersP m w = (case m (w_users w, w_next_user w) of (r, rows, n) \<Rightarrow> (r, w\<lparr>w_users := rows, w_next_user := n\<rparr>))"

definition api_keysP :: "(api_key, 'a) table_prog \<Rightarrow> ('s, 'a) world_prog" where
  "api_keysP m w = (case m (w_api_keys w, w_next_api_key w) of (r, rows, n) \<Rightarrow> (r, w\<lparr>w_api_keys := rows, w_next_api_key := n\<rparr>))"

definition pairsP :: "(trading_pair, 'a) table_prog \<Rightarrow> ('s, 'a) world_prog" where
  "pairsP m w = (case m (w_pairs w, w_next_pair w) of (r, rows, n) \<Rightarrow> (r, w\<lparr>w_pairs := rows, w_next_pair := n\<rparr>))"

definition get_by_email :: "string \<Rightarrow> ('s, user option) world_prog" where
  "get_by_email email = bindP (getP (\<lambda>w. filter (\<lambda>u. u_email u = email) (w_users w))) (\<lambda>rows. liftP (scalar_one_or_none rows))"

definition list_active_users :: "('s, user list) world_prog" where
  "list_active_users = getP (\<lambda>w. sort_key u_id (filter u_is_active (w_users w)))"

definition list_admins :: "('s, user list) world_prog" where
  "list_admins = getP (\<lambda>w. sort_key u_id (filter u_is_admin (w_users w)))"

definition get_by_api_key :: "string \<Rightarrow> ('s, api_key option) world_prog" where
  "get_by_api_key api_key = bindP (getP (\<lambda>w. filter (\<lambda>k. k_api_key k = api_key) (w_api_keys w))) (\<lambda>rows. liftP (scalar_one_or_none rows))"

definition list_by_user :: "int \<Rightarrow> ('s, api_key list) world_prog" where
  "list_by_user user_id = getP (\<lambda>w. rev (filter (\<lambda>k. k_user_id k = user_id) (w_api_keys w)))"

definition list_active_by_user :: "int \<Rightarrow> ('s, api_key list) world_prog" where
  "list_active_by_user user_id = getP (\<lambda>w. rev (filter (\<lambda>k. k_user_id k = user_id \<and> \<not> k_is_revoked k) (w_api_keys w)))"

text \<open>\<open>session.add\<close> of an API key and \<open>flush\<close>: \<open>user_id\<close> is a foreign key of \<open>users\<close>.\<close>

definition add_api_key :: "api_key \<Rightarrow> ('s, api_key) world_prog" where
  "add_api_key k = bindP (getP (\<lambda>w. k_user_id k \<in> set (map u_id (w_users w)))) (\<lambda>known.
     if known then api_keysP (base_create k_api_key (\<lambda>i r. r\<lparr>k_id := i\<rparr>) k)
     else seqP (api_keysP (modP (\<lambda>(rows, n). (rows, n + 1)))) (raiseP IntegrityError))"

lemmas account_defs = usersP_def api_keysP_def pairsP_def get_by_email_def get_by_api_key_def add_api_key_def

declare usersP_def [exec_defs] api_keysP_def [exec_defs] pairsP_def [exec_defs] get_by_email_def [exec_defs]
  get_by_api_key_def [exec_defs] add_api_key_def [exec_defs] liftP_def [exec_defs]

subsection \<open>The account tables are well formed\<close>

text \<open>Serial keys and unique columns are distinct, sequences are ahead of their keys, and every key belongs to a user.\<close>

definition accounts_ok :: "'s world \<Rightarrow> bool" where
  "accounts_ok w \<longleftrightarrow> table_ok u_id u_email (w_users w, w_next_user w) \<and>
     table_ok k_id k_api_key (w_api_keys w, w_next_api_key w) \<and>
     table_ok p_id p_symbol (w_pairs w, w_next_pair w) \<and>
     k_user_id ` set (w_api_keys w) \<subseteq> u_id ` set (w_users w)"

lemma accounts_okD:
  assumes "accounts_ok w"
  shows "distinct (map u_id (w_users w))" "distinct (map u_email (w_users w))"
    "distinct (map k_id (w_api_keys w))" "distinct (map k_api_key (w_api_keys w))" "distinct (map p_symbol (w_pairs w))"
    "distinct (map p_id (w_pairs w))"
  using assms by (simp_all add: accounts_ok_def table_ok_def)

lemma get_by_email_run: "accounts_ok w \<Longrightarrow> get_by_email e w = (Inr (find (\<lambda>u. u_email u = e) (w_users w)), w)"
  by (simp add: get_by_email_def bindP_def getP_def liftP_def scalar_filter_uniq accounts_okD)

lemma get_by_api_key_run: "accounts_ok w \<Longrightarrow> get_by_api_key k w = (Inr (find (\<lambda>x. k_api_key x = k) (w_api_keys w)), w)"
  by (simp add: get_by_api_key_def bindP_def getP_def liftP_def scalar_filter_uniq accounts_okD)

lemma get_by_symbol_unique: "accounts_ok w \<Longrightarrow> p \<in> set (w_pairs w) \<Longrightarrow> fst (get_by_symbol (p_symbol p) w) = Inr (Some p)"
  using find_key_Some [of "p_symbol" "w_pairs w"]
  by (simp add: get_by_symbol_def getP_def) (metis accounts_okD(5) filter_uniq find_Some_iff2)

text \<open>An operation on one table, lifted, keeps the whole invariant when it keeps that table and the references.\<close>

lemma preserves_usersP:
  assumes "preserves (table_ok u_id u_email) m"
    and "\<And>t. u_id ` set (fst t) \<subseteq> u_id ` set (fst (snd (m t)))"
  shows "preserves accounts_ok (usersP m)"
proof (rule preservesI)
  fix w :: "'s world" assume "accounts_ok w"
  obtain r rows n where run: "m (w_users w, w_next_user w) = (r, rows, n)" by (cases "m (w_users w, w_next_user w)") auto
  have "u_id ` set (w_users w) \<subseteq> u_id ` set rows" "table_ok u_id u_email (rows, n)"
    using preservesD [OF assms(1), of "(w_users w, w_next_user w)"] assms(2) [of "(w_users w, w_next_user w)"] run \<open>accounts_ok w\<close>
    by (simp_all add: accounts_ok_def)
  then show "accounts_ok (snd (usersP m w))" using \<open>accounts_ok w\<close> by (simp add: accounts_ok_def usersP_def run) (elim conjE, rule subset_trans)
qed

lemma preserves_pairsP:
  assumes "preserves (table_ok p_id p_symbol) m"
  shows "preserves accounts_ok (pairsP m)"
proof (rule preservesI)
  fix w :: "'s world" assume "accounts_ok w"
  then show "accounts_ok (snd (pairsP m w))"
    using preservesD [OF assms, of "(w_pairs w, w_next_pair w)"]
    by (auto simp: accounts_ok_def pairsP_def split: prod.split)
qed

lemma preserves_api_keysP:
  assumes "preserves (table_ok k_id k_api_key) m"
    and "\<And>t. k_user_id ` set (fst (snd (m t))) \<subseteq> k_user_id ` set (fst t)"
  shows "preserves accounts_ok (api_keysP m)"
proof (rule preservesI)
  fix w :: "'s world" assume "accounts_ok w"
  then show "accounts_ok (snd (api_keysP m w))"
    using preservesD [OF assms(1), of "(w_api_keys w, w_next_api_key w)"] assms(2) [of "(w_api_keys w, w_next_api_key w)"]
    by (fastforce simp: accounts_ok_def api_keysP_def split: prod.split)
qed

lemma preserves_create_user: "preserves accounts_ok (usersP (base_create u_email (\<lambda>i r. r\<lparr>u_id := i\<rparr>) u))"
  by (rule preserves_usersP [OF users.create_ok]) (auto simp: base_create_def split: prod.split)

lemma preserves_update_user:
  assumes "\<And>r. u_id (f r) = u_id r" and "\<And>r. u_email (f r) = u_email r"
  shows "preserves accounts_ok (usersP (base_update u_id i f))"
proof (rule preserves_usersP [OF users.update_ok [OF assms]])
  fix t :: "user table"
  have "u_id ` set (map (\<lambda>x. if u_id x = i then f x else x) rows) = u_id ` set rows" for rows
    by (rule image_map_if) (rule assms(1))
  then show "u_id ` set (fst t) \<subseteq> u_id ` set (fst (snd (base_update u_id i f t)))"
    by (auto simp: base_update_def base_get_def prog_defs split: prod.split option.split)
qed

lemma preserves_update_key:
  assumes "\<And>r. k_id (f r) = k_id r" and "\<And>r. k_api_key (f r) = k_api_key r" and "\<And>r. k_user_id (f r) = k_user_id r"
  shows "preserves accounts_ok (api_keysP (base_update k_id i f))"
proof (rule preserves_api_keysP [OF api_keys.update_ok [OF assms(1,2)]])
  fix t :: "api_key table"
  have "k_user_id ` set (map (\<lambda>x. if k_id x = i then f x else x) rows) = k_user_id ` set rows" for rows
    by (rule image_map_if) (rule assms(3))
  then show "k_user_id ` set (fst (snd (base_update k_id i f t))) \<subseteq> k_user_id ` set (fst t)"
    by (auto simp: base_update_def base_get_def prog_defs split: prod.split option.split)
qed

lemma preserves_add_key: "preserves accounts_ok (add_api_key k)"
proof (rule preservesI)
  fix w :: "'s world" assume w: "accounts_ok w"
  show "accounts_ok (snd (add_api_key k w))"
  proof (cases "k_user_id k \<in> u_id ` set (w_users w)")
    case True
    then show ?thesis
      using w preservesD [OF api_keys.create_ok, of "(w_api_keys w, w_next_api_key w)" k]
      by (auto simp: add_api_key_def api_keysP_def accounts_ok_def bindP_def getP_def base_create_def split: prod.splits if_splits)
  next
    case False
    then show ?thesis using w
      by (auto simp: add_api_key_def api_keysP_def accounts_ok_def prog_defs table_ok_def intro: less_trans)
  qed
qed

lemma preserves_update_pair:
  assumes "\<And>r. p_id (f r) = p_id r" and "\<And>r. p_symbol (f r) = p_symbol r"
  shows "preserves accounts_ok (pairsP (base_update p_id i f))"
  by (rule preserves_pairsP [OF pairs.update_ok [OF assms]])

lemma preserves_create_pair: "preserves accounts_ok (pairsP (base_create p_symbol (\<lambda>i r. r\<lparr>p_id := i\<rparr>) p))"
  by (rule preserves_pairsP [OF pairs.create_ok])

lemma preserves_accounts_get_by_email [preserves_intros]: "preserves I (get_by_email e)"
  unfolding get_by_email_def by (intro preserves_intros)

lemma preserves_accounts_get_by_api_key [preserves_intros]: "preserves I (get_by_api_key k)"
  unfolding get_by_api_key_def by (intro preserves_intros)

text \<open>A rolled-back transaction restores the tables but not the sequences, which only grow.\<close>

definition sequences_grow :: "('s, 'a) world_prog \<Rightarrow> bool" where
  "sequences_grow m \<longleftrightarrow> (\<forall>w. w_next_user w \<le> w_next_user (snd (m w)) \<and> w_next_api_key w \<le> w_next_api_key (snd (m w)) \<and>
     w_next_pair w \<le> w_next_pair (snd (m w)))"

definition sequences_ge :: "int \<Rightarrow> int \<Rightarrow> int \<Rightarrow> 's world \<Rightarrow> bool" where
  "sequences_ge a b c w \<longleftrightarrow> a \<le> w_next_user w \<and> b \<le> w_next_api_key w \<and> c \<le> w_next_pair w"

lemma sequences_growI: "(\<And>a b c. preserves (sequences_ge a b c) m) \<Longrightarrow> sequences_grow m"
  unfolding sequences_grow_def preserves_def sequences_ge_def by (meson order_refl)

lemma sequences_add_key [preserves_intros]: "preserves (sequences_ge a b c) (add_api_key k)"
  by (rule preservesI) (auto simp: sequences_ge_def add_api_key_def api_keysP_def prog_defs base_create_def)

lemma sequences_tables [preserves_intros]:
  "preserves (sequences_ge a b c) (usersP (base_create u_email wk u))"
  "preserves (sequences_ge a b c) (usersP (base_update u_id i f))"
  "preserves (sequences_ge a b c) (usersP (base_get u_id i))"
  "preserves (sequences_ge a b c) (pairsP (base_create p_symbol wp p))"
  "preserves (sequences_ge a b c) (pairsP (base_update p_id i g))"
  "preserves (sequences_ge a b c) (api_keysP (base_update k_id i h))"
  by (rule preservesI; auto simp: sequences_ge_def usersP_def pairsP_def api_keysP_def prog_defs base_defs split: option.split)+

lemma preserves_accounts_transaction:
  fixes m :: "('s, 'a) world_prog"
  assumes "preserves accounts_ok m" and "sequences_grow m"
  shows "preserves accounts_ok (transactionP m)"
proof (rule preservesI)
  fix w :: "'s world" assume w: "accounts_ok w"
  obtain r w1 where run: "m w = (r, w1)" by fastforce
  have grow: "w_next_user w \<le> w_next_user w1" "w_next_api_key w \<le> w_next_api_key w1" "w_next_pair w \<le> w_next_pair w1"
    using assms(2) run by (auto simp: sequences_grow_def dest: spec [of _ w])
  show "accounts_ok (snd (transactionP m w))"
  proof (cases r)
    case (Inl e)
    then show ?thesis using w grow by (fastforce simp: transactionP_def run accounts_ok_def table_ok_def)
  next
    case (Inr x)
    then show ?thesis using preservesD [OF assms(1) w] by (simp add: transactionP_def run)
  qed
qed

end
