(* ===== verification/Auth.thy ===== *)
theory Auth
  imports Accounts Rate_Limit
begin

section \<open>Signatures, sessions and authentication\<close>

text \<open>
  \<open>core/security.py\<close>, \<open>core/rate_limit.py\<close>, \<open>api/deps.py\<close>, \<open>api/v1/auth.py\<close> and \<open>api/admin/auth.py\<close>. The digests of
  \<open>hashlib\<close>, \<open>hmac\<close> and \<open>bcrypt\<close> and the token library \<open>jwt\<close> are parameters (\<open>crypto\<close>); random tokens are arguments. The
  clock is \<open>w_now\<close>. The settings are their defaults.
\<close>

record jwt_payload =
  j_sub :: "string option"
  j_is_admin :: "bool option"
  j_iat :: int
  j_exp :: int

record crypto =
  sha256_hex :: "string \<Rightarrow> string"
  hmac_sha256_hex :: "string \<Rightarrow> string \<Rightarrow> string"
  bcrypt_hashpw :: "string \<Rightarrow> string \<Rightarrow> string"
  bcrypt_checkpw :: "string \<Rightarrow> string \<Rightarrow> bool option"
  jwt_encode :: "jwt_payload \<Rightarrow> string \<Rightarrow> string \<Rightarrow> string"
  jwt_decode :: "int \<Rightarrow> string \<Rightarrow> string \<Rightarrow> string \<Rightarrow> jwt_payload option"

record settings =
  app_secret :: string
  jwt_algorithm :: string
  jwt_expires_minutes :: int
  hmac_replay_window_seconds :: int
  default_rate_limit_per_min :: int

definition get_settings :: settings where
  "get_settings = \<lparr>app_secret = ''change-me-in-production'', jwt_algorithm = ''HS256'', jwt_expires_minutes = 1440,
     hmac_replay_window_seconds = 30, default_rate_limit_per_min = 120\<rparr>"

text \<open>\<open>time.time()\<close>: the instant as a double of seconds.\<close>

definition unix_time :: "int \<Rightarrow> rat" where
  "unix_time now = rnd (of_int now / 1000000)"

subsection \<open>Secrets and signatures\<close>

definition hash_api_secret :: "crypto \<Rightarrow> string \<Rightarrow> string" where
  "hash_api_secret C raw_secret = sha256_hex C (utf8 raw_secret)"

text \<open>\<open>hmac.compare_digest\<close> on texts raises when one has a character outside ASCII.\<close>

definition compare_digest :: "string \<Rightarrow> string \<Rightarrow> (exn, bool) result" where
  "compare_digest a b = (if is_ascii a \<and> is_ascii b then Inr (a = b) else Inl TypeError)"

definition verify_api_secret :: "crypto \<Rightarrow> string \<Rightarrow> string \<Rightarrow> (exn, bool) result" where
  "verify_api_secret C raw_secret stored_hash = compare_digest (hash_api_secret C raw_secret) stored_hash"

definition compute_signature :: "crypto \<Rightarrow> string \<Rightarrow> string \<Rightarrow> string \<Rightarrow> int \<Rightarrow> string \<Rightarrow> string" where
  "compute_signature C secret method path timestamp body =
     hmac_sha256_hex C (utf8 secret) (utf8 (upper method @ ''\<newline>'' @ path @ ''\<newline>'' @ str_int timestamp @ ''\<newline>'' @ body))"

definition verify_signature ::
  "crypto \<Rightarrow> int \<Rightarrow> string \<Rightarrow> string \<Rightarrow> string \<Rightarrow> int \<Rightarrow> string \<Rightarrow> string \<Rightarrow> int option \<Rightarrow> (exn, bool) result" where
  "verify_signature C clock secret method path timestamp body provided_signature window =
     (let replay_window_seconds = (case window of None \<Rightarrow> hmac_replay_window_seconds get_settings | Some n \<Rightarrow> n);
          now = int_of_float (unix_time clock) in
      if replay_window_seconds < \<bar>now - timestamp\<bar> then Inr False
      else compare_digest (compute_signature C secret method path timestamp body) provided_signature)"

definition compute_ws_signature :: "crypto \<Rightarrow> string \<Rightarrow> string \<Rightarrow> int \<Rightarrow> string" where
  "compute_ws_signature C secret api_key timestamp =
     hmac_sha256_hex C (utf8 secret) (utf8 (''WS_HANDSHAKE\<newline>'' @ str_int timestamp @ ''\<newline>'' @ api_key))"

definition verify_ws_signature ::
  "crypto \<Rightarrow> int \<Rightarrow> string \<Rightarrow> string \<Rightarrow> int \<Rightarrow> string \<Rightarrow> int option \<Rightarrow> (exn, bool) result" where
  "verify_ws_signature C clock secret api_key timestamp provided_signature window =
     (let replay_window_seconds = (case window of None \<Rightarrow> hmac_replay_window_seconds get_settings | Some n \<Rightarrow> n);
          now = int_of_float (unix_time clock) in
      if replay_window_seconds < \<bar>now - timestamp\<bar> then Inr False
      else compare_digest (compute_ws_signature C secret api_key timestamp) provided_signature)"

subsection \<open>Passwords and tokens\<close>

definition hash_password :: "crypto \<Rightarrow> string \<Rightarrow> string \<Rightarrow> string" where
  "hash_password C salt password = bcrypt_hashpw C (take 72 (utf8 password)) salt"

definition verify_password :: "crypto \<Rightarrow> string \<Rightarrow> string \<Rightarrow> bool" where
  "verify_password C password password_hash =
     (case bcrypt_checkpw C (take 72 (utf8 password)) (utf8 password_hash) of None \<Rightarrow> False | Some ok \<Rightarrow> ok)"

definition create_jwt_token :: "crypto \<Rightarrow> int \<Rightarrow> int \<Rightarrow> bool \<Rightarrow> int option \<Rightarrow> string" where
  "create_jwt_token C clock user_id is_admin expires =
     (let expires_minutes = (case expires of None \<Rightarrow> jwt_expires_minutes get_settings | Some n \<Rightarrow> n) in
      jwt_encode C \<lparr>j_sub = Some (str_int user_id), j_is_admin = Some is_admin, j_iat = int_of_float (unix_time clock),
          j_exp = int_of_float (unix_time (clock + expires_minutes * 60 * 1000000))\<rparr>
        (app_secret get_settings) (jwt_algorithm get_settings))"

definition decode_jwt_token :: "crypto \<Rightarrow> int \<Rightarrow> string \<Rightarrow> jwt_payload option" where
  "decode_jwt_token C clock token = jwt_decode C clock token (app_secret get_settings) (jwt_algorithm get_settings)"

subsection \<open>Requests\<close>

text \<open>A request; a body that is not UTF-8 is \<open>None\<close>. What authentication leaves on \<open>request.state\<close> is \<open>request_state\<close>.\<close>

record request =
  rq_method :: string
  rq_path :: string
  rq_query :: string
  rq_body :: "string option"
  rq_x_api_key :: "string option"
  rq_x_timestamp :: "string option"
  rq_x_signature :: "string option"
  rq_authorization :: "string option"

record request_state =
  rs_api_key :: string
  rs_user_id :: int
  rs_api_key_id :: int
  rs_rate_limit_per_min :: int
  rs_permissions :: "string list"
  rs_rate_limit_remaining :: int
  rs_rate_limit_retry_after :: int

abbreviation AuthenticationError :: exn where "AuthenticationError \<equiv> AppError 401 ''unauthorized''"
abbreviation InvalidSignatureError :: exn where "InvalidSignatureError \<equiv> AppError 401 ''invalid_signature''"
abbreviation ExpiredTimestampError :: exn where "ExpiredTimestampError \<equiv> AppError 401 ''expired_timestamp''"
abbreviation MissingApiKeyError :: exn where "MissingApiKeyError \<equiv> AppError 401 ''missing_api_key''"
abbreviation RevokedApiKeyError :: exn where "RevokedApiKeyError \<equiv> AppError 401 ''revoked_api_key''"
abbreviation InsufficientPermissionsError :: exn where "InsufficientPermissionsError \<equiv> AppError 403 ''insufficient_permissions''"
abbreviation RateLimitExceededError :: exn where "RateLimitExceededError \<equiv> AppError 429 ''rate_limit_exceeded''"

definition enforce_rate_limit :: "'s redis_ops \<Rightarrow> request_state \<Rightarrow> ('s, request_state) world_prog" where
  "enforce_rate_limit R st =
     (let key = (if rs_api_key st = [] then ''anonymous'' else rs_api_key st); limit = rs_rate_limit_per_min st in
      bindP (getP w_now) (\<lambda>clock.
      bindP (redP (check_and_consume R key limit 60 (unix_time clock))) (\<lambda>(result, current_count, retry_after).
      if result = Rejected then raiseP RateLimitExceededError
      else retP (st\<lparr>rs_rate_limit_remaining := max 0 (limit - current_count), rs_rate_limit_retry_after := 0\<rparr>))))"

text \<open>The key is public text; the empty text counts as a missing header.\<close>

definition header :: "string option \<Rightarrow> string" where
  "header h = (case h of None \<Rightarrow> [] | Some s \<Rightarrow> s)"

definition full_path :: "request \<Rightarrow> string" where
  "full_path rq = (if rq_query rq = [] then rq_path rq else rq_path rq @ ''?'' @ rq_query rq)"

definition touch_api_key :: "int \<Rightarrow> ('s, unit) world_prog" where
  "touch_api_key key_id = bindP (getP w_now) (\<lambda>clock.
     bindP (api_keysP (base_update k_id key_id (\<lambda>k. k\<lparr>k_last_used_at := Some clock\<rparr>))) (\<lambda>_. retP ()))"

definition authenticate_request :: "'s redis_ops \<Rightarrow> crypto \<Rightarrow> request \<Rightarrow> ('s, request_state) world_prog" where
  "authenticate_request R C rq =
     (if header (rq_x_api_key rq) = [] \<or> header (rq_x_timestamp rq) = [] \<or> header (rq_x_signature rq) = []
      then raiseP MissingApiKeyError
      else case py_int (header (rq_x_timestamp rq)) of
        Inl e \<Rightarrow> raiseP ExpiredTimestampError
      | Inr timestamp \<Rightarrow>
        bindP (get_by_api_key (header (rq_x_api_key rq))) (\<lambda>row. case row of
          None \<Rightarrow> raiseP MissingApiKeyError
        | Some k \<Rightarrow>
          if k_is_revoked k then raiseP RevokedApiKeyError
          else case rq_body rq of
            None \<Rightarrow> raiseP (ValueError ''UnicodeDecodeError'')
          | Some body \<Rightarrow>
            bindP (getP w_now) (\<lambda>clock.
            bindP (liftP (verify_signature C clock (k_secret_hash k) (rq_method rq) (full_path rq) timestamp body
              (header (rq_x_signature rq)) None)) (\<lambda>valid.
            if \<not> valid then raiseP InvalidSignatureError
            else
              bindP (enforce_rate_limit R \<lparr>rs_api_key = header (rq_x_api_key rq), rs_user_id = k_user_id k, rs_api_key_id = k_id k,
                rs_rate_limit_per_min = k_rate_limit_per_min k, rs_permissions = k_permissions k,
                rs_rate_limit_remaining = 0, rs_rate_limit_retry_after = 0\<rparr>) (\<lambda>st.
              seqP (touch_api_key (k_id k)) (retP st))))))"

definition require_permission :: "string \<Rightarrow> request_state \<Rightarrow> ('s, unit) world_prog" where
  "require_permission perm st =
     (if perm \<in> set (rs_permissions st) then retP () else raiseP InsufficientPermissionsError)"

definition authenticate_admin :: "crypto \<Rightarrow> request \<Rightarrow> ('s, user) world_prog" where
  "authenticate_admin C rq =
     (let authorization = header (rq_authorization rq) in
      if authorization = [] \<or> \<not> startswith authorization ''Bearer '' then raiseP AuthenticationError
      else bindP (getP w_now) (\<lambda>clock.
        case decode_jwt_token C clock (strip (removeprefix authorization ''Bearer '')) of
          None \<Rightarrow> raiseP AuthenticationError
        | Some payload \<Rightarrow>
          bindP (liftP (py_int (case j_sub payload of None \<Rightarrow> ''0'' | Some s \<Rightarrow> s))) (\<lambda>user_id.
          if j_is_admin payload \<noteq> Some True then raiseP AuthenticationError
          else bindP (usersP (base_get u_id user_id)) (\<lambda>user. case user of
            None \<Rightarrow> raiseP AuthenticationError
          | Some u \<Rightarrow> if u_is_active u then retP u else raiseP AuthenticationError))))"

subsection \<open>The auth endpoints\<close>

record login_response =
  lr_user_id :: int
  lr_login :: string
  lr_is_admin :: bool
  lr_api_key :: string
  lr_api_secret :: string
  lr_permissions :: "string list"

text \<open>Field constraints of the request bodies: texts are stripped, then their lengths are checked.\<close>

definition credentials :: "nat \<Rightarrow> string \<Rightarrow> string \<Rightarrow> (exn, string \<times> string) result" where
  "credentials min_password login password =
     (let l = strip login; p = strip password in
      if 2 \<le> length l \<and> length l \<le> 64 \<and> min_password \<le> length p \<and> length p \<le> 255 then Inr (l, p)
      else Inl RequestValidationError)"

definition LoginRequest :: "string \<Rightarrow> string \<Rightarrow> (exn, string \<times> string) result" where
  "LoginRequest = credentials 1"

definition RegisterRequest :: "string \<Rightarrow> string \<Rightarrow> (exn, string \<times> string) result" where
  "RegisterRequest = credentials 4"

definition default_permissions :: "string list" where
  "default_permissions = [''trade'', ''read'', ''ws'']"

definition issue_key :: "crypto \<Rightarrow> string \<Rightarrow> string \<Rightarrow> user \<Rightarrow> ('s, api_key) world_prog" where
  "issue_key C raw_secret raw_key user =
     bindP (getP (\<lambda>w. filter (\<lambda>k. k_user_id k = u_id user \<and> \<not> k_is_revoked k) (w_api_keys w))) (\<lambda>rows.
     bindP (liftP (scalar_one_or_none rows)) (\<lambda>api_key_row. case api_key_row of
        None \<Rightarrow> add_api_key \<lparr>k_id = 0, k_user_id = u_id user, k_api_key = raw_key,
          k_secret_hash = hash_api_secret C raw_secret, k_label = Some ''auto-generated at login'',
          k_permissions = default_permissions, k_rate_limit_per_min = 120, k_is_revoked = False, k_last_used_at = None\<rparr>
      | Some k \<Rightarrow> bindP (api_keysP (base_update k_id (k_id k) (\<lambda>r. r\<lparr>k_secret_hash := hash_api_secret C raw_secret\<rparr>)))
          (\<lambda>_. retP k)))"

definition login :: "crypto \<Rightarrow> string \<Rightarrow> string \<Rightarrow> string \<times> string \<Rightarrow> ('s, login_response) world_prog" where
  "login C raw_secret raw_key body = transactionP
     (bindP (get_by_email (fst body)) (\<lambda>found. case found of
        None \<Rightarrow> raiseP AuthenticationError
      | Some user \<Rightarrow>
        if \<not> u_is_active user then raiseP AuthenticationError
        else if \<not> verify_password C (snd body) (u_password_hash user) then raiseP AuthenticationError
        else bindP (issue_key C raw_secret raw_key user) (\<lambda>k.
          retP \<lparr>lr_user_id = u_id user, lr_login = u_email user, lr_is_admin = u_is_admin user, lr_api_key = k_api_key k,
            lr_api_secret = raw_secret,
            lr_permissions = (if k_permissions k = [] then default_permissions else k_permissions k)\<rparr>)))"

definition register :: "crypto \<Rightarrow> string \<Rightarrow> string \<times> string \<Rightarrow> ('s, int \<times> string) world_prog" where
  "register C salt body = transactionP
     (bindP (get_by_email (fst body)) (\<lambda>existing. case existing of
        Some u \<Rightarrow> raiseP (AppError 409 ''login_exists'')
      | None \<Rightarrow>
        bindP (usersP (base_create u_email (\<lambda>i r. r\<lparr>u_id := i\<rparr>) \<lparr>u_id = 0, u_email = fst body,
          u_password_hash = hash_password C salt (snd body), u_is_active = True, u_is_admin = False\<rparr>)) (\<lambda>user.
        retP (u_id user, u_email user))))"

definition get_me :: "int \<Rightarrow> ('s, int \<times> string \<times> bool) world_prog" where
  "get_me user_id = bindP (usersP (base_get u_id user_id)) (\<lambda>user. case user of
       None \<Rightarrow> raiseP AuthenticationError
     | Some u \<Rightarrow> retP (u_id u, u_email u, u_is_admin u))"

definition admin_login :: "crypto \<Rightarrow> string \<times> string \<Rightarrow> ('s, string \<times> int \<times> string) world_prog" where
  "admin_login C body = bindP (get_by_email (fst body)) (\<lambda>found. case found of
       None \<Rightarrow> raiseP AuthenticationError
     | Some user \<Rightarrow>
       if \<not> u_is_active user then raiseP AuthenticationError
       else if \<not> verify_password C (snd body) (u_password_hash user) then raiseP AuthenticationError
       else if \<not> u_is_admin user then raiseP AuthenticationError
       else bindP (getP w_now) (\<lambda>clock. retP (create_jwt_token C clock (u_id user) True None, u_id user, u_email user)))"

subsection \<open>Who is let in\<close>

lemma usersP_get: "usersP (base_get u_id i) w = (Inr (find (\<lambda>u. u_id u = i) (w_users w)), w)"
  by (cases w) (simp add: usersP_def base_get_def getP_def)

definition touched :: "int \<Rightarrow> 's world \<Rightarrow> 's world" where
  "touched i w = w\<lparr>w_api_keys := map (\<lambda>k. if k_id k = i then k\<lparr>k_last_used_at := Some (w_now w)\<rparr> else k) (w_api_keys w)\<rparr>"

lemma touch_api_key_run:
  assumes "k \<in> set (w_api_keys w)"
  shows "touch_api_key (k_id k) w = (Inr (), touched (k_id k) w)"
proof -
  obtain r where "find (\<lambda>x. k_id x = k_id k) (w_api_keys w) = Some r"
    using assms find_None_iff_all [of "\<lambda>x. k_id x = k_id k" "w_api_keys w"] by (cases "find (\<lambda>x. k_id x = k_id k) (w_api_keys w)") auto
  then show ?thesis
    by (cases w) (simp add: touch_api_key_def api_keysP_def base_update_def base_get_def prog_defs touched_def)
qed

lemma get_by_api_key_eq: "get_by_api_key key w = (Inr row, t) \<longleftrightarrow>
    t = w \<and> scalar_one_or_none (filter (\<lambda>k. k_api_key k = key) (w_api_keys w)) = Inr row"
  by (auto simp: get_by_api_key_def run_steps)

lemma enforce_rate_limit_eq: "enforce_rate_limit R st w = (Inr st1, w1) \<longleftrightarrow>
    (\<exists>c r s1. check_and_consume R (rs_api_key st) (rs_rate_limit_per_min st) 60 (unix_time (w_now w)) (w_redis w) =
        (Inr (Allowed, c, r), s1) \<and>
      w1 = w\<lparr>w_redis := s1\<rparr> \<and> st1 = st\<lparr>rs_rate_limit_remaining := max 0 (rs_rate_limit_per_min st - c), rs_rate_limit_retry_after := 0\<rparr>)"
  if "rs_api_key st \<noteq> []"
  using that rate_limit_result.exhaust
  by (auto simp: enforce_rate_limit_def Let_def run_steps redP_def split: prod.splits if_splits)

lemma compare_digest_True: "compare_digest a b = Inr True \<longleftrightarrow> is_ascii a \<and> a = b"
  by (auto simp: compare_digest_def)

lemma verify_signature_True:
  "verify_signature C clock secret method path ts body sig None = Inr True \<longleftrightarrow>
    \<bar>int_of_float (unix_time clock) - ts\<bar> \<le> 30 \<and> is_ascii sig \<and> sig = compute_signature C secret method path ts body"
  by (auto simp: verify_signature_def compare_digest_True Let_def get_settings_def not_less)

text \<open>The state authentication leaves for the handlers, and what it demands of the request.\<close>

definition state_of :: "api_key \<Rightarrow> int \<Rightarrow> request_state" where
  "state_of k c = \<lparr>rs_api_key = k_api_key k, rs_user_id = k_user_id k, rs_api_key_id = k_id k,
     rs_rate_limit_per_min = k_rate_limit_per_min k, rs_permissions = k_permissions k,
     rs_rate_limit_remaining = max 0 (k_rate_limit_per_min k - c), rs_rate_limit_retry_after = 0\<rparr>"

definition signed_by :: "crypto \<Rightarrow> int \<Rightarrow> api_key \<Rightarrow> request \<Rightarrow> bool" where
  "signed_by C clock k rq \<longleftrightarrow> k_api_key k \<noteq> [] \<and> rq_x_api_key rq = Some (k_api_key k) \<and>
     (case py_int (header (rq_x_timestamp rq)) of Inl e \<Rightarrow> False | Inr ts \<Rightarrow>
        \<bar>int_of_float (unix_time clock) - ts\<bar> \<le> 30 \<and> (case rq_body rq of None \<Rightarrow> False | Some body \<Rightarrow>
          rq_x_signature rq = Some (compute_signature C (k_secret_hash k) (rq_method rq) (full_path rq) ts body) \<and>
          header (rq_x_signature rq) \<noteq> [] \<and> is_ascii (header (rq_x_signature rq))))"

lemma header_Some: "header h = s \<Longrightarrow> s \<noteq> [] \<Longrightarrow> h = Some s"
  by (cases h) (auto simp: header_def)

lemma py_int_empty: "py_int [] = Inl (ValueError ''invalid literal for int()'')"
  by code_simp

lemma authenticate_request_iff:
  assumes "accounts_ok w"
  shows "authenticate_request R C rq w = (Inr st, w1) \<longleftrightarrow>
    (\<exists>k\<in>set (w_api_keys w). \<not> k_is_revoked k \<and> signed_by C (w_now w) k rq \<and>
      (\<exists>c r s1. check_and_consume R (k_api_key k) (k_rate_limit_per_min k) 60 (unix_time (w_now w)) (w_redis w) = (Inr (Allowed, c, r), s1) \<and>
        st = state_of k c \<and> w1 = touched (k_id k) (w\<lparr>w_redis := s1\<rparr>)))" (is "?L \<longleftrightarrow> ?R")
proof
  assume L: ?L
  then have ne: "header (rq_x_api_key rq) \<noteq> []" "header (rq_x_timestamp rq) \<noteq> []" "header (rq_x_signature rq) \<noteq> []"
    by (auto simp: authenticate_request_def raiseP_def split: if_splits)
  from L ne obtain ts where ts: "py_int (header (rq_x_timestamp rq)) = Inr ts"
    by (cases "py_int (header (rq_x_timestamp rq))") (auto simp: authenticate_request_def raiseP_def)
  from L ne ts obtain k body where k: "scalar_one_or_none (filter (\<lambda>k. k_api_key k = header (rq_x_api_key rq)) (w_api_keys w)) = Inr (Some k)"
    and b: "rq_body rq = Some body" and r: "\<not> k_is_revoked k"
    and sig: "verify_signature C (w_now w) (k_secret_hash k) (rq_method rq) (full_path rq) ts body (header (rq_x_signature rq)) None = Inr True"
    and lim: "\<exists>w2. enforce_rate_limit R \<lparr>rs_api_key = header (rq_x_api_key rq), rs_user_id = k_user_id k, rs_api_key_id = k_id k,
                rs_rate_limit_per_min = k_rate_limit_per_min k, rs_permissions = k_permissions k,
                rs_rate_limit_remaining = 0, rs_rate_limit_retry_after = 0\<rparr> w = (Inr st, w2) \<and> touch_api_key (k_id k) w2 = (Inr (), w1)"
    by (auto simp: authenticate_request_def run_steps get_by_api_key_eq split: option.splits if_splits)
  have mem: "k \<in> set (w_api_keys w)" and key: "k_api_key k = header (rq_x_api_key rq)" using scalar_one_or_noneD [OF k] by auto
  have sg: "signed_by C (w_now w) k rq"
    using ne ts b sig key by (cases "rq_x_signature rq"; cases "rq_x_api_key rq") (simp_all add: signed_by_def verify_signature_True header_def)
  from lim obtain w2 c r s1 where "check_and_consume R (k_api_key k) (k_rate_limit_per_min k) 60 (unix_time (w_now w)) (w_redis w) = (Inr (Allowed, c, r), s1)"
    "w2 = w\<lparr>w_redis := s1\<rparr>" "st = state_of k c" "touch_api_key (k_id k) w2 = (Inr (), w1)"
    using ne(1) by (auto simp: enforce_rate_limit_eq key state_of_def)
  moreover from this(2,4) have "w1 = touched (k_id k) w2" using touch_api_key_run [of k w2] mem by simp
  ultimately show ?R using mem r sg by blast
next
  assume ?R
  then obtain k c r s1 where k: "k \<in> set (w_api_keys w)" "\<not> k_is_revoked k" and sg: "signed_by C (w_now w) k rq"
    and lim: "check_and_consume R (k_api_key k) (k_rate_limit_per_min k) 60 (unix_time (w_now w)) (w_redis w) = (Inr (Allowed, c, r), s1)"
    and res: "st = state_of k c" "w1 = touched (k_id k) (w\<lparr>w_redis := s1\<rparr>)" by blast
  have find: "find (\<lambda>x. k_api_key x = k_api_key k) (w_api_keys w) = Some k"
    using find_key_Some [of "k_api_key"] filter_uniq [OF accounts_okD(4) [OF assms] k(1)] scalar_filter_uniq [OF accounts_okD(4) [OF assms], of "k_api_key k"]
    by (simp add: scalar_one_or_none_def)
  from sg have hk: "header (rq_x_api_key rq) = k_api_key k" "k_api_key k \<noteq> []" by (simp_all add: signed_by_def header_def)
  from sg obtain ts body where tb: "py_int (header (rq_x_timestamp rq)) = Inr ts" "rq_body rq = Some body"
    "verify_signature C (w_now w) (k_secret_hash k) (rq_method rq) (full_path rq) ts body (header (rq_x_signature rq)) None = Inr True"
    "header (rq_x_signature rq) \<noteq> []"
    by (auto simp: signed_by_def verify_signature_True header_def split: sum.splits option.splits)
  have "header (rq_x_timestamp rq) \<noteq> []" using tb(1) py_int_empty by auto
  moreover have "touch_api_key (k_id k) (w\<lparr>w_redis := s1\<rparr>) = (Inr (), w1)" using touch_api_key_run [of k "w\<lparr>w_redis := s1\<rparr>"] k(1) res(2) by simp
  ultimately show ?L
    using hk tb k find lim res(1) get_by_api_key_run [OF assms, of "k_api_key k"]
    by (auto simp: authenticate_request_def run_steps enforce_rate_limit_eq state_of_def)
qed

text \<open>
  C6. A request is let in exactly when an unrevoked key of the table signed it: the header names the key, the
  timestamp is within the replay window of the clock, the signature is the one the stored hash gives for this method,
  path with query, timestamp and body, and the rate limiter admits the key. The handler then runs as the owner of that
  key with that key's permissions, and besides the limiter's bucket only the \<open>last_used_at\<close> of that key has changed.
\<close>

theorem authenticate_request_exact:
  assumes "accounts_ok w"
  shows "authenticate_request R C rq w = (Inr st, w1) \<longleftrightarrow>
    (\<exists>k\<in>set (w_api_keys w). \<not> k_is_revoked k \<and> signed_by C (w_now w) k rq \<and>
      (\<exists>c r s1. check_and_consume R (k_api_key k) (k_rate_limit_per_min k) 60 (unix_time (w_now w)) (w_redis w) = (Inr (Allowed, c, r), s1) \<and>
        st = state_of k c \<and> w1 = touched (k_id k) (w\<lparr>w_redis := s1\<rparr>)))"
  by (rule authenticate_request_iff [OF assms])

subsection \<open>Logging in\<close>

lemma preserves_accounts_login: "preserves accounts_ok (login C secret key body)"
  unfolding login_def issue_key_def
  by (intro preserves_accounts_transaction sequences_growI preserves_intros preserves_add_key preserves_update_key) simp_all

lemma preserves_accounts_register: "preserves accounts_ok (register C salt body)"
  unfolding register_def
  by (intro preserves_accounts_transaction sequences_growI preserves_intros preserves_create_user)

lemma transactionP_Inr: "transactionP m w = (Inr x, w1) \<longleftrightarrow> m w = (Inr x, w1)"
  by (auto simp: transactionP_def split: prod.splits sum.splits)

lemma get_by_email_eq: "get_by_email e w = (Inr u, t) \<longleftrightarrow>
    t = w \<and> scalar_one_or_none (filter (\<lambda>x. u_email x = e) (w_users w)) = Inr u"
  by (auto simp: get_by_email_def run_steps)

text \<open>The key a login hands out: an unrevoked key of the user who logged in, whose stored hash is that of the new secret.\<close>

lemma issue_key_row:
  assumes "issue_key C secret key u w = (Inr k, w1)"
  shows "\<exists>k1\<in>set (w_api_keys w1). k_user_id k1 = u_id u \<and> k_api_key k1 = k_api_key k \<and> \<not> k_is_revoked k1 \<and>
    k_secret_hash k1 = hash_api_secret C secret \<and>
    (k_rate_limit_per_min k1 = 120 \<or> (\<exists>k0\<in>set (w_api_keys w). k_rate_limit_per_min k1 = k_rate_limit_per_min k0))"
proof -
  let ?active = "filter (\<lambda>k. k_user_id k = u_id u \<and> \<not> k_is_revoked k) (w_api_keys w)"
  obtain row where row: "scalar_one_or_none ?active = Inr row" using assms by (auto simp: issue_key_def run_steps)
  show ?thesis
  proof (cases row)
    case None
    then show ?thesis using assms row
      by (auto simp: issue_key_def add_api_key_def api_keysP_def prog_defs liftP_def base_create_def split: if_splits)
  next
    case (Some k0)
    let ?k = "k0\<lparr>k_secret_hash := hash_api_secret C secret\<rparr>"
    have k0: "k0 \<in> set (w_api_keys w)" "k_user_id k0 = u_id u" "\<not> k_is_revoked k0"
      using scalar_one_or_noneD [OF row [unfolded Some]] by auto
    then obtain k2 where "find (\<lambda>x. k_id x = k_id k0) (w_api_keys w) = Some k2"
      using find_None_iff_all [of "\<lambda>x. k_id x = k_id k0" "w_api_keys w"] by (cases "find (\<lambda>x. k_id x = k_id k0) (w_api_keys w)") auto
    then have w1: "w_api_keys w1 = map (\<lambda>x. if k_id x = k_id k0 then x\<lparr>k_secret_hash := hash_api_secret C secret\<rparr> else x) (w_api_keys w)"
      "k = k0"
      using assms row Some by (auto simp: issue_key_def api_keysP_def prog_defs liftP_def base_update_def base_get_def)
    have "?k \<in> set (w_api_keys w1)" using k0(1) by (auto simp: w1 image_iff intro!: bexI [of _ k0])
    then show ?thesis using k0 w1(2) by (intro bexI [of _ ?k]) auto
  qed
qed

lemma login_steps:
  assumes "login C secret key body w = (Inr resp, w1)"
  obtains u k where "u \<in> set (w_users w)" "u_email u = fst body" "u_is_active u"
    "verify_password C (snd body) (u_password_hash u)" "issue_key C secret key u w = (Inr k, w1)"
    "lr_user_id resp = u_id u" "lr_api_key resp = k_api_key k" "lr_api_secret resp = secret"
proof -
  from assms obtain u where u: "scalar_one_or_none (filter (\<lambda>x. u_email x = fst body) (w_users w)) = Inr (Some u)"
    "u_is_active u" "verify_password C (snd body) (u_password_hash u)"
    and k: "\<exists>k. issue_key C secret key u w = (Inr k, w1) \<and> lr_user_id resp = u_id u \<and> lr_api_key resp = k_api_key k \<and> lr_api_secret resp = secret"
    unfolding login_def transactionP_Inr
    by (auto simp: run_steps get_by_email_eq split: option.split_asm if_split_asm)
  then show ?thesis using that scalar_one_or_noneD [OF u(1)] by blast
qed

text \<open>Digests are texts of hexadecimal digits.\<close>

definition hex_digests :: "crypto \<Rightarrow> bool" where
  "hex_digests C \<longleftrightarrow> (\<forall>key msg. hmac_sha256_hex C key msg \<noteq> [] \<and> is_ascii (hmac_sha256_hex C key msg))"

text \<open>
  What a terminal does with the answer of a login: sign with the hash of the secret it was given, and send the key, the
  timestamp and the signature as headers.
\<close>

definition sign_request :: "crypto \<Rightarrow> login_response \<Rightarrow> int \<Rightarrow> string \<Rightarrow> string \<Rightarrow> string \<Rightarrow> string \<Rightarrow> request" where
  "sign_request C resp ts method path query body =
     (let rq = \<lparr>rq_method = method, rq_path = path, rq_query = query, rq_body = Some body, rq_x_api_key = Some (lr_api_key resp),
        rq_x_timestamp = Some (str_int ts), rq_x_signature = None, rq_authorization = None\<rparr> in
      rq\<lparr>rq_x_signature := Some (compute_signature C (hash_api_secret C (lr_api_secret resp)) method (full_path rq) ts body)\<rparr>)"

text \<open>
  C19. Logging in and using the key: the key and secret a login returns authenticate every request signed with them
  as the user who logged in, from a fresh rate-limit bucket and with a timestamp within thirty seconds of the clock at
  that later time.
\<close>

theorem login_then_request:
  assumes R: "redis_server R view" and ok: "accounts_ok w" and C: "hex_digests C"
    and login: "login C secret key body w = (Inr resp, w1)"
    and key: "lr_api_key resp \<noteq> []" and limits: "\<forall>k\<in>set (w_api_keys w). 0 < k_rate_limit_per_min k"
    and bucket: "zsets (view s) (ratelimit_key (lr_api_key resp)) = []"
    and ts: "0 \<le> ts" "length (str_int ts) \<le> 4300" "\<bar>int_of_float (unix_time t) - ts\<bar> \<le> 30"
  shows "\<exists>st w3. authenticate_request R C (sign_request C resp ts method path query text) (w1\<lparr>w_now := t, w_redis := s\<rparr>) = (Inr st, w3) \<and>
    rs_user_id st = lr_user_id resp \<and> (\<exists>u\<in>set (w_users w). u_id u = lr_user_id resp \<and> u_email u = fst body)"
proof -
  let ?rq = "sign_request C resp ts method path query text" and ?w = "w1\<lparr>w_now := t, w_redis := s\<rparr>"
  from login_steps [OF login] obtain u k where u: "u \<in> set (w_users w)" "u_email u = fst body" "issue_key C secret key u w = (Inr k, w1)"
    "lr_user_id resp = u_id u" "lr_api_key resp = k_api_key k" "lr_api_secret resp = secret" by metis
  from issue_key_row [OF u(3)] limits obtain k1 where k1: "k1 \<in> set (w_api_keys ?w)" "k_user_id k1 = u_id u" "k_api_key k1 = lr_api_key resp"
    "\<not> k_is_revoked k1" "k_secret_hash k1 = hash_api_secret C secret" "0 < k_rate_limit_per_min k1" using u(5) by auto
  have ok1: "accounts_ok ?w" using preservesD [OF preserves_accounts_login ok, of C secret key body] login by (simp add: accounts_ok_def)
  have "\<exists>s1. check_and_consume R (k_api_key k1) (k_rate_limit_per_min k1) 60 (unix_time (w_now ?w)) (w_redis ?w) = (Inr (Allowed, 1, 0), s1)"
    using redis_server.check_allows [OF R, of 60 "unix_time t" s "k_api_key k1" "k_rate_limit_per_min k1"] bucket k1(3,6)
    by (auto simp: live_entries_def)
  then obtain s1 where lim: "check_and_consume R (k_api_key k1) (k_rate_limit_per_min k1) 60 (unix_time (w_now ?w)) (w_redis ?w) = (Inr (Allowed, 1, 0), s1)" by blast
  have "signed_by C (w_now ?w) k1 ?rq"
    using key ts k1(3,5) u(6) py_int_str_int [OF ts(1,2)] C
    by (simp add: signed_by_def sign_request_def Let_def header_def hex_digests_def compute_signature_def full_path_def)
  with k1(1,4) lim have "authenticate_request R C ?rq ?w = (Inr (state_of k1 1), touched (k_id k1) (?w\<lparr>w_redis := s1\<rparr>))"
    unfolding authenticate_request_iff [OF ok1] by blast
  then show ?thesis using k1(2) u(1,2,4) by (force simp: state_of_def)
qed

text \<open>
  Deactivating an account does not stop its API keys: whether a request is let in, and as whom, does not depend
  on the users table at all.
\<close>

theorem deactivated_user_keeps_access:
  "fst (authenticate_request R C rq (w\<lparr>w_users := map (\<lambda>u. u\<lparr>u_is_active := False\<rparr>) (w_users w)\<rparr>)) =
   fst (authenticate_request R C rq w)"
proof -
  let ?d = "\<lambda>w :: 'a world. w\<lparr>w_users := map (\<lambda>u. u\<lparr>u_is_active := False\<rparr>) (w_users w)\<rparr>"
  have touch: "seqP (touch_api_key i) (retP st) w = (Inr st, snd (touch_api_key i w))" for i w and st :: request_state
    by (simp add: touch_api_key_def api_keysP_def base_update_def base_get_def prog_defs split: option.split)
  have lim: "enforce_rate_limit R st (?d w) = (case enforce_rate_limit R st w of (r, w1) \<Rightarrow> (r, ?d w1))" for st w
    by (auto simp: enforce_rate_limit_def Let_def prog_defs redP_def split: prod.splits sum.splits)
  show ?thesis
    by (auto simp: authenticate_request_def get_by_api_key_def bindP_def getP_def raiseP_def liftP_def lim touch split: prod.splits sum.splits option.splits)
qed

text \<open>
  A user with two usable keys cannot log in: \<open>scalar_one_or_none\<close> raises, which the caller sees as an internal
  error, although the password is right; nothing is changed.
\<close>

theorem two_keys_block_login:
  assumes "accounts_ok w" and "u \<in> set (w_users w)" and "u_is_active u"
    and "verify_password C password (u_password_hash u)"
    and "k1 \<in> set (w_api_keys w)" and "k2 \<in> set (w_api_keys w)" and "k1 \<noteq> k2"
    and "k_user_id k1 = u_id u" and "k_user_id k2 = u_id u" and "\<not> k_is_revoked k1" and "\<not> k_is_revoked k2"
  shows "login C secret key (u_email u, password) w = (Inl MultipleResultsFound, w)"
proof -
  let ?active = "filter (\<lambda>k. k_user_id k = u_id u \<and> \<not> k_is_revoked k) (w_api_keys w)"
  have two: "k1 \<in> set ?active" "k2 \<in> set ?active" using assms by auto
  then have "scalar_one_or_none ?active = Inl MultipleResultsFound"
    using assms(7) by (rule scalar_two)
  then have "issue_key C secret key u w = (Inl MultipleResultsFound, w)"
    by (simp add: issue_key_def bindP_def getP_def liftP_def)
  moreover have "find (\<lambda>x. u_email x = u_email u) (w_users w) = Some u"
    using scalar_filter_uniq [OF accounts_okD(2) [OF assms(1)], of "u_email u"] filter_uniq [OF accounts_okD(2) [OF assms(1)] assms(2)]
    by (simp add: scalar_one_or_none_def)
  ultimately have "login C secret key (u_email u, password) w = (Inl MultipleResultsFound,
      w\<lparr>w_balances := w_balances w, w_orders := w_orders w, w_pairs := w_pairs w, w_trade_rows := w_trade_rows w,
        w_users := w_users w, w_api_keys := w_api_keys w\<rparr>)"
    using get_by_email_run [OF assms(1), of "u_email u"] assms(3,4) by (simp add: login_def transactionP_def bindP_def)
  then show ?thesis by (cases w) simp
qed

subsection \<open>Admin sessions\<close>

text \<open>A token that is not yet expired decodes to what was encoded.\<close>

definition jwt_roundtrip :: "crypto \<Rightarrow> jwt_payload \<Rightarrow> int \<Rightarrow> bool" where
  "jwt_roundtrip C p clock \<longleftrightarrow> (of_int (j_iat p) \<le> unix_time clock \<and> unix_time clock < of_int (j_exp p) \<longrightarrow>
     (let token = jwt_encode C p (app_secret get_settings) (jwt_algorithm get_settings) in
      strip token = token \<and> jwt_decode C clock token (app_secret get_settings) (jwt_algorithm get_settings) = Some p))"

definition session_payload :: "int \<Rightarrow> int \<Rightarrow> jwt_payload" where
  "session_payload user_id clock = \<lparr>j_sub = Some (str_int user_id), j_is_admin = Some True, j_iat = int_of_float (unix_time clock),
     j_exp = int_of_float (unix_time (clock + 1440 * 60 * 1000000))\<rparr>"

definition bearer :: "string \<Rightarrow> request \<Rightarrow> request" where
  "bearer token rq = rq\<lparr>rq_authorization := Some (''Bearer '' @ token)\<rparr>"

lemma admin_login_steps:
  assumes "admin_login C body w = (Inr (token, i, email), w1)"
  obtains u where "u \<in> set (w_users w)" "u_email u = fst body" "u_is_admin u" "u_is_active u" "u_id u = i" "w1 = w"
    "token = jwt_encode C (session_payload i (w_now w)) (app_secret get_settings) (jwt_algorithm get_settings)"
proof -
  from assms obtain u where u: "scalar_one_or_none (filter (\<lambda>x. u_email x = fst body) (w_users w)) = Inr (Some u)"
    and rest: "u_is_active u" "u_is_admin u" "token = create_jwt_token C (w_now w) (u_id u) True None" "i = u_id u" "w1 = w"
    by (auto simp: admin_login_def run_steps get_by_email_eq split: option.split_asm if_split_asm)
  from rest(3) have "token = jwt_encode C (session_payload i (w_now w)) (app_secret get_settings) (jwt_algorithm get_settings)"
    by (simp add: create_jwt_token_def session_payload_def get_settings_def rest(4) Let_def)
  then show ?thesis using that rest scalar_one_or_noneD [OF u] by blast
qed

text \<open>
  An admin session: the token a login returned is accepted until it expires, for as long as the user it names is
  active. The privilege is the one recorded in the token: the row that is returned need not have \<open>is_admin\<close> any more.
\<close>

theorem admin_session:
  assumes "admin_login C body w = (Inr (token, i, email), w1)" and "0 \<le> i" and "length (str_int i) \<le> 4300"
    and "jwt_roundtrip C (session_payload i (w_now w)) (w_now w2)"
    and "of_int (int_of_float (unix_time (w_now w))) \<le> unix_time (w_now w2)"
    and "unix_time (w_now w2) < of_int (int_of_float (unix_time (w_now w + 86400000000)))"
  shows "authenticate_admin C (bearer token rq) w2 =
    (case find (\<lambda>u. u_id u = i) (w_users w2) of
       None \<Rightarrow> (Inl AuthenticationError, w2)
     | Some u \<Rightarrow> if u_is_active u then (Inr u, w2) else (Inl AuthenticationError, w2))"
proof -
  from admin_login_steps [OF assms(1)] have tok: "token = jwt_encode C (session_payload i (w_now w)) (app_secret get_settings) (jwt_algorithm get_settings)"
    by metis
  have "strip token = token" "decode_jwt_token C (w_now w2) token = Some (session_payload i (w_now w))"
    using assms(4-6) by (simp_all add: jwt_roundtrip_def Let_def tok decode_jwt_token_def) (simp_all add: session_payload_def)
  moreover have "startswith (''Bearer '' @ token) ''Bearer ''" by (simp add: startswith_def)
  moreover from this have "removeprefix (''Bearer '' @ token) ''Bearer '' = token" by (simp add: removeprefix_def)
  ultimately show ?thesis
    using py_int_str_int [OF assms(2,3)]
    by (simp add: authenticate_admin_def bearer_def header_def bindP_def getP_def liftP_def usersP_get raiseP_def retP_def
      session_payload_def split: option.split)
qed

subsection \<open>Registering\<close>

text \<open>
  A registered account can log in with the password it chose: registering a free login creates an
  active account without admin rights, and a login already taken is refused without a change of the tables.
\<close>

theorem register_then_login:
  assumes "accounts_ok w"
    and "\<And>p. bcrypt_checkpw C p (utf8 (bcrypt_hashpw C p salt)) = Some True"
    and "key \<notin> k_api_key ` set (w_api_keys w)"
  shows "if email \<in> u_email ` set (w_users w)
    then fst (register C salt (email, password) w) = Inl (AppError 409 ''login_exists'') \<and>
      w_users (snd (register C salt (email, password) w)) = w_users w
    else \<exists>w1 resp w2. register C salt (email, password) w = (Inr (w_next_user w, email), w1) \<and>
      login C secret key (email, password) w1 = (Inr resp, w2) \<and> lr_user_id resp = w_next_user w \<and>
      \<not> lr_is_admin resp \<and> lr_api_key resp = key"
proof (cases "email \<in> u_email ` set (w_users w)")
  case True
  then obtain u where "find (\<lambda>u. u_email u = email) (w_users w) = Some u"
    using find_key_None [of u_email email "w_users w"] by (cases "find (\<lambda>u. u_email u = email) (w_users w)") auto
  then have "register C salt (email, password) w = (Inl (AppError 409 ''login_exists''),
    w\<lparr>w_balances := w_balances w, w_orders := w_orders w, w_pairs := w_pairs w, w_trade_rows := w_trade_rows w,
        w_users := w_users w, w_api_keys := w_api_keys w\<rparr>)"
    using get_by_email_run [OF assms(1), of email] by (simp add: register_def transactionP_def bindP_def raiseP_def)
  then show ?thesis using True by simp
next
  case False
  let ?u = "\<lparr>u_id = w_next_user w, u_email = email, u_password_hash = hash_password C salt password, u_is_active = True, u_is_admin = False\<rparr>"
  let ?w1 = "w\<lparr>w_users := w_users w @ [?u], w_next_user := w_next_user w + 1\<rparr>"
  have none: "find (\<lambda>u. u_email u = email) (w_users w) = None" using False find_key_None [of u_email email "w_users w"] by blast
  have reg: "register C salt (email, password) w = (Inr (w_next_user w, email), ?w1)"
    using get_by_email_run [OF assms(1), of email] none False
    by (simp add: register_def transactionP_def bindP_def retP_def usersP_def base_create_def)
  have ok1: "accounts_ok ?w1" using preservesD [OF preserves_accounts_register assms(1), of C salt "(email, password)"] reg by simp
  have row: "find (\<lambda>u. u_email u = email) (w_users ?w1) = Some ?u" using none by (simp add: find_app)
  have "k_user_id k < w_next_user w" if "k \<in> set (w_api_keys w)" for k
    using assms(1) that by (auto simp: accounts_ok_def table_ok_def)
  then have "filter (\<lambda>k. k_user_id k = w_next_user w \<and> \<not> k_is_revoked k) (w_api_keys w) = []" by (fastforce simp: filter_empty_conv)
  then have issue: "\<exists>k w2. issue_key C secret key ?u ?w1 = (Inr k, w2) \<and> k_api_key k = key"
    using assms(3)
    by (auto simp: issue_key_def prog_defs liftP_def scalar_one_or_none_def add_api_key_def api_keysP_def base_create_def)
  then obtain k w2 where k: "issue_key C secret key ?u ?w1 = (Inr k, w2)" "k_api_key k = key" by blast
  have "verify_password C password (hash_password C salt password)"
    by (simp add: verify_password_def hash_password_def assms(2))
  then have "\<exists>resp. login C secret key (email, password) ?w1 = (Inr resp, w2) \<and> lr_user_id resp = w_next_user w \<and>
      \<not> lr_is_admin resp \<and> lr_api_key resp = key"
    using get_by_email_run [OF ok1, of email] row k by (auto simp: login_def transactionP_def bindP_def retP_def)
  then show ?thesis using False reg by auto
qed

subsection \<open>An exchange with accounts\<close>

text \<open>Stand-ins for the digests: the hash of a text is the text behind a letter, a signature the length of what it signs.\<close>

definition demo_crypto :: crypto where
  "demo_crypto = \<lparr>sha256_hex = (\<lambda>s. CHR ''h'' # s), hmac_sha256_hex = (\<lambda>k m. digits (length k + length m)),
     bcrypt_hashpw = (\<lambda>p s. p), bcrypt_checkpw = (\<lambda>p h. Some (h = utf8 p)),
     jwt_encode = (\<lambda>p s a. ''token''), jwt_decode = (\<lambda>now t s a. Some (session_payload 1 0))\<rparr>"

definition demo_user :: "int \<Rightarrow> string \<Rightarrow> bool \<Rightarrow> user" where
  "demo_user i email admin = \<lparr>u_id = i, u_email = email, u_password_hash = ''pass'', u_is_active = True, u_is_admin = admin\<rparr>"

definition demo_key :: "int \<Rightarrow> int \<Rightarrow> string \<Rightarrow> api_key" where
  "demo_key i u key = \<lparr>k_id = i, k_user_id = u, k_api_key = key, k_secret_hash = ''hsecret'', k_label = None,
     k_permissions = [''trade'', ''read''], k_rate_limit_per_min = 2, k_is_revoked = False, k_last_used_at = None\<rparr>"

definition accounts :: "api_key list \<Rightarrow> mem_state world" where
  "accounts ks = (market Map.empty [] empty_redis)\<lparr>w_users := [demo_user 1 ''admin'' True, demo_user 2 ''test'' False], w_next_user := 3,
     w_api_keys := ks, w_next_api_key := 3\<rparr>"

lemma accounts_ok_accounts: "accounts_ok (accounts [])" "accounts_ok (accounts [demo_key 1 2 ''k1''])"
  "accounts_ok (accounts [demo_key 1 2 ''k1'', demo_key 2 2 ''k2''])"
  by (simp_all add: accounts_ok_def table_ok_def accounts_def market_def demo_user_def demo_key_def btc_usdt_def)

lemma hex_digests_demo: "hex_digests demo_crypto"
proof -
  have "code c < 128" if "c \<in> set (digits n)" for c n
    using digits_are_digits [of n] that by (fastforce simp: list_all_iff digit_val_def code_def Let_def split: if_splits)
  then show ?thesis by (auto simp: hex_digests_def demo_crypto_def is_ascii_def digits_not_Nil)
qed

theorem authenticate_request_exact_witness:
  "let w = accounts [demo_key 1 2 ''k1'']; rq = sign_request demo_crypto \<lparr>lr_user_id = 2, lr_login = ''test'', lr_is_admin = False,
      lr_api_key = ''k1'', lr_api_secret = ''secret'', lr_permissions = []\<rparr> 0 ''GET'' ''/x'' [] [] in
   accounts_ok w \<and> (\<exists>st w1. authenticate_request mem_redis demo_crypto rq w = (Inr st, w1) \<and> rs_user_id st = 2)"
proof -
  let ?w = "accounts [demo_key 1 2 ''k1'']"
  let ?rq = "sign_request demo_crypto \<lparr>lr_user_id = 2, lr_login = ''test'', lr_is_admin = False,
      lr_api_key = ''k1'', lr_api_secret = ''secret'', lr_permissions = []\<rparr> 0 ''GET'' ''/x'' [] []"
  have s: "signed_by demo_crypto (w_now ?w) (demo_key 1 2 ''k1'') ?rq" by code_simp
  have "w_redis ?w = empty_redis" by (simp add: accounts_def market_def)
  then obtain s1 where "check_and_consume mem_redis (k_api_key (demo_key 1 2 ''k1'')) (k_rate_limit_per_min (demo_key 1 2 ''k1'')) 60
      (unix_time (w_now ?w)) (w_redis ?w) = (Inr (Allowed, 1, 0), s1)"
    using mem.check_allows [of 60 "unix_time (w_now ?w)" empty_redis "k_api_key (demo_key 1 2 ''k1'')" 2]
    by (auto simp: demo_key_def live_entries_def mem_view_def empty_redis_def mz_def)
  then have "authenticate_request mem_redis demo_crypto ?rq ?w = (Inr (state_of (demo_key 1 2 ''k1'') 1), touched (k_id (demo_key 1 2 ''k1'')) (?w\<lparr>w_redis := s1\<rparr>))"
    unfolding authenticate_request_exact [OF accounts_ok_accounts(2)] using s by (auto simp: accounts_def demo_key_def)
  then show ?thesis using accounts_ok_accounts(2) by (auto simp: Let_def state_of_def demo_key_def)
qed

theorem two_keys_block_login_witness:
  "let w = accounts [demo_key 1 2 ''k1'', demo_key 2 2 ''k2''] in accounts_ok w \<and>
   login demo_crypto ''s'' ''k3'' (''test'', ''pass'') w = (Inl MultipleResultsFound, w)"
  using two_keys_block_login [OF accounts_ok_accounts(3), of "demo_user 2 ''test'' False" demo_crypto "''pass''" "demo_key 1 2 ''k1''" "demo_key 2 2 ''k2''" "''s''" "''k3''"]
    accounts_ok_accounts(3)
  by (simp add: accounts_def demo_user_def demo_key_def verify_password_def demo_crypto_def utf8_def code_def Let_def)

theorem admin_session_witness:
  "let w = accounts []; rq = sign_request demo_crypto \<lparr>lr_user_id = 0, lr_login = [], lr_is_admin = False, lr_api_key = [],
     lr_api_secret = [], lr_permissions = []\<rparr> 0 ''GET'' ''/x'' [] [] in
   admin_login demo_crypto (''admin'', ''pass'') w = (Inr (''token'', 1, ''admin''), w) \<and>
   authenticate_admin demo_crypto (bearer ''token'' rq) w = (Inr (demo_user 1 ''admin'' True), w)"
proof -
  let ?w = "accounts []"
  have l: "admin_login demo_crypto (''admin'', ''pass'') ?w = (Inr (''token'', 1, ''admin''), ?w)"
    by (simp add: admin_login_def accounts_def demo_user_def exec_defs verify_password_def demo_crypto_def utf8_def code_def create_jwt_token_def Let_def)
  have now: "w_now ?w = 0" "find (\<lambda>u. u_id u = 1) (w_users ?w) = Some (demo_user 1 ''admin'' True)" "u_is_active (demo_user 1 ''admin'' True)"
    by (simp_all add: accounts_def market_def demo_user_def)
  have rt: "jwt_roundtrip demo_crypto (session_payload 1 (w_now ?w)) (w_now ?w)"
    unfolding now by (simp add: jwt_roundtrip_def demo_crypto_def Let_def) code_simp
  have t: "length (str_int 1) \<le> 4300" "of_int (int_of_float (unix_time 0)) \<le> unix_time 0"
    "unix_time 0 < of_int (int_of_float (unix_time (0 + 86400000000)))" by code_simp+
  show ?thesis using admin_session [OF l _ t(1) rt] t(2,3) l by (simp add: now Let_def)
qed

theorem login_then_request_witness:
  "let w = accounts [demo_key 1 2 ''k1''] in \<exists>resp w1 st w3.
     login demo_crypto ''secret2'' ''k9'' (''test'', ''pass'') w = (Inr resp, w1) \<and>
     authenticate_request mem_redis demo_crypto (sign_request demo_crypto resp 25 ''post'' ''/orders'' ''a=1'' ''{}'')
       (w1\<lparr>w_now := 1000000, w_redis := empty_redis\<rparr>) = (Inr st, w3) \<and> rs_user_id st = 2"
proof -
  let ?w = "accounts [demo_key 1 2 ''k1'']"
  have ok: "is_ok (fst (login demo_crypto ''secret2'' ''k9'' (''test'', ''pass'') ?w))"
    by (simp add: login_def issue_key_def accounts_def demo_user_def demo_key_def exec_defs verify_password_def demo_crypto_def utf8_def code_def Let_def)
  then obtain resp w1 where run: "login demo_crypto ''secret2'' ''k9'' (''test'', ''pass'') ?w = (Inr resp, w1)" by (rule is_ok_runE)
  then have r: "lr_api_key resp = ''k1''" "lr_user_id resp = 2"
    by (auto simp: login_def issue_key_def accounts_def demo_user_def demo_key_def exec_defs verify_password_def demo_crypto_def utf8_def code_def Let_def)
  have t: "0 \<le> (25::int)" "length (str_int 25) \<le> 4300" "\<bar>int_of_float (unix_time 1000000) - 25\<bar> \<le> 30" by code_simp+
  have z: "zsets (mem_view empty_redis) (ratelimit_key (lr_api_key resp)) = []" by (simp add: mem_view_def empty_redis_def mz_def)
  have "lr_api_key resp \<noteq> []" "\<forall>k\<in>set (w_api_keys ?w). 0 < k_rate_limit_per_min k" by (simp_all add: r accounts_def demo_key_def)
  from login_then_request [OF mem.redis_server_axioms accounts_ok_accounts(2) hex_digests_demo run this z t]
  show ?thesis unfolding Let_def r(2) using run by blast
qed

theorem register_then_login_witness:
  "let w = accounts []; C = demo_crypto\<lparr>bcrypt_checkpw := (\<lambda>p h. Some True)\<rparr> in \<exists>w1 resp w2.
     register C ''salt'' (''new'', ''pass'') w = (Inr (3, ''new''), w1) \<and>
     login C ''s'' ''k1'' (''new'', ''pass'') w1 = (Inr resp, w2) \<and> lr_user_id resp = 3"
proof -
  let ?C = "demo_crypto\<lparr>bcrypt_checkpw := (\<lambda>p h. Some True)\<rparr>"
  have c: "bcrypt_checkpw ?C p (utf8 (bcrypt_hashpw ?C p ''salt'')) = Some True" for p by simp
  have k: "''k1'' \<notin> k_api_key ` set (w_api_keys (accounts []))" by (simp add: accounts_def)
  have e: "''new'' \<notin> u_email ` set (w_users (accounts []))" "w_next_user (accounts []) = 3" by (simp_all add: accounts_def demo_user_def)
  show ?thesis using register_then_login [OF accounts_ok_accounts(1) c k, of "''new''" "''pass''" "''s''"] e by (auto simp: Let_def)
qed

end
