(* ===== verification/Admin.thy ===== *)
theory Admin
  imports Auth Order_Service
begin

section \<open>The admin service and the seed data\<close>

text \<open>
  \<open>services/admin_service.py\<close>, the endpoints under \<open>api/admin\<close> with the request schemas of \<open>schemas/admin.py\<close>, and
  \<open>db/seed.py\<close>. An endpoint authenticates the admin, checks the fields of the body, runs the service and commits;
  what it raises is answered by the handlers of \<open>core/exceptions.py\<close>.
\<close>

subsection \<open>Users and balances\<close>

definition create_user :: "string \<Rightarrow> string \<Rightarrow> bool \<Rightarrow> ('s, user) world_prog" where
  "create_user email password_hash is_admin =
     bindP (get_by_email email) (\<lambda>existing. case existing of
       Some u \<Rightarrow> raiseP (ValueError ''User already exists'')
     | None \<Rightarrow> usersP (base_create u_email (\<lambda>i r. r\<lparr>u_id := i\<rparr>) \<lparr>u_id = 0, u_email = email,
         u_password_hash = password_hash, u_is_active = True, u_is_admin = is_admin\<rparr>))"

definition get_user :: "int \<Rightarrow> ('s, user option) world_prog" where
  "get_user user_id = usersP (base_get u_id user_id)"

definition list_users :: "nat \<Rightarrow> nat \<Rightarrow> ('s, user list) world_prog" where
  "list_users offset limit = usersP (get_multi offset limit (None :: (user \<Rightarrow> int) option) False)"

definition toggle_user_active :: "int \<Rightarrow> bool \<Rightarrow> ('s, user option) world_prog" where
  "toggle_user_active user_id active = usersP (base_update u_id user_id (\<lambda>u. u\<lparr>u_is_active := active\<rparr>))"

text \<open>A new balance row refers to \<open>users\<close>: for an unknown user the insert of \<open>get_or_create\<close> fails.\<close>

definition adjust_balance :: "int \<Rightarrow> string \<Rightarrow> rat \<Rightarrow> ('s, balance) world_prog" where
  "adjust_balance user_id asset delta =
     bindP (getP (\<lambda>w. w_balances w (user_id, asset) = None \<and> user_id \<notin> set (map u_id (w_users w)))) (\<lambda>orphan.
     if orphan then raiseP IntegrityError else balP (admin_adjust user_id asset delta))"

text \<open>The rows of a user, in the order \<open>assets\<close> in which the table is scanned.\<close>

definition get_all_for_user :: "string list \<Rightarrow> int \<Rightarrow> balance list balance_prog" where
  "get_all_for_user assets user_id = getP (\<lambda>t. List.map_filter (\<lambda>a. t (user_id, a)) assets)"

definition get_for_update_multi :: "int \<Rightarrow> string list \<Rightarrow> (string \<rightharpoonup> balance) balance_prog" where
  "get_for_update_multi user_id assets = getP (\<lambda>t a. if a \<in> set assets then t (user_id, a) else None)"

definition get_all_balances :: "string list \<Rightarrow> int \<Rightarrow> ('s, balance list) world_prog" where
  "get_all_balances assets user_id = balP (get_all_for_user assets user_id)"

definition credit_user :: "int \<Rightarrow> string \<Rightarrow> rat \<Rightarrow> ('s, balance) world_prog" where
  "credit_user user_id asset amount =
     (if amount \<le> 0 then raiseP (ValueError ''amount must be positive'') else adjust_balance user_id asset amount)"

definition debit_user :: "int \<Rightarrow> string \<Rightarrow> rat \<Rightarrow> ('s, balance) world_prog" where
  "debit_user user_id asset amount =
     (if amount \<le> 0 then raiseP (ValueError ''amount must be positive'') else adjust_balance user_id asset (- amount))"

subsection \<open>Markets and API keys\<close>

definition numeric6 :: "rat \<Rightarrow> rat" where
  "numeric6 x = sgn x * of_int \<lfloor>\<bar>x\<bar> * 10 ^ 6 + 1 / 2\<rfloor> / 10 ^ 6"

text \<open>The row as the columns keep it.\<close>

definition store_pair :: "trading_pair \<Rightarrow> trading_pair" where
  "store_pair p = p\<lparr>p_min_lot_size := numeric18 (p_min_lot_size p), p_max_lot_size := numeric18 (p_max_lot_size p),
     p_tick_size := numeric18 (p_tick_size p), p_maker_fee_bps := numeric6 (p_maker_fee_bps p),
     p_taker_fee_bps := numeric6 (p_taker_fee_bps p)\<rparr>"

definition create_trading_pair :: "trading_pair \<Rightarrow> ('s, trading_pair) world_prog" where
  "create_trading_pair p =
     bindP (get_by_symbol (p_symbol p)) (\<lambda>existing. case existing of
       Some q \<Rightarrow> raiseP (ValueError ''Trading pair already exists'')
     | None \<Rightarrow> pairsP (base_create p_symbol (\<lambda>i r. r\<lparr>p_id := i\<rparr>) (store_pair (p\<lparr>p_is_active := True\<rparr>))))"

definition toggle_pair_active :: "int \<Rightarrow> bool \<Rightarrow> ('s, trading_pair option) world_prog" where
  "toggle_pair_active pair_id active = pairsP (base_update p_id pair_id (\<lambda>p. p\<lparr>p_is_active := active\<rparr>))"

definition list_trading_pairs :: "('s, trading_pair list) world_prog" where
  "list_trading_pairs = list_active"

definition create_api_key ::
  "crypto \<Rightarrow> string \<Rightarrow> string \<Rightarrow> int \<Rightarrow> string option \<Rightarrow> string list option \<Rightarrow> int \<Rightarrow> ('s, api_key \<times> string) world_prog" where
  "create_api_key C raw_key raw_secret user_id label permissions rate_limit_per_min =
     bindP (add_api_key \<lparr>k_id = 0, k_user_id = user_id, k_api_key = raw_key, k_secret_hash = hash_api_secret C raw_secret,
       k_label = label, k_permissions = (case permissions of None \<Rightarrow> default_permissions | Some [] \<Rightarrow> default_permissions | Some ps \<Rightarrow> ps),
       k_rate_limit_per_min = rate_limit_per_min, k_is_revoked = False, k_last_used_at = None\<rparr>) (\<lambda>k.
     retP (k, raw_secret))"

definition revoke_api_key :: "int \<Rightarrow> ('s, bool) world_prog" where
  "revoke_api_key api_key_id =
     bindP (api_keysP (base_update k_id api_key_id (\<lambda>k. k\<lparr>k_is_revoked := True\<rparr>))) (\<lambda>r. retP (r \<noteq> None))"

subsection \<open>Answers\<close>

text \<open>The status of the answer to a request that raised, and the code in its body.\<close>

fun error_response :: "exn \<Rightarrow> int \<times> string" where
  "error_response (AppError status error_code) = (status, error_code)"
| "error_response (HTTPException status) = (status, ''http_exception'')"
| "error_response RequestValidationError = (422, ''request_validation'')"
| "error_response _ = (500, ''internal_error'')"

definition answer :: "int \<Rightarrow> (exn, 'a) result \<times> 's \<Rightarrow> int" where
  "answer success r = (case fst r of Inl e \<Rightarrow> fst (error_response e) | Inr x \<Rightarrow> success)"

definition validP :: "bool \<Rightarrow> ('s, 'a) world_prog \<Rightarrow> ('s, 'a) world_prog" where
  "validP ok m = (if ok then m else raiseP RequestValidationError)"

definition admin_endpoint :: "crypto \<Rightarrow> request \<Rightarrow> ('s, 'a) world_prog \<Rightarrow> ('s, 'a) world_prog" where
  "admin_endpoint C rq h = bindP (authenticate_admin C rq) (\<lambda>admin. h)"

definition admin_create_user :: "crypto \<Rightarrow> string \<Rightarrow> request \<Rightarrow> string \<Rightarrow> string \<Rightarrow> bool \<Rightarrow> ('s, user) world_prog" where
  "admin_create_user C salt rq email password is_admin = admin_endpoint C rq (validP (8 \<le> length password)
     (transactionP (create_user email (hash_password C salt password) is_admin)))"

definition admin_list_users :: "crypto \<Rightarrow> request \<Rightarrow> int \<Rightarrow> int \<Rightarrow> ('s, user list) world_prog" where
  "admin_list_users C rq offset limit = admin_endpoint C rq (validP (0 \<le> offset \<and> 1 \<le> limit \<and> limit \<le> 500)
     (list_users (nat offset) (nat limit)))"

definition admin_get_user :: "crypto \<Rightarrow> request \<Rightarrow> int \<Rightarrow> ('s, user) world_prog" where
  "admin_get_user C rq user_id = admin_endpoint C rq (bindP (get_user user_id) (\<lambda>u. case u of
     None \<Rightarrow> raiseP (AppError 404 ''user_not_found'') | Some u \<Rightarrow> retP u))"

definition admin_toggle_user :: "crypto \<Rightarrow> request \<Rightarrow> int \<Rightarrow> bool \<Rightarrow> ('s, user) world_prog" where
  "admin_toggle_user C rq user_id active = admin_endpoint C rq (bindP (transactionP (toggle_user_active user_id active)) (\<lambda>u. case u of
     None \<Rightarrow> raiseP (AppError 404 ''user_not_found'') | Some u \<Rightarrow> retP u))"

definition admin_adjust_balance :: "crypto \<Rightarrow> request \<Rightarrow> int \<Rightarrow> string \<Rightarrow> rat \<Rightarrow> ('s, balance) world_prog" where
  "admin_adjust_balance C rq user_id asset delta = admin_endpoint C rq
     (tryP (transactionP (adjust_balance user_id asset delta)) (\<lambda>e. case e of
        InsufficientBalanceError u a req av \<Rightarrow> raiseP (AppError 402 ''insufficient_balance'') | _ \<Rightarrow> raiseP e))"

definition admin_user_balances :: "crypto \<Rightarrow> request \<Rightarrow> string list \<Rightarrow> int \<Rightarrow> ('s, balance list) world_prog" where
  "admin_user_balances C rq assets user_id = admin_endpoint C rq (get_all_balances assets user_id)"

definition valid_pair_request :: "trading_pair \<Rightarrow> bool" where
  "valid_pair_request p \<longleftrightarrow> 3 \<le> length (p_symbol p) \<and> length (p_symbol p) \<le> 20 \<and>
     0 \<le> p_price_precision p \<and> p_price_precision p \<le> 18 \<and> 0 \<le> p_quantity_precision p \<and> p_quantity_precision p \<le> 18 \<and>
     0 < p_min_lot_size p \<and> 0 < p_max_lot_size p \<and> 0 < p_tick_size p"

definition admin_create_pair :: "crypto \<Rightarrow> request \<Rightarrow> trading_pair \<Rightarrow> ('s, trading_pair) world_prog" where
  "admin_create_pair C rq p = admin_endpoint C rq (validP (valid_pair_request p) (transactionP (create_trading_pair p)))"

definition admin_list_pairs :: "crypto \<Rightarrow> request \<Rightarrow> ('s, trading_pair list) world_prog" where
  "admin_list_pairs C rq = admin_endpoint C rq list_trading_pairs"

definition admin_toggle_pair :: "crypto \<Rightarrow> request \<Rightarrow> int \<Rightarrow> bool \<Rightarrow> ('s, trading_pair) world_prog" where
  "admin_toggle_pair C rq pair_id active = admin_endpoint C rq (bindP (transactionP (toggle_pair_active pair_id active)) (\<lambda>p. case p of
     None \<Rightarrow> raiseP (AppError 404 ''trading_pair_not_found'') | Some p \<Rightarrow> retP p))"

definition admin_create_key ::
  "crypto \<Rightarrow> request \<Rightarrow> string \<Rightarrow> string \<Rightarrow> int \<Rightarrow> string option \<Rightarrow> string list \<Rightarrow> int \<Rightarrow> ('s, api_key \<times> string) world_prog" where
  "admin_create_key C rq raw_key raw_secret user_id label permissions rate_limit_per_min = admin_endpoint C rq
     (validP (set permissions \<subseteq> {''trade'', ''read'', ''ws''})
       (transactionP (create_api_key C raw_key raw_secret user_id label (Some permissions) rate_limit_per_min)))"

definition admin_revoke_key :: "crypto \<Rightarrow> request \<Rightarrow> int \<Rightarrow> ('s, bool) world_prog" where
  "admin_revoke_key C rq api_key_id = admin_endpoint C rq (transactionP (revoke_api_key api_key_id))"

subsection \<open>Seed data\<close>

definition DEFAULT_PASSWORD_HASH :: string where
  "DEFAULT_PASSWORD_HASH = ''$2b$12$YoOvlVHqBqmjojR56Om.WOjhr6ILQj.0mmZXs8bwBfDidn.2t4bla''"

definition TEST_PASSWORD_HASH :: string where
  "TEST_PASSWORD_HASH = ''$2b$12$Eq1doW2/woemUOk4jajY4OuK/28ynaYs26KD1BNcB8px73BPQOSZW''"

definition ensure_user :: "string \<Rightarrow> string \<Rightarrow> bool \<Rightarrow> ('s, user) world_prog" where
  "ensure_user email password_hash is_admin = bindP (get_by_email email) (\<lambda>found. case found of
       None \<Rightarrow> usersP (base_create u_email (\<lambda>i r. r\<lparr>u_id := i\<rparr>) \<lparr>u_id = 0, u_email = email, u_password_hash = password_hash,
         u_is_active = True, u_is_admin = is_admin\<rparr>)
     | Some u \<Rightarrow> if u_password_hash u = [] \<or> \<not> startswith (u_password_hash u) ''$2b$''
         then seqP (usersP (base_update u_id (u_id u) (\<lambda>u. u\<lparr>u_password_hash := password_hash\<rparr>))) (retP (u\<lparr>u_password_hash := password_hash\<rparr>))
         else retP u)"

definition ensure_balance :: "int \<Rightarrow> string \<Rightarrow> rat \<Rightarrow> ('s, unit) world_prog" where
  "ensure_balance user_id asset amount = bindP (balP (get_by_user_asset user_id asset)) (\<lambda>row. case row of
       None \<Rightarrow> modP (\<lambda>w. w\<lparr>w_balances := (w_balances w)((user_id, asset) \<mapsto> \<lparr>b_user_id = user_id, b_asset = asset,
         total_balance = amount, locked_balance = 0, available_balance = amount, b_version = 1\<rparr>)\<rparr>)
     | Some b \<Rightarrow> retP ())"

definition btc_usd :: trading_pair where
  "btc_usd = \<lparr>p_id = 0, p_symbol = ''BTC/USD'', p_base_asset = ''BTC'', p_quote_asset = ''USD'', p_price_precision = 2,
     p_quantity_precision = 8, p_min_lot_size = 1 / 10000, p_max_lot_size = 1000, p_tick_size = 1 / 100, p_maker_fee_bps = 0,
     p_taker_fee_bps = 0, p_is_active = True\<rparr>"

definition ensure_pair :: "trading_pair \<Rightarrow> ('s, unit) world_prog" where
  "ensure_pair p = bindP (get_by_symbol (p_symbol p)) (\<lambda>found. case found of
       None \<Rightarrow> bindP (pairsP (base_create p_symbol (\<lambda>i r. r\<lparr>p_id := i\<rparr>) (store_pair p))) (\<lambda>_. retP ())
     | Some q \<Rightarrow> retP ())"

definition seed_balances :: "int \<Rightarrow> int \<Rightarrow> (int \<times> string \<times> rat) list" where
  "seed_balances test test2 = [(test, ''USD'', 100000), (test, ''BTC'', 10), (test2, ''USD'', 100000), (test2, ''BTC'', 10)]"

definition seed_database :: "('s, unit) world_prog" where
  "seed_database = transactionP
     (seqP (ensure_user ''admin'' DEFAULT_PASSWORD_HASH True)
     (bindP (ensure_user ''test'' TEST_PASSWORD_HASH False) (\<lambda>test_user.
      bindP (ensure_user ''test2'' TEST_PASSWORD_HASH False) (\<lambda>test2_user.
      seqP (forP (seed_balances (u_id test_user) (u_id test2_user)) (\<lambda>(user_id, asset, amount). ensure_balance user_id asset amount))
        (ensure_pair btc_usd)))))"

subsection \<open>Every operation keeps the account tables well formed\<close>

lemma accounts_ok_frame: "accounts_ok (w\<lparr>w_balances := t\<rparr>) = accounts_ok w" "accounts_ok (w\<lparr>w_redis := s\<rparr>) = accounts_ok w"
  by (simp_all add: accounts_ok_def)

lemma preserves_accounts_balP [preserves_intros]: "preserves accounts_ok (balP m)"
  by (simp add: preserves_def balP_def accounts_ok_frame split: prod.split)

lemma sequences_balP [preserves_intros]: "preserves (sequences_ge a b c) (balP m)"
  by (simp add: preserves_def balP_def sequences_ge_def split: prod.split)

lemma preserves_get_by_symbol [preserves_intros]: "preserves I (get_by_symbol symbol)"
  unfolding get_by_symbol_def by (intro preserves_intros)

lemmas accounts_intros = preserves_intros preserves_add_key preserves_create_user preserves_create_pair
  preserves_update_key preserves_update_user preserves_update_pair preserves_accounts_transaction sequences_growI

lemma preserves_ensure_balance: "preserves accounts_ok (ensure_balance u a x)"
  unfolding ensure_balance_def by (intro accounts_intros preserves_mod) (simp add: accounts_ok_frame)

lemma sequences_ensure_balance: "preserves (sequences_ge i j l) (ensure_balance u a x)"
  unfolding ensure_balance_def by (intro preserves_intros preserves_mod) (simp add: sequences_ge_def)

text \<open>A command of the account administration, with the random tokens and salts it draws.\<close>

datatype account_cmd =
    Login string string string string
  | Register string string string
  | CreateUser string string bool
  | ToggleUser int bool
  | AdjustBalance int string rat
  | CreatePair trading_pair
  | TogglePair int bool
  | CreateApiKey string string int "string option" "string list option" int
  | RevokeApiKey int
  | TouchApiKey int
  | Seed

fun run_account :: "crypto \<Rightarrow> account_cmd \<Rightarrow> 's world \<Rightarrow> 's world" where
  "run_account C (Login secret key email password) = (\<lambda>w. snd (login C secret key (email, password) w))"
| "run_account C (Register salt email password) = (\<lambda>w. snd (register C salt (email, password) w))"
| "run_account C (CreateUser email hash admin) = (\<lambda>w. snd (transactionP (create_user email hash admin) w))"
| "run_account C (ToggleUser i active) = (\<lambda>w. snd (transactionP (toggle_user_active i active) w))"
| "run_account C (AdjustBalance i asset delta) = (\<lambda>w. snd (transactionP (adjust_balance i asset delta) w))"
| "run_account C (CreatePair p) = (\<lambda>w. snd (transactionP (create_trading_pair p) w))"
| "run_account C (TogglePair i active) = (\<lambda>w. snd (transactionP (toggle_pair_active i active) w))"
| "run_account C (CreateApiKey key secret i label perms limit) =
     (\<lambda>w. snd (transactionP (create_api_key C key secret i label perms limit) w))"
| "run_account C (RevokeApiKey i) = (\<lambda>w. snd (transactionP (revoke_api_key i) w))"
| "run_account C (TouchApiKey i) = (\<lambda>w. snd (touch_api_key i w))"
| "run_account C Seed = (\<lambda>w. snd (seed_database w))"

lemma preserves_accounts_seed: "preserves accounts_ok seed_database"
  unfolding seed_database_def ensure_user_def ensure_pair_def
  by (intro accounts_intros preserves_ensure_balance sequences_ensure_balance) simp_all

lemma preserves_accounts_ops:
  "preserves accounts_ok (transactionP (create_user e h admin))"
  "preserves accounts_ok (transactionP (toggle_user_active i b))"
  "preserves accounts_ok (transactionP (adjust_balance i a d))"
  "preserves accounts_ok (transactionP (create_trading_pair p))"
  "preserves accounts_ok (transactionP (toggle_pair_active i b))"
  "preserves accounts_ok (transactionP (create_api_key C k s i l ps n))"
  "preserves accounts_ok (transactionP (revoke_api_key i))"
  "preserves accounts_ok (touch_api_key i)"
  unfolding create_user_def toggle_user_active_def adjust_balance_def create_trading_pair_def toggle_pair_active_def
    create_api_key_def revoke_api_key_def touch_api_key_def
  by ((intro accounts_intros; simp)+)

lemma run_account_ok: "accounts_ok w \<Longrightarrow> accounts_ok (run_account C cmd w)"
  by (cases cmd) (simp_all add: preserves_accounts_ops [THEN preservesD] preserves_accounts_seed [THEN preservesD]
    preserves_accounts_login [THEN preservesD] preserves_accounts_register [THEN preservesD])

lemma accounts_ok_fold: "accounts_ok w \<Longrightarrow> accounts_ok (fold (run_account C) cmds w)"
  by (induction cmds arbitrary: w) (auto intro: run_account_ok)

lemma accounts_ok_revoke: "accounts_ok w \<Longrightarrow> accounts_ok (snd (revoke_api_key i w))"
proof (rule preservesD)
  show "preserves accounts_ok (revoke_api_key i)" unfolding revoke_api_key_def by (intro accounts_intros; simp)
qed



subsection \<open>Revoking a key\<close>

definition key_revoked :: "int \<Rightarrow> 's world \<Rightarrow> bool" where
  "key_revoked i w \<longleftrightarrow> (\<exists>k\<in>set (w_api_keys w). k_id k = i \<and> k_is_revoked k)"

lemma key_revoked_update:
  assumes "\<And>k. k_id (f k) = k_id k" and "\<And>k. k_is_revoked k \<Longrightarrow> k_is_revoked (f k)"
  shows "preserves (key_revoked i) (api_keysP (base_update k_id j f))"
proof (rule preservesI)
  fix w :: "'s world" assume "key_revoked i w"
  then obtain k where k: "k \<in> set (w_api_keys w)" "k_id k = i" "k_is_revoked k" by (auto simp: key_revoked_def)
  have "\<exists>x\<in>set (map (\<lambda>x. if k_id x = j then f x else x) (w_api_keys w)). k_id x = i \<and> k_is_revoked x"
    using k assms by (intro bexI [of _ "if k_id k = j then f k else k"]) auto
  then show "key_revoked i (snd (api_keysP (base_update k_id j f) w))"
    using \<open>key_revoked i w\<close> by (auto simp: key_revoked_def api_keysP_def base_update_def base_get_def prog_defs split: option.split)
qed

lemma key_revoked_frames [preserves_intros]:
  "preserves (key_revoked i) (usersP m)" "preserves (key_revoked i) (pairsP m1)" "preserves (key_revoked i) (balP m2)"
  "preserves (key_revoked i) (add_api_key k)"
  by (rule preservesI; auto simp: key_revoked_def usersP_def pairsP_def balP_def add_api_key_def api_keysP_def base_create_def
    prog_defs split: prod.splits)+

lemma key_revoked_transaction: "preserves (key_revoked i) m \<Longrightarrow> preserves (key_revoked i) (transactionP m)"
  by (rule preserves_transaction) (simp_all add: key_revoked_def)

lemma key_revoked_balance: "preserves (key_revoked i) (ensure_balance u a x)"
  unfolding ensure_balance_def by (intro preserves_intros preserves_mod) (simp add: key_revoked_def)

lemmas revoked_intros = preserves_intros key_revoked_update key_revoked_transaction key_revoked_balance

lemma key_revoked_ops:
  "preserves (key_revoked j) (login C secret key body)" "preserves (key_revoked j) (register C salt body)"
  "preserves (key_revoked j) (transactionP (create_user e h admin))"
  "preserves (key_revoked j) (transactionP (toggle_user_active i b))"
  "preserves (key_revoked j) (transactionP (adjust_balance i a d))"
  "preserves (key_revoked j) (transactionP (create_trading_pair p))"
  "preserves (key_revoked j) (transactionP (toggle_pair_active i b))"
  "preserves (key_revoked j) (transactionP (create_api_key C k s i l ps n))"
  "preserves (key_revoked j) (transactionP (revoke_api_key i))"
  "preserves (key_revoked j) (touch_api_key i)" "preserves (key_revoked j) seed_database"
  unfolding create_user_def toggle_user_active_def adjust_balance_def create_trading_pair_def toggle_pair_active_def
    create_api_key_def revoke_api_key_def touch_api_key_def login_def issue_key_def register_def seed_database_def ensure_user_def ensure_pair_def
  by ((intro revoked_intros; simp)+)

lemma key_revoked_run: "key_revoked i w \<Longrightarrow> key_revoked i (run_account C cmd w)"
  by (cases cmd) (simp_all add: key_revoked_ops [THEN preservesD])

lemma key_revoked_fold: "key_revoked i w \<Longrightarrow> key_revoked i (fold (run_account C) cmds w)"
  by (induction cmds arbitrary: w) (auto intro: key_revoked_run)

lemma revoke_api_key_marks:
  assumes "revoke_api_key i w = (Inr True, w1)"
  shows "key_revoked i w1"
proof -
  from assms obtain k where k: "find (\<lambda>k. k_id k = i) (w_api_keys w) = Some k"
    by (auto simp: revoke_api_key_def api_keysP_def base_update_def base_get_def prog_defs split: option.splits)
  then have "w_api_keys w1 = map (\<lambda>k. if k_id k = i then k\<lparr>k_is_revoked := True\<rparr> else k) (w_api_keys w)"
    using assms by (auto simp: revoke_api_key_def api_keysP_def base_update_def base_get_def prog_defs)
  moreover have "k \<in> set (w_api_keys w)" "k_id k = i" using find_SomeD [OF k] by auto
  ultimately show ?thesis unfolding key_revoked_def by (intro bexI [of _ "k\<lparr>k_is_revoked := True\<rparr>"]) auto
qed

text \<open>
  C16. A revoked key is out for good: after \<open>revoke_api_key\<close> has answered that it revoked the key, and whatever
  account commands run afterwards, no request is authenticated with it.
\<close>

theorem revoked_key_stays_out:
  assumes "accounts_ok w" and "revoke_api_key i w = (Inr True, w1)"
    and "authenticate_request R C rq (fold (run_account C) cmds w1) = (Inr st, w2)"
  shows "rs_api_key_id st \<noteq> i"
proof
  assume "rs_api_key_id st = i"
  let ?w = "fold (run_account C) cmds w1"
  have ok: "accounts_ok ?w" using accounts_ok_fold [OF accounts_ok_revoke [OF assms(1)]] assms(2) by (metis snd_conv)
  have "key_revoked i ?w" by (rule key_revoked_fold [OF revoke_api_key_marks [OF assms(2)]])
  then obtain k where k: "k \<in> set (w_api_keys ?w)" "k_id k = i" "k_is_revoked k" by (auto simp: key_revoked_def)
  from assms(3) obtain k1 c where k1: "k1 \<in> set (w_api_keys ?w)" "\<not> k_is_revoked k1" "st = state_of k1 c"
    unfolding authenticate_request_iff [OF ok] by blast
  then have "k_id k1 = i" using \<open>rs_api_key_id st = i\<close> by (simp add: state_of_def)
  moreover have "inj_on k_id (set (w_api_keys ?w))" using accounts_okD(3) [OF ok] by (simp add: distinct_map)
  ultimately have "k1 = k" using k k1(1) by (metis inj_onD)
  then show False using k(3) k1(2) by simp
qed

definition demo_request :: "string \<Rightarrow> request" where
  "demo_request key = sign_request demo_crypto \<lparr>lr_user_id = 2, lr_login = ''test'', lr_is_admin = False,
      lr_api_key = key, lr_api_secret = ''secret'', lr_permissions = []\<rparr> 0 ''GET'' ''/x'' [] []"

lemma demo_request_ok:
  assumes "accounts_ok w" and "demo_key i u key \<in> set (w_api_keys w)" and "key \<noteq> []" and "w_now w = 0" and "w_redis w = empty_redis"
  shows "\<exists>w1. authenticate_request mem_redis demo_crypto (demo_request key) w = (Inr (state_of (demo_key i u key) 1), w1)"
proof -
  have "py_int (str_int 0) = Inr 0" "\<bar>int_of_float (unix_time 0)\<bar> \<le> 30" by code_simp+
  moreover have "hash_api_secret demo_crypto ''secret'' = ''hsecret''" by code_simp
  ultimately have s: "signed_by demo_crypto (w_now w) (demo_key i u key) (demo_request key)"
    using assms(3,4) hex_digests_demo
    by (simp add: signed_by_def demo_request_def sign_request_def Let_def header_def hex_digests_def compute_signature_def full_path_def demo_key_def)
  obtain s1 where "check_and_consume mem_redis (k_api_key (demo_key i u key)) (k_rate_limit_per_min (demo_key i u key)) 60
      (unix_time (w_now w)) (w_redis w) = (Inr (Allowed, 1, 0), s1)"
    using mem.check_allows [of 60 "unix_time (w_now w)" empty_redis key 2] assms(5)
    by (auto simp: demo_key_def live_entries_def mem_view_def empty_redis_def mz_def)
  moreover have "\<not> k_is_revoked (demo_key i u key)" by (simp add: demo_key_def)
  ultimately show ?thesis
    unfolding authenticate_request_iff [OF assms(1)] using s assms(2) by blast
qed

theorem revoked_key_stays_out_witness:
  "let w = accounts [demo_key 1 2 ''k1'', demo_key 2 2 ''k2'']; w1 = snd (revoke_api_key 1 w) in accounts_ok w \<and>
   fst (revoke_api_key 1 w) = Inr True \<and>
   (\<exists>st w2. authenticate_request mem_redis demo_crypto (demo_request ''k2'') (fold (run_account demo_crypto) [ToggleUser 2 False] w1) = (Inr st, w2) \<and>
     rs_api_key_id st \<noteq> 1)"
proof -
  let ?w = "accounts [demo_key 1 2 ''k1'', demo_key 2 2 ''k2'']"
  let ?w1 = "snd (revoke_api_key 1 ?w)"
  let ?w2 = "fold (run_account demo_crypto) [ToggleUser 2 False] ?w1"
  have r: "fst (revoke_api_key 1 ?w) = Inr True"
    by (simp add: revoke_api_key_def accounts_def demo_key_def exec_defs)
  then have run: "revoke_api_key 1 ?w = (Inr True, ?w1)" by (cases "revoke_api_key 1 ?w") simp
  have ok: "accounts_ok ?w2" by (intro accounts_ok_fold accounts_ok_revoke accounts_ok_accounts)
  have "demo_key 2 2 ''k2'' \<in> set (w_api_keys ?w2)" "w_now ?w2 = 0" "w_redis ?w2 = empty_redis"
    by (simp_all add: revoke_api_key_def toggle_user_active_def accounts_def market_def demo_key_def demo_user_def exec_defs)
  then obtain w3 where a: "authenticate_request mem_redis demo_crypto (demo_request ''k2'') ?w2 = (Inr (state_of (demo_key 2 2 ''k2'') 1), w3)"
    using demo_request_ok [OF ok] by blast
  then show ?thesis
    using revoked_key_stays_out [OF accounts_ok_accounts(3) run a] r accounts_ok_accounts(3) by (auto simp: Let_def)
qed

subsection \<open>Seeding twice is seeding once\<close>

definition seeded_user :: "string \<Rightarrow> int \<Rightarrow> 's world \<Rightarrow> bool" where
  "seeded_user e i w \<longleftrightarrow> (\<exists>u\<in>set (w_users w). u_email u = e \<and> u_id u = i \<and> u_password_hash u \<noteq> [] \<and>
     startswith (u_password_hash u) ''$2b$'')"

lemma find_email: "accounts_ok w \<Longrightarrow> u \<in> set (w_users w) \<Longrightarrow> find (\<lambda>x. u_email x = u_email u) (w_users w) = Some u"
  by (rule find_key_Some [OF accounts_okD(2)]) simp_all

lemma find_user_id: "accounts_ok w \<Longrightarrow> u \<in> set (w_users w) \<Longrightarrow> find (\<lambda>x. u_id x = u_id u) (w_users w) = Some u"
  by (rule find_key_Some [OF accounts_okD(1)]) simp_all

lemma ensure_user_again:
  assumes "accounts_ok w" and "seeded_user e i w"
  shows "\<exists>u. ensure_user e h a w = (Inr u, w) \<and> u_id u = i"
proof -
  obtain u where u: "u \<in> set (w_users w)" "u_email u = e" "u_id u = i" "u_password_hash u \<noteq> []" "startswith (u_password_hash u) ''$2b$''"
    using assms(2) by (auto simp: seeded_user_def)
  then have "find (\<lambda>x. u_email x = e) (w_users w) = Some u" using find_email [OF assms(1) u(1)] by simp
  then show ?thesis using u get_by_email_run [OF assms(1), of e] by (simp add: ensure_user_def bindP_def retP_def)
qed

lemma ensure_user_first:
  assumes "accounts_ok w" and "h \<noteq> []" and "startswith h ''$2b$''"
  shows "\<exists>u w1. ensure_user e h a w = (Inr u, w1) \<and> seeded_user e (u_id u) w1 \<and> accounts_ok w1 \<and>
    (\<forall>e' i. seeded_user e' i w \<longrightarrow> seeded_user e' i w1) \<and> w_balances w1 = w_balances w"
proof -
  have ok: "accounts_ok (snd (ensure_user e h a w))"
  proof (rule preservesD [of accounts_ok, OF _ assms(1)])
    show "preserves accounts_ok (ensure_user e h a)" unfolding ensure_user_def by (intro accounts_intros) simp_all
  qed
  show ?thesis
  proof (cases "find (\<lambda>x. u_email x = e) (w_users w)")
    case None
    then have new: "e \<notin> u_email ` set (w_users w)" using find_key_None [of u_email e "w_users w"] by blast
    show ?thesis using ok new None get_by_email_run [OF assms(1), of e] assms(2,3)
      by (auto simp: ensure_user_def bindP_def usersP_def base_create_def seeded_user_def)
  next
    case (Some u)
    have u: "u \<in> set (w_users w)" "u_email u = e" using find_SomeD [OF Some] by auto
    show ?thesis
    proof (cases "u_password_hash u = [] \<or> \<not> startswith (u_password_hash u) ''$2b$''")
      case True
      let ?f = "\<lambda>x. if u_id x = u_id u then x\<lparr>u_password_hash := h\<rparr> else x"
      have keep: "\<exists>x\<in>set (map ?f (w_users w)). u_email x = e' \<and> u_id x = i \<and> u_password_hash x \<noteq> [] \<and> startswith (u_password_hash x) ''$2b$''"
        if "seeded_user e' i w" for e' i
      proof -
        obtain x where x: "x \<in> set (w_users w)" "u_email x = e'" "u_id x = i" "u_password_hash x \<noteq> []" "startswith (u_password_hash x) ''$2b$''"
          using \<open>seeded_user e' i w\<close> by (auto simp: seeded_user_def)
        then show ?thesis using assms(2,3) by (intro bexI [of _ "?f x"]) auto
      qed
      have own: "\<exists>x\<in>set (map ?f (w_users w)). u_email x = e \<and> u_id x = u_id u \<and> u_password_hash x \<noteq> [] \<and> startswith (u_password_hash x) ''$2b$''"
        using u assms(2,3) by (intro bexI [of _ "?f u"]) auto
      have run: "ensure_user e h a w = (Inr (u\<lparr>u_password_hash := h\<rparr>), w\<lparr>w_users := map ?f (w_users w), w_next_user := w_next_user w\<rparr>)"
        using True Some get_by_email_run [OF assms(1), of e] find_user_id [OF assms(1) u(1)]
        by (simp add: ensure_user_def prog_defs usersP_def base_update_def base_get_def)
      show ?thesis using run ok own keep unfolding seeded_user_def by simp
    next
      case False
      then have "seeded_user e (u_id u) w" using u by (auto simp: seeded_user_def)
      moreover have "ensure_user e h a w = (Inr u, w)"
        using False Some get_by_email_run [OF assms(1), of e] by (simp add: ensure_user_def prog_defs)
      ultimately show ?thesis using assms(1) by auto
    qed
  qed
qed

lemma ensure_balance_run: "ensure_balance u a x w = (Inr (), if w_balances w (u, a) = None
    then w\<lparr>w_balances := (w_balances w)((u, a) \<mapsto> \<lparr>b_user_id = u, b_asset = a, total_balance = x, locked_balance = 0,
      available_balance = x, b_version = 1\<rparr>)\<rparr> else w)"
  by (cases w) (simp add: ensure_balance_def balP_def get_by_user_asset_def prog_defs split: option.split)

lemma ensure_balance_first:
  assumes "accounts_ok w"
  shows "\<exists>w1. ensure_balance u a x w = (Inr (), w1) \<and> accounts_ok w1 \<and> w_balances w1 (u, a) \<noteq> None \<and>
    (\<forall>k. w_balances w k \<noteq> None \<longrightarrow> w_balances w1 k \<noteq> None) \<and> (\<forall>e i. seeded_user e i w1 = seeded_user e i w)"
  using assms by (auto simp: ensure_balance_run accounts_ok_frame seeded_user_def)

definition funded :: "(int \<times> string \<times> rat) list \<Rightarrow> 's world \<Rightarrow> bool" where
  "funded bs w \<longleftrightarrow> (\<forall>(u, a, x)\<in>set bs. w_balances w (u, a) \<noteq> None)"

lemma ensure_balances_first:
  "accounts_ok w \<Longrightarrow> \<exists>w1. forP bs (\<lambda>(u, a, x). ensure_balance u a x) w = (Inr (), w1) \<and> accounts_ok w1 \<and> funded bs w1 \<and>
    (\<forall>k. w_balances w k \<noteq> None \<longrightarrow> w_balances w1 k \<noteq> None) \<and> (\<forall>e i. seeded_user e i w1 = seeded_user e i w)"
proof (induction bs arbitrary: w)
  case Nil
  then show ?case by (simp add: retP_def funded_def)
next
  case (Cons b bs)
  obtain u a x where b: "b = (u, a, x)" by (cases b)
  from ensure_balance_first [OF Cons.prems] obtain w1 where w1: "ensure_balance u a x w = (Inr (), w1)" "accounts_ok w1" "w_balances w1 (u, a) \<noteq> None"
    "\<forall>k. w_balances w k \<noteq> None \<longrightarrow> w_balances w1 k \<noteq> None" "\<forall>e i. seeded_user e i w1 = seeded_user e i w" by blast
  from Cons.IH [OF w1(2)] obtain w2 where w2: "forP bs (\<lambda>(u, a, x). ensure_balance u a x) w1 = (Inr (), w2)" "accounts_ok w2" "funded bs w2"
    "\<forall>k. w_balances w1 k \<noteq> None \<longrightarrow> w_balances w2 k \<noteq> None" "\<forall>e i. seeded_user e i w2 = seeded_user e i w1" by blast
  have "forP (b # bs) (\<lambda>(u, a, x). ensure_balance u a x) w = (Inr (), w2)" by (simp add: b seqP_def bindP_def w1(1) w2(1))
  moreover have "funded (b # bs) w2" using w1(3) w2(3,4) by (auto simp: funded_def b)
  ultimately show ?case using w1(4,5) w2(2,4,5) by auto
qed

lemma ensure_balances_again: "funded bs w \<Longrightarrow> forP bs (\<lambda>(u, a, x). ensure_balance u a x) w = (Inr (), w)"
  by (induction bs) (auto simp: funded_def retP_def seqP_def bindP_def ensure_balance_run)

lemma ensure_pair_first:
  assumes "accounts_ok w"
  shows "\<exists>w1. ensure_pair p w = (Inr (), w1) \<and> (\<exists>q\<in>set (w_pairs w1). p_symbol q = p_symbol p) \<and>
    accounts_ok w1 \<and> w_balances w1 = w_balances w \<and> (\<forall>e i. seeded_user e i w1 = seeded_user e i w)"
proof -
  have ok: "accounts_ok (snd (ensure_pair p w))"
  proof (rule preservesD [of accounts_ok, OF _ assms])
    show "preserves accounts_ok (ensure_pair p)" unfolding ensure_pair_def by (intro accounts_intros)
  qed
  show ?thesis
  proof (cases "find (\<lambda>q. p_symbol q = p_symbol p) (w_pairs w)")
    case None
    then have "p_symbol p \<notin> p_symbol ` set (w_pairs w)" using find_key_None [of p_symbol "p_symbol p" "w_pairs w"] by blast
    then show ?thesis using ok None
      by (auto simp: ensure_pair_def get_by_symbol_def prog_defs pairsP_def base_create_def store_pair_def seeded_user_def)
  next
    case (Some q)
    then show ?thesis using assms find_SomeD [OF Some] by (auto simp: ensure_pair_def get_by_symbol_def prog_defs)
  qed
qed

lemma ensure_pair_again:
  assumes "q \<in> set (w_pairs w)" and "p_symbol q = p_symbol p"
  shows "ensure_pair p w = (Inr (), w)"
proof -
  have "find (\<lambda>q. p_symbol q = p_symbol p) (w_pairs w) \<noteq> None" using assms by (auto simp: find_None_iff_all)
  then show ?thesis by (auto simp: ensure_pair_def get_by_symbol_def prog_defs)
qed

text \<open>
  The seed is idempotent: on a well-formed database it succeeds, and running it again on the result changes
  nothing, sequences included.
\<close>

theorem seed_idempotent:
  assumes "accounts_ok w"
  shows "\<exists>w1. seed_database w = (Inr (), w1) \<and> seed_database w1 = (Inr (), w1)"
proof -
  have h: "DEFAULT_PASSWORD_HASH \<noteq> []" "startswith DEFAULT_PASSWORD_HASH ''$2b$''" "TEST_PASSWORD_HASH \<noteq> []"
    "startswith TEST_PASSWORD_HASH ''$2b$''" by (simp_all add: DEFAULT_PASSWORD_HASH_def TEST_PASSWORD_HASH_def startswith_def)
  from ensure_user_first [OF assms h(1,2)] obtain u1 a where a: "ensure_user ''admin'' DEFAULT_PASSWORD_HASH True w = (Inr u1, a)"
    "seeded_user ''admin'' (u_id u1) a" "accounts_ok a" by blast
  from ensure_user_first [OF a(3) h(3,4)] obtain u2 b where b: "ensure_user ''test'' TEST_PASSWORD_HASH False a = (Inr u2, b)"
    "seeded_user ''test'' (u_id u2) b" "accounts_ok b" "seeded_user ''admin'' (u_id u1) b" using a(2) by blast
  from ensure_user_first [OF b(3) h(3,4)] obtain u3 c where c: "ensure_user ''test2'' TEST_PASSWORD_HASH False b = (Inr u3, c)"
    "seeded_user ''test2'' (u_id u3) c" "accounts_ok c" "seeded_user ''admin'' (u_id u1) c" "seeded_user ''test'' (u_id u2) c" using b(2,4) by blast
  let ?bs = "seed_balances (u_id u2) (u_id u3)"
  from ensure_balances_first [OF c(3)] obtain d where d: "forP ?bs (\<lambda>(u, a, x). ensure_balance u a x) c = (Inr (), d)" "accounts_ok d"
    "funded ?bs d" "\<And>e i. seeded_user e i d = seeded_user e i c" by blast
  from ensure_pair_first [OF d(2), of btc_usd] obtain k q where k: "ensure_pair btc_usd d = (Inr (), k)" "accounts_ok k" "w_balances k = w_balances d"
    "\<forall>e' i. seeded_user e' i k = seeded_user e' i d" "q \<in> set (w_pairs k)" "p_symbol q = p_symbol btc_usd" by blast
  have first: "seed_database w = (Inr (), k)"
    by (simp add: seed_database_def transactionP_def seqP_def bindP_def a(1) b(1) c(1) d(1) k(1))
  obtain v1 v2 v3 where again: "ensure_user ''admin'' DEFAULT_PASSWORD_HASH True k = (Inr v1, k)"
    "ensure_user ''test'' TEST_PASSWORD_HASH False k = (Inr v2, k)" "u_id v2 = u_id u2"
    "ensure_user ''test2'' TEST_PASSWORD_HASH False k = (Inr v3, k)" "u_id v3 = u_id u3"
    using ensure_user_again [OF k(2)] c(2,4,5) k(4) d(4) by metis
  have "funded ?bs k" using d(3) by (simp add: funded_def k(3))
  from ensure_balances_again [OF this] have "seed_database k = (Inr (), k)"
    using again ensure_pair_again [OF k(5,6)] by (simp add: seed_database_def transactionP_def seqP_def bindP_def)
  with first show ?thesis by blast
qed

theorem seed_idempotent_witness:
  "accounts_ok (accounts []) \<and> (\<exists>w1. seed_database (accounts []) = (Inr (), w1) \<and> seed_database w1 = (Inr (), w1))"
  using seed_idempotent [OF accounts_ok_accounts(1)] accounts_ok_accounts(1) by blast

subsection \<open>Adjusting balances and closing markets\<close>

lemma admin_adjust_run:
  assumes "ledger_ok t" and "t (u, a) = Some b" and "dec18 d" and "0 \<le> available_balance b + d"
  shows "admin_adjust u a d t = (Inr (b\<lparr>total_balance := total_balance b + d, available_balance := available_balance b + d,
      b_version := b_version b + 1\<rparr>), t((u, a) \<mapsto> b\<lparr>total_balance := total_balance b + d,
      available_balance := available_balance b + d, b_version := b_version b + 1\<rparr>))"
proof -
  let ?b = "b\<lparr>total_balance := total_balance b + d, available_balance := available_balance b + d, b_version := b_version b + 1\<rparr>"
  have b: "row_ok (u, a) b" using ledger_okD [OF assms(1,2)] .
  then have r: "row_ok (u, a) ?b" using assms(3,4) by (auto simp: row_ok_def balance_ok_def)
  then have "store_balance ?b t = t((u, a) \<mapsto> ?b)" using row_ok_dec18_total [OF r] by (auto simp: store_balance_def row_ok_def)
  then show ?thesis
    using b assms by (auto simp: admin_adjust_def get_for_update_def prog_defs Let_def check_invariant_def row_ok_def balance_ok_def)
qed

text \<open>
  A debit undoes a credit: after crediting an amount that the columns can hold and debiting it again, the totals,
  the locks and the available funds of the account are what they were, and nothing else has changed but the row's
  version.
\<close>

theorem credit_then_debit:
  assumes "ledger_ok (w_balances w)" and "w_balances w (u, a) = Some b" and "0 < x" and "dec18 x"
  shows "\<exists>b1 w1 b2. credit_user u a x w = (Inr b1, w1) \<and> available_balance b1 = available_balance b + x \<and>
    debit_user u a x w1 = (Inr b2, w\<lparr>w_balances := (w_balances w)((u, a) \<mapsto> b\<lparr>b_version := b_version b + 2\<rparr>)\<rparr>)"
proof -
  let ?b = "b\<lparr>total_balance := total_balance b + x, available_balance := available_balance b + x, b_version := b_version b + 1\<rparr>"
  let ?t = "(w_balances w)((u, a) \<mapsto> ?b)"
  have av: "0 \<le> available_balance b" using ledger_okD [OF assms(1,2)] by (auto simp: row_ok_def balance_ok_def)
  have one: "admin_adjust u a x (w_balances w) = (Inr ?b, ?t)" using admin_adjust_run [OF assms(1,2,4)] av assms(3) by simp
  have ok: "ledger_ok ?t" using admin_adjust_from_row [OF assms(1,2,4)] one by simp
  have "dec18 (- x)" using assms(4) dec18_minus by blast
  from admin_adjust_run [OF ok _ this, of u a ?b] av
  have "admin_adjust u a (- x) ?t = (Inr (b\<lparr>b_version := b_version b + 2\<rparr>), (w_balances w)((u, a) \<mapsto> b\<lparr>b_version := b_version b + 2\<rparr>))"
    by (cases b) (simp add: add.commute)
  then show ?thesis using one assms(2,3)
    by (auto simp: credit_user_def debit_user_def adjust_balance_def balP_def prog_defs)
qed

text \<open>
  A deactivated market takes no orders: once an admin has switched a pair off, placing an order on its symbol is
  refused before anything is locked, stored or queued.
\<close>

theorem closed_market_refuses_orders:
  assumes "accounts_ok w" and "p \<in> set (w_pairs w)" and "dto_symbol dto = p_symbol p"
  shows "\<exists>q w1. toggle_pair_active (p_id p) False w = (Inr (Some q), w1) \<and>
    place_order R env u dto w1 = (Inl (OrderValidationError ''Trading pair is not active''), w1)"
proof -
  let ?f = "\<lambda>x. if p_id x = p_id p then x\<lparr>p_is_active := False\<rparr> else x"
  have d: "distinct (map p_symbol (w_pairs w))" "distinct (map p_id (w_pairs w))" using accounts_okD [OF assms(1)] by auto
  have f: "find (\<lambda>x. p_id x = p_id p) (w_pairs w) = Some p" using find_key_Some [OF d(2) assms(2)] by simp
  have run: "toggle_pair_active (p_id p) False w = (Inr (Some (p\<lparr>p_is_active := False\<rparr>)), w\<lparr>w_pairs := map ?f (w_pairs w), w_next_pair := w_next_pair w\<rparr>)"
    by (simp add: toggle_pair_active_def pairsP_def base_update_def base_get_def prog_defs f)
  have "distinct (map p_symbol (map ?f (w_pairs w)))" proof -
    have "map p_symbol (map ?f (w_pairs w)) = map p_symbol (w_pairs w)" by simp
    then show ?thesis using d(1) by argo
  qed
  moreover have "p\<lparr>p_is_active := False\<rparr> \<in> set (map ?f (w_pairs w))" using assms(2) by (auto simp: image_iff intro!: bexI [of _ p])
  ultimately have "find (\<lambda>q. p_symbol q = p_symbol p) (map ?f (w_pairs w)) = Some (p\<lparr>p_is_active := False\<rparr>)"
    by (rule find_key_Some) simp
  then show ?thesis
    by (simp add: run place_order_def validate_and_get_pair_def get_by_symbol_def assms(3) bindP_def getP_def raiseP_def)
qed

theorem credit_then_debit_witness:
  "let w = (accounts [])\<lparr>w_balances := [(2, ''USD'') \<mapsto> funds 2 ''USD'' 1 5]\<rparr> in \<exists>b1 w1 b2.
    credit_user 2 ''USD'' 3 w = (Inr b1, w1) \<and> available_balance b1 = 8 \<and>
    debit_user 2 ''USD'' 3 w1 = (Inr b2, w\<lparr>w_balances := [(2, ''USD'') \<mapsto> (funds 2 ''USD'' 1 5)\<lparr>b_version := 3\<rparr>]\<rparr>)"
proof -
  let ?w = "(accounts [])\<lparr>w_balances := [(2, ''USD'') \<mapsto> funds 2 ''USD'' 1 5]\<rparr>"
  have l: "ledger_ok (w_balances ?w)" by (auto simp: ledger_ok_def row_ok_def balance_ok_def funds_def)
  have x: "dec18 (3 :: rat)" "(0::rat) < 3" by simp_all
  show ?thesis using credit_then_debit [OF l _ x(2,1), of 2 "''USD''" "funds 2 ''USD'' 1 5"] by (auto simp: funds_def Let_def)
qed

theorem closed_market_refuses_orders_witness:
  "let w = accounts []; dto = \<lparr>dto_symbol = ''BTC/USDT'', dto_side = ''buy'', dto_type = ''limit'', dto_price = Some 100,
     dto_stop_price = None, dto_trailing_delta = None, dto_quantity = 1, dto_visible_quantity = None, dto_hidden_quantity = None,
     dto_sl = None, dto_tp = None, dto_bulk_id = None\<rparr> in
   accounts_ok w \<and> (\<exists>q w1. toggle_pair_active 1 False w = (Inr (Some q), w1) \<and>
    place_order mem_redis quiet 2 dto w1 = (Inl (OrderValidationError ''Trading pair is not active''), w1))"
  using closed_market_refuses_orders [OF accounts_ok_accounts(1), of btc_usdt] accounts_ok_accounts(1)
  by (simp add: Let_def accounts_def market_def btc_usdt_def)

end
