(* ===== verification/Http_Orders.thy ===== *)
theory Http_Orders
  imports Admin
begin

section \<open>The order endpoints\<close>

text \<open>
  \<open>api/v1/orders.py\<close> with the request schemas of \<open>schemas/order.py\<close>. A request body is the record of the fields a client
  sent, before validation; enum fields are the texts sent. An endpoint authenticates the request, checks the permission
  of the key, validates the body, runs the service in a transaction and turns the service's exceptions into the errors
  of \<open>core/exceptions.py\<close>. Times in the answers are left out.
\<close>

record sltp_schema =
  sc_type :: string
  sc_stop_price :: "rat option"
  sc_price :: "rat option"
  sc_quantity :: "rat option"

record order_create_request =
  rc_symbol :: string
  rc_side :: string
  rc_type :: string
  rc_price :: "rat option"
  rc_stop_price :: "rat option"
  rc_trailing_delta :: "rat option"
  rc_quantity :: rat
  rc_time_in_force :: string
  rc_client_order_id :: "string option"
  rc_post_only :: bool
  rc_visible_quantity :: "rat option"
  rc_hidden_quantity :: "rat option"
  rc_sl :: "sltp_schema option"
  rc_tp :: "sltp_schema option"

definition must_be_positive :: "rat option \<Rightarrow> bool" where
  "must_be_positive v \<longleftrightarrow> (case v of None \<Rightarrow> True | Some x \<Rightarrow> 0 < x)"

definition max_length :: "nat \<Rightarrow> string option \<Rightarrow> bool" where
  "max_length n v \<longleftrightarrow> (case v of None \<Rightarrow> True | Some s \<Rightarrow> length s \<le> n)"

definition SLTPConfigSchema :: "sltp_schema \<Rightarrow> bool" where
  "SLTPConfigSchema c \<longleftrightarrow> sc_type c \<in> {''stop_market'', ''stop_limit'', ''limit''} \<and> must_be_positive (sc_stop_price c) \<and>
     must_be_positive (sc_price c) \<and> must_be_positive (sc_quantity c)"

definition TimeInForce :: "string list" where
  "TimeInForce = [''gtc'', ''ioc'', ''fok'', ''post_only'']"

text \<open>Text fields are stripped; what is returned is the validated model.\<close>

definition OrderCreateRequest :: "order_create_request \<Rightarrow> (exn, order_create_request) result" where
  "OrderCreateRequest raw =
     (let r = raw\<lparr>rc_symbol := strip (rc_symbol raw), rc_client_order_id := map_option strip (rc_client_order_id raw)\<rparr> in
      if 3 \<le> length (rc_symbol r) \<and> length (rc_symbol r) \<le> 20 \<and>
        rc_side r \<in> set (map side_value all_sides) \<and> rc_type r \<in> set (map type_value all_types) \<and>
        must_be_positive (rc_price r) \<and> must_be_positive (rc_stop_price r) \<and> must_be_positive (rc_trailing_delta r) \<and>
        0 < rc_quantity r \<and> rc_time_in_force r \<in> set TimeInForce \<and> max_length 64 (rc_client_order_id r) \<and>
        (case rc_sl r of None \<Rightarrow> True | Some c \<Rightarrow> SLTPConfigSchema c) \<and> (case rc_tp r of None \<Rightarrow> True | Some c \<Rightarrow> SLTPConfigSchema c)
      then Inr r else Inl RequestValidationError)"

fun validate_each :: "order_create_request list \<Rightarrow> (exn, order_create_request list) result" where
  "validate_each [] = Inr []"
| "validate_each (r # rs) = bind_result (OrderCreateRequest r) (\<lambda>v. bind_result (validate_each rs) (\<lambda>vs. Inr (v # vs)))"

definition OrderBulkCreateRequest ::
  "string option \<Rightarrow> order_create_request list \<Rightarrow> (exn, string option \<times> order_create_request list) result" where
  "OrderBulkCreateRequest bulk_id orders =
     (let b = map_option strip bulk_id in
      if max_length 36 b \<and> 1 \<le> length orders \<and> length orders \<le> 50
      then bind_result (validate_each orders) (\<lambda>vs. Inr (b, vs)) else Inl RequestValidationError)"

definition OrderModifyRequest :: "rat \<Rightarrow> rat \<Rightarrow> string \<Rightarrow> (exn, rat \<times> rat) result" where
  "OrderModifyRequest price quantity time_in_force =
     (if 0 < price \<and> 0 < quantity \<and> time_in_force \<in> set TimeInForce then Inr (price, quantity) else Inl RequestValidationError)"

definition sltp_to_config :: "sltp_schema \<Rightarrow> sltp_config" where
  "sltp_to_config c = \<lparr>cfg_type = sc_type c, cfg_stop_price = sc_stop_price c, cfg_price = sc_price c, cfg_quantity = sc_quantity c\<rparr>"

definition request_to_dto :: "order_create_request \<Rightarrow> string option \<Rightarrow> order_create_dto" where
  "request_to_dto req bulk_id = \<lparr>dto_symbol = rc_symbol req, dto_side = rc_side req, dto_type = rc_type req, dto_price = rc_price req,
     dto_stop_price = rc_stop_price req, dto_trailing_delta = rc_trailing_delta req, dto_quantity = rc_quantity req,
     dto_visible_quantity = rc_visible_quantity req, dto_hidden_quantity = rc_hidden_quantity req,
     dto_sl = map_option sltp_to_config (rc_sl req), dto_tp = map_option sltp_to_config (rc_tp req), dto_bulk_id = bulk_id\<rparr>"

subsection \<open>Answers\<close>

record order_response =
  or_order :: order
  or_remaining_quantity :: rat
  or_avg_fill_price :: "rat option"
  or_client_order_id :: "string option"

definition order_to_response :: "order \<Rightarrow> order_response" where
  "order_to_response order = \<lparr>or_order = order, or_remaining_quantity = remaining_quantity order,
     or_avg_fill_price = avg_fill_price order, or_client_order_id = None\<rparr>"

record bulk_response =
  br_bulk_id :: string
  br_result :: string
  br_total :: nat
  br_succeeded :: nat
  br_orders :: "order_response list"
  br_errors :: "string list"

text \<open>The exceptions an endpoint catches, and what it raises instead.\<close>

abbreviation InsufficientBalanceHTTPError :: exn where "InsufficientBalanceHTTPError \<equiv> AppError 402 ''insufficient_balance''"
abbreviation OrderNotFoundHTTPError :: exn where "OrderNotFoundHTTPError \<equiv> AppError 404 ''order_not_found''"
abbreviation OrderNotCancelableHTTPError :: exn where "OrderNotCancelableHTTPError \<equiv> AppError 409 ''order_not_cancelable''"
abbreviation OrderValidationHTTPError :: exn where "OrderValidationHTTPError \<equiv> AppError 400 ''order_validation_error''"
abbreviation PostOnlyCrossHTTPError :: exn where "PostOnlyCrossHTTPError \<equiv> AppError 409 ''post_only_cross''"

fun place_errors :: "exn \<Rightarrow> exn" where
  "place_errors (InsufficientBalanceError u a needed available) = InsufficientBalanceHTTPError"
| "place_errors (OrderValidationError m) = OrderValidationHTTPError"
| "place_errors PostOnlyCrossError = PostOnlyCrossHTTPError"
| "place_errors e = e"

fun modify_errors :: "exn \<Rightarrow> exn" where
  "modify_errors (OrderNotFoundError i) = OrderNotFoundHTTPError"
| "modify_errors (OrderNotCancelableError i) = OrderNotCancelableHTTPError"
| "modify_errors (OrderValidationError m) = OrderValidationHTTPError"
| "modify_errors (InsufficientBalanceError u a needed available) = InsufficientBalanceHTTPError"
| "modify_errors e = e"

fun cancel_errors :: "exn \<Rightarrow> exn" where
  "cancel_errors (OrderNotFoundError i) = OrderNotFoundHTTPError"
| "cancel_errors (OrderNotCancelableError i) = OrderNotCancelableHTTPError"
| "cancel_errors e = e"

definition mapping_errors :: "(exn \<Rightarrow> exn) \<Rightarrow> ('s, 'a) world_prog \<Rightarrow> ('s, 'a) world_prog" where
  "mapping_errors f m = tryP m (\<lambda>e. raiseP (f e))"

subsection \<open>The endpoints\<close>

definition endpoint :: "'s redis_ops \<Rightarrow> crypto \<Rightarrow> string \<Rightarrow> request \<Rightarrow> (int \<Rightarrow> ('s, 'a) world_prog) \<Rightarrow> ('s, 'a) world_prog" where
  "endpoint R C perm rq h = bindP (authenticate_request R C rq) (\<lambda>st. seqP (require_permission perm st) (h (rs_user_id st)))"

definition post_order :: "'s redis_ops \<Rightarrow> interference \<Rightarrow> int \<Rightarrow> order_create_request \<Rightarrow> ('s, order_response) world_prog" where
  "post_order R env user_id raw =
     bindP (liftP (OrderCreateRequest raw)) (\<lambda>body.
     bindP (mapping_errors place_errors (transactionP (place_order R env user_id (request_to_dto body None)))) (\<lambda>order.
     retP ((order_to_response order)\<lparr>or_client_order_id := rc_client_order_id body\<rparr>)))"

definition rejected_bulk :: "string option \<Rightarrow> nat \<Rightarrow> string \<Rightarrow> bulk_response" where
  "rejected_bulk bulk_id n error_code = \<lparr>br_bulk_id = (case bulk_id of None \<Rightarrow> [] | Some b \<Rightarrow> b), br_result = ''rejected'', br_total = n,
     br_succeeded = 0, br_orders = [], br_errors = [error_code]\<rparr>"

definition post_orders_bulk ::
  "'s redis_ops \<Rightarrow> interference \<Rightarrow> string \<Rightarrow> int \<Rightarrow> string option \<Rightarrow> order_create_request list \<Rightarrow> ('s, bulk_response) world_prog" where
  "post_orders_bulk R env uuid4 user_id raw_bulk_id raw_orders =
     bindP (liftP (OrderBulkCreateRequest raw_bulk_id raw_orders)) (\<lambda>(bulk_id, reqs).
     tryP (bindP (transactionP (place_bulk_orders R env uuid4 user_id (map (\<lambda>req. request_to_dto req bulk_id) reqs) bulk_id)) (\<lambda>orders.
       retP \<lparr>br_bulk_id = (case orders of [] \<Rightarrow> [] | o1 # _ \<Rightarrow> (case o_bulk_id o1 of None \<Rightarrow> [] | Some b \<Rightarrow> b)), br_result = ''success'',
         br_total = length reqs, br_succeeded = length orders, br_orders = map order_to_response orders, br_errors = []\<rparr>))
      (\<lambda>e. case e of
         InsufficientBalanceError u a needed available \<Rightarrow> retP (rejected_bulk bulk_id (length reqs) ''insufficient_balance'')
       | OrderValidationError m \<Rightarrow> retP (rejected_bulk bulk_id (length reqs) ''validation_error'')
       | _ \<Rightarrow> raiseP e))"

definition put_order ::
  "'s redis_ops \<Rightarrow> interference \<Rightarrow> int \<Rightarrow> int \<Rightarrow> rat \<Rightarrow> rat \<Rightarrow> string \<Rightarrow> ('s, order_response) world_prog" where
  "put_order R env user_id order_id price quantity tif =
     bindP (liftP (OrderModifyRequest price quantity tif)) (\<lambda>(p, q).
     bindP (mapping_errors modify_errors (transactionP (modify_order R env user_id order_id p q))) (\<lambda>order.
     retP (order_to_response order)))"

definition delete_order :: "'s redis_ops \<Rightarrow> int \<Rightarrow> int \<Rightarrow> ('s, int \<times> order_status) world_prog" where
  "delete_order R user_id order_id =
     bindP (mapping_errors cancel_errors (transactionP (cancel_order R user_id order_id))) (\<lambda>order.
     retP (o_id order, o_status order))"

definition delete_orders_bulk ::
  "'s redis_ops \<Rightarrow> int \<Rightarrow> int list option \<Rightarrow> string option \<Rightarrow> bool \<Rightarrow> ('s, nat \<times> int list) world_prog" where
  "delete_orders_bulk R user_id order_ids symbol cancel_all =
     bindP (transactionP (cancel_bulk_orders R user_id order_ids (map_option strip symbol) cancel_all)) (\<lambda>canceled_ids.
     retP (length canceled_ids, canceled_ids))"

definition all_statuses :: "order_status list" where
  "all_statuses = [PENDING, NEW, PARTIALLY_FILLED, FILLED, CANCELED, REJECTED, EXPIRED]"

definition OrderStatus :: "string \<Rightarrow> (exn, order_status) result" where
  "OrderStatus s = (case find (\<lambda>st. status_value st = s) all_statuses of
     None \<Rightarrow> Inl (ValueError ''not a valid OrderStatus'') | Some st \<Rightarrow> Inr st)"

fun parse_statuses :: "string list \<Rightarrow> (exn, order_status list) result" where
  "parse_statuses [] = Inr []"
| "parse_statuses (s # ss) = bind_result (OrderStatus (strip s)) (\<lambda>st. bind_result (parse_statuses ss) (\<lambda>sts. Inr (st # sts)))"

definition get_orders ::
  "int \<Rightarrow> string option \<Rightarrow> string option \<Rightarrow> int \<Rightarrow> int \<Rightarrow> ('s, order_response list) world_prog" where
  "get_orders user_id symbol status_filter offset limit = validP (0 \<le> offset \<and> 1 \<le> limit \<and> limit \<le> 500)
     (bindP (if header status_filter = [] then retP None
        else case parse_statuses (split_on CHR '','' (header status_filter)) of
          Inl e \<Rightarrow> raiseP OrderValidationHTTPError | Inr sts \<Rightarrow> retP (Some sts)) (\<lambda>statuses.
      bindP (list_orders user_id symbol statuses (nat offset) (nat limit)) (\<lambda>orders.
      retP (map order_to_response orders))))"

subsection \<open>Routes\<close>

text \<open>
  The routes of the order router with method \<open>DELETE\<close>, in the order of their declaration: the first whose template
  matches the segment after \<open>/orders/\<close> is taken, and a parameter matches every non-empty segment without a slash. The
  endpoint of the first declares its parameter as an integer; how the framework reads one is the argument \<open>path_int\<close>.
\<close>

datatype segment = Parameter | Literal string

datatype delete_target = CancelOrder | CancelBulkOrders

definition delete_routes :: "(segment \<times> delete_target) list" where
  "delete_routes = [(Parameter, CancelOrder), (Literal ''bulk'', CancelBulkOrders)]"

fun segment_matches :: "segment \<Rightarrow> string \<Rightarrow> bool" where
  "segment_matches Parameter s \<longleftrightarrow> s \<noteq> [] \<and> CHR ''/'' \<notin> set s"
| "segment_matches (Literal l) s \<longleftrightarrow> s = l"

definition route_delete :: "string \<Rightarrow> delete_target option" where
  "route_delete s = map_option snd (find (\<lambda>(t, h). segment_matches t s) delete_routes)"

definition delete_orders ::
  "(string \<Rightarrow> int option) \<Rightarrow> 's redis_ops \<Rightarrow> crypto \<Rightarrow> request \<Rightarrow> string \<Rightarrow> int list option \<Rightarrow> string option \<Rightarrow> bool \<Rightarrow>
    ('s, int list) world_prog" where
  "delete_orders path_int R C rq s order_ids symbol cancel_all = (case route_delete s of
     None \<Rightarrow> raiseP (HTTPException 404)
   | Some CancelOrder \<Rightarrow> endpoint R C ''trade'' rq (\<lambda>user_id. case path_int s of
       None \<Rightarrow> raiseP RequestValidationError
     | Some order_id \<Rightarrow> bindP (delete_order R user_id order_id) (\<lambda>(i, status). retP [i]))
   | Some CancelBulkOrders \<Rightarrow> endpoint R C ''trade'' rq (\<lambda>user_id.
       bindP (delete_orders_bulk R user_id order_ids symbol cancel_all) (\<lambda>(n, ids). retP ids)))"

subsection \<open>What validation guarantees\<close>

lemma typed_config: "SLTPConfigSchema c \<Longrightarrow> is_ok (OrderType (sc_type c))"
  by (auto simp: SLTPConfigSchema_def OrderType_def all_types_def)

lemma validated_dto:
  assumes "OrderCreateRequest raw = Inr r"
  shows "typed_dto (request_to_dto r b)" and "0 < rc_quantity r"
    and "must_be_positive (rc_price r)" and "must_be_positive (rc_stop_price r)" and "must_be_positive (rc_trailing_delta r)"
    and "rc_side r = rc_side raw" and "rc_type r = rc_type raw"
proof -
  have r: "rc_side r \<in> set (map side_value all_sides)" "rc_type r \<in> set (map type_value all_types)"
    "case rc_sl r of None \<Rightarrow> True | Some c \<Rightarrow> SLTPConfigSchema c" "case rc_tp r of None \<Rightarrow> True | Some c \<Rightarrow> SLTPConfigSchema c"
    using assms by (auto simp: OrderCreateRequest_def Let_def split: if_splits)
  show "0 < rc_quantity r" "must_be_positive (rc_price r)" "must_be_positive (rc_stop_price r)" "must_be_positive (rc_trailing_delta r)"
    "rc_side r = rc_side raw" "rc_type r = rc_type raw"
    using assms by (auto simp: OrderCreateRequest_def Let_def split: if_splits)
  show "typed_dto (request_to_dto r b)"
    using r typed_config by (auto simp: typed_dto_def request_to_dto_def sltp_to_config_def split: option.splits)
qed


subsection \<open>What the endpoints answer\<close>

lemma transaction_undo:
  "w\<lparr>w_balances := w_balances w, w_orders := w_orders w, w_pairs := w_pairs w, w_trade_rows := w_trade_rows w,
     w_users := w_users w, w_api_keys := w_api_keys w\<rparr> = w"
  "w\<lparr>w_balances := t, w_orders := w_orders w, w_pairs := w_pairs w, w_trade_rows := w_trade_rows w,
     w_users := w_users w, w_api_keys := w_api_keys w\<rparr> = w\<lparr>w_balances := t\<rparr>"
  by (cases w; simp)+

lemma world_balances_same: "w\<lparr>w_balances := w_balances w\<rparr> = w"
  by (cases w) simp

text \<open>A service that fails before it has written anything but balances leaves, in its transaction, no trace.\<close>

lemma place_order_outcomes:
  assumes R: "redis_server R view" and typed: "typed_dto dto" and pos: "0 < dto_quantity dto"
    and kind: "\<not> (dto_type dto = ''market'' \<and> dto_side dto = ''buy'')"
    and run: "transactionP (place_order R quiet u dto) w = (r, w1)"
  shows "case r of Inl e \<Rightarrow> w1 = w \<and> ((\<exists>m. e = OrderValidationError m) \<or> (\<exists>u a n v. e = InsufficientBalanceError u a n v))
    | Inr order \<Rightarrow> placed_as u dto order"
proof -
  obtain v w0 where v: "validate_and_get_pair (dto_symbol dto) w = (v, w0)" by fastforce
  then have v0: "w0 = w" using readsD [OF reads_validate] by blast
  have verr: "\<exists>m. e = OrderValidationError m" if "v = Inl e" for e
    using v that by (auto simp: validate_and_get_pair_def get_by_symbol_def prog_defs split: option.splits if_splits)
  show ?thesis
  proof (cases v)
    case (Inl e)
    then show ?thesis using run v v0 verr by (auto simp: transactionP_def place_order_def bindP_def transaction_undo)
  next
    case (Inr pair)
    show ?thesis
    proof (cases "validate_params dto pair")
      case (Inl e)
      then have "\<exists>m. e = OrderValidationError m" by (auto simp: validate_params_def split: if_splits)
      then show ?thesis using run v v0 Inr Inl by (auto simp: transactionP_def place_order_def bindP_def seqP_def liftP_def transaction_undo)
    next
      case p: (Inr x)
      have price: "dto_price dto \<noteq> None" if "dto_type dto \<in> set resting_names"
        using p that by (auto simp: validate_params_def split: if_splits)
      then have "\<exists>asset amount. compute_lock R dto pair w = (Inr (asset, amount), w)"
        using kind by (cases "is_stop_dto dto") (auto simp: compute_lock_def compute_lock_asset_and_amount_def liftP_def retP_def split: option.split)
      then obtain asset amount where c: "compute_lock R dto pair w = (Inr (asset, amount), w)" by blast
      let ?lock = "if \<not> is_stop_dto dto \<and> 0 < amount then bindP (balP (lock_optimistic quiet u asset amount)) (\<lambda>_. retP ()) else retP ()"
      obtain l w2 where l: "?lock w = (l, w2)" by fastforce
      have place: "place_order R quiet u dto w = (case l of Inl e \<Rightarrow> (Inl e, w2)
          | Inr _ \<Rightarrow> bindP (insert_order u dto) (\<lambda>order. seqP (register_order R u dto [] order) (retP order)) w2)"
        using v v0 Inr p c l by (simp add: place_order_def bindP_def seqP_def liftP_def split: sum.split)
      show ?thesis
      proof (cases l)
        case (Inl e)
        then have err: "\<exists>u a n v. e = InsufficientBalanceError u a n v" "w2 = w\<lparr>w_balances := w_balances w2\<rparr>"
          using l by (auto simp: world_balances_same bindP_def balP_def retP_def lock_optimistic_quiet split: if_splits option.splits prod.splits sum.splits)
        have "w2\<lparr>w_balances := w_balances w, w_orders := w_orders w, w_pairs := w_pairs w, w_trade_rows := w_trade_rows w,
            w_users := w_users w, w_api_keys := w_api_keys w\<rparr> = w"
          by (subst err(2)) (simp add: transaction_undo)
        then show ?thesis using run place Inl err(1) by (auto simp: transactionP_def)
      next
        case (Inr y)
        obtain order w3 where i: "insert_order u dto w2 = (Inr order, w3)" using insert_order_runs [OF typed] by blast
        obtain s1 where "register_order R u dto [] order w3 = (Inr (), w3\<lparr>w_redis := s1\<rparr>)"
          using redis_server.register_order_runs [OF R] by blast
        then have "r = Inr order" using run place Inr i by (auto simp: transactionP_def bindP_def seqP_def retP_def)
        moreover have "placed_as u dto order" by (rule inserted_order [OF insert_order_result [OF i]]) (simp add: placed_as_def)
        ultimately show ?thesis by simp
      qed
    qed
  qed
qed


lemma validate_each_Inr: "validate_each raws = Inr reqs \<Longrightarrow> list_all2 (\<lambda>raw r. OrderCreateRequest raw = Inr r) raws reqs"
  by (induction raws arbitrary: reqs) (auto simp: bind_result_Inr)


text \<open>
  The bulk cancel endpoint cannot be reached: no path selects it, because the route with a parameter is declared
  first; an authenticated \<open>DELETE /orders/bulk\<close> is answered 422 and cancels nothing.
\<close>

theorem bulk_cancel_unreachable:
  assumes "path_int ''bulk'' = None"
    and "authenticate_request R C rq w = (Inr st, w1)" and "''trade'' \<in> set (rs_permissions st)"
  shows "route_delete s \<noteq> Some CancelBulkOrders \<and>
    delete_orders path_int R C rq ''bulk'' order_ids symbol cancel_all w = (Inl RequestValidationError, w1)"
proof
  show "route_delete s \<noteq> Some CancelBulkOrders" by (auto simp: route_delete_def delete_routes_def)
  have "route_delete ''bulk'' = Some CancelOrder" by (simp add: route_delete_def delete_routes_def)
  then show "delete_orders path_int R C rq ''bulk'' order_ids symbol cancel_all w = (Inl RequestValidationError, w1)"
    using assms by (simp add: delete_orders_def endpoint_def require_permission_def bindP_def seqP_def retP_def raiseP_def)
qed

text \<open>
  The fields \<open>post_only\<close> and \<open>time_in_force\<close> of a request have no effect: an order with \<open>post_only = true\<close> or
  another valid \<open>time_in_force\<close> is placed exactly like one without.
\<close>

theorem order_flags_ignored:
  assumes "rc_time_in_force raw \<in> set TimeInForce" and "tif \<in> set TimeInForce"
  shows "post_order R env u (raw\<lparr>rc_post_only := flag, rc_time_in_force := tif\<rparr>) w = post_order R env u raw w"
  using assms
  by (auto simp: post_order_def OrderCreateRequest_def Let_def bindP_def liftP_def request_to_dto_def intro!: arg_cong [where f = "\<lambda>m. m w"])

lemma mapping_errors_Inr: "mapping_errors f m w = (Inr x, w1) \<longleftrightarrow> m w = (Inr x, w1)"
  by (auto simp: mapping_errors_def tryP_def raiseP_def split: prod.splits sum.splits)


subsection \<open>Examples\<close>

definition raw_limit_buy :: order_create_request where
  "raw_limit_buy = \<lparr>rc_symbol = '' BTC/USDT '', rc_side = ''buy'', rc_type = ''limit'', rc_price = Some 100, rc_stop_price = None,
     rc_trailing_delta = None, rc_quantity = 1, rc_time_in_force = ''gtc'', rc_client_order_id = None, rc_post_only = False,
     rc_visible_quantity = None, rc_hidden_quantity = None, rc_sl = None, rc_tp = None\<rparr>"

lemma strip_raw: "strip '' BTC/USDT '' = ''BTC/USDT''"
  by code_simp

lemma raw_valid: "OrderCreateRequest raw_limit_buy = Inr (raw_limit_buy\<lparr>rc_symbol := ''BTC/USDT''\<rparr>)"
  by (simp add: OrderCreateRequest_def raw_limit_buy_def strip_raw Let_def all_sides_def all_types_def must_be_positive_def TimeInForce_def
    max_length_def)




theorem order_flags_ignored_witness:
  "rc_time_in_force raw_limit_buy \<in> set TimeInForce \<and>
   post_order mem_redis quiet 1 (raw_limit_buy\<lparr>rc_post_only := True, rc_time_in_force := ''fok''\<rparr>) (market Map.empty [] empty_redis) =
   post_order mem_redis quiet 1 raw_limit_buy (market Map.empty [] empty_redis)"
  using order_flags_ignored [of raw_limit_buy "''fok''"] by (simp add: raw_limit_buy_def TimeInForce_def)

theorem bulk_cancel_unreachable_witness:
  "let w = accounts [demo_key 1 2 ''k1''] in \<exists>w1. route_delete ''bulk'' \<noteq> Some CancelBulkOrders \<and>
     delete_orders (\<lambda>s. None) mem_redis demo_crypto (demo_request ''k1'') ''bulk'' None None True w = (Inl RequestValidationError, w1)"
proof -
  let ?w = "accounts [demo_key 1 2 ''k1'']"
  have "demo_key 1 2 ''k1'' \<in> set (w_api_keys ?w)" "w_now ?w = 0" "w_redis ?w = empty_redis" by (simp_all add: accounts_def market_def)
  then obtain w1 where a: "authenticate_request mem_redis demo_crypto (demo_request ''k1'') ?w = (Inr (state_of (demo_key 1 2 ''k1'') 1), w1)"
    using demo_request_ok [OF accounts_ok_accounts(2)] by blast
  have "''trade'' \<in> set (rs_permissions (state_of (demo_key 1 2 ''k1'') 1))" by (simp add: state_of_def demo_key_def)
  from bulk_cancel_unreachable [OF _ a this, of "\<lambda>s. None"] show ?thesis by (auto simp: Let_def)
qed


end
