(* ===== verification/Market_Data.thy ===== *)
theory Market_Data
  imports Http_Orders
begin

section \<open>Trade history, candles, balances and pairs\<close>

text \<open>
  The read-only endpoints: \<open>api/v1/trades.py\<close>, \<open>api/v1/balance.py\<close> and \<open>api/v1/pairs.py\<close>. Prices and quantities become
  doubles (\<open>float(...)\<close>) in the candles and in the public feed.
\<close>

subsection \<open>A user's trades and the public feed\<close>

datatype trade_role = Taker | Maker

record trade_response =
  tr_trade :: trade
  tr_role :: trade_role
  tr_fee :: rat
  tr_order_id :: int

definition trade_to_response :: "int \<Rightarrow> trade \<Rightarrow> trade_response" where
  "trade_to_response user_id t =
     (if t_taker_user_id t = user_id then \<lparr>tr_trade = t, tr_role = Taker, tr_fee = t_taker_fee t, tr_order_id = t_taker_order_id t\<rparr>
      else \<lparr>tr_trade = t, tr_role = Maker, tr_fee = t_maker_fee t, tr_order_id = t_maker_order_id t\<rparr>)"

definition list_trades ::
  "int \<Rightarrow> string option \<Rightarrow> string option \<Rightarrow> int option \<Rightarrow> int option \<Rightarrow> int \<Rightarrow> int \<Rightarrow> ('s, trade_response list) world_prog" where
  "list_trades user_id symbol side start until offset limit =
     validP (0 \<le> offset \<and> 1 \<le> limit \<and> limit \<le> 500 \<and> (case side of None \<Rightarrow> True | Some s \<Rightarrow> is_ok (OrderSide s)))
      (bindP (list_user_trades user_id symbol
         (case side of None \<Rightarrow> None | Some s \<Rightarrow> (case OrderSide s of Inl e \<Rightarrow> None | Inr d \<Rightarrow> Some d)) start until (nat offset) (nat limit)) (\<lambda>trades.
       retP (map (trade_to_response user_id) trades)))"

record public_trade =
  pt_trade_id :: int
  pt_symbol :: string
  pt_price :: rat
  pt_quantity :: rat
  pt_side :: string
  pt_ts :: int

definition to_public :: "trade \<Rightarrow> public_trade" where
  "to_public t = \<lparr>pt_trade_id = t_id t, pt_symbol = t_symbol t, pt_price = rnd (t_price t), pt_quantity = rnd (t_quantity t),
     pt_side = side_value (t_side t), pt_ts = int_of_float (dmul (unix_time (t_executed_at t)) 1000)\<rparr>"

definition list_public_trades :: "string \<Rightarrow> int \<Rightarrow> ('s, public_trade list) world_prog" where
  "list_public_trades symbol limit = validP (1 \<le> limit \<and> limit \<le> 500)
     (bindP (list_recent_by_symbol symbol (nat limit)) (\<lambda>trades. retP (map to_public (rev trades))))"

subsection \<open>Candles\<close>

record candle =
  c_time :: int
  c_open :: rat
  c_high :: rat
  c_low :: rat
  c_close :: rat
  c_volume :: rat

definition tf_seconds :: "string \<Rightarrow> int" where
  "tf_seconds timeframe = (case map_of [(''1m'', 60), (''5m'', 300), (''15m'', 900), (''1h'', 3600), (''4h'', 14400), (''1d'', 86400)] timeframe of
     None \<Rightarrow> 60 | Some n \<Rightarrow> n)"

definition bucket_of :: "int \<Rightarrow> trade \<Rightarrow> int" where
  "bucket_of tf t = (let trade_ts = int_of_float (unix_time (t_executed_at t)) in (trade_ts div tf) * tf)"

definition new_candle :: "int \<Rightarrow> trade \<Rightarrow> candle" where
  "new_candle bucket t = \<lparr>c_time = bucket, c_open = rnd (t_price t), c_high = rnd (t_price t), c_low = rnd (t_price t),
     c_close = rnd (t_price t), c_volume = rnd (t_quantity t)\<rparr>"

definition update_candle :: "trade \<Rightarrow> candle \<Rightarrow> candle" where
  "update_candle t c = (let price = rnd (t_price t) in
     c\<lparr>c_high := max (c_high c) price, c_low := min (c_low c) price, c_close := price, c_volume := dadd (c_volume c) (rnd (t_quantity t))\<rparr>)"

text \<open>
  One turn of the loop: the closed candles, and the current one, whose \<open>c_time\<close> is \<open>current_bucket\<close>.
\<close>

definition candle_step :: "int \<Rightarrow> trade \<Rightarrow> candle list \<times> candle option \<Rightarrow> candle list \<times> candle option" where
  "candle_step tf trade = (\<lambda>(candles, current). let bucket = bucket_of tf trade in
     case current of
       None \<Rightarrow> (candles, Some (new_candle bucket trade))
     | Some c \<Rightarrow> if bucket \<noteq> c_time c then (candles @ [c], Some (new_candle bucket trade))
         else (candles, Some (update_candle trade c)))"

definition aggregate_candles :: "int \<Rightarrow> trade list \<Rightarrow> candle list" where
  "aggregate_candles tf trades = (case fold (candle_step tf) trades ([], None) of
     (candles, None) \<Rightarrow> candles | (candles, Some c) \<Rightarrow> candles @ [c])"

definition last_n :: "nat \<Rightarrow> 'a list \<Rightarrow> 'a list" where
  "last_n n xs = drop (length xs - n) xs"

definition trades_since :: "string \<Rightarrow> int \<Rightarrow> ('s, trade list) world_prog" where
  "trades_since symbol start = getP (\<lambda>w. sort_key t_executed_at (filter (\<lambda>t. t_symbol t = symbol \<and> start \<le> t_executed_at t) (w_trade_rows w)))"

definition get_candles :: "string \<Rightarrow> string \<Rightarrow> int \<Rightarrow> ('s, candle list) world_prog" where
  "get_candles symbol timeframe limit = validP (1 \<le> limit \<and> limit \<le> 1000)
     (let tf = tf_seconds timeframe in
      bindP (getP w_now) (\<lambda>now.
      bindP (trades_since symbol (now - tf * limit * 1000000)) (\<lambda>trades.
      if trades = [] then retP []
      else let candles = aggregate_candles tf trades in
        retP (if limit < int (length candles) then last_n (nat limit) candles else candles))))"

subsection \<open>Balances and pairs\<close>

definition get_balance :: "string list \<Rightarrow> int \<Rightarrow> string option \<Rightarrow> ('s, balance list) world_prog" where
  "get_balance assets user_id asset =
     bindP (get_all_balances assets user_id) (\<lambda>balances.
     retP (if header asset = [] then balances
       else let wanted = map (\<lambda>a. upper (strip a)) (split_on CHR '','' (header asset)) in
         filter (\<lambda>b. upper (b_asset b) \<in> set wanted) balances))"

definition list_public_pairs :: "('s, trading_pair list) world_prog" where
  "list_public_pairs = list_active"

subsection \<open>Candles are the groups of the trades by interval\<close>

text \<open>The candle of the trades of one interval: first, largest, smallest and last price, and the added volumes.\<close>

definition candle_of :: "int \<Rightarrow> trade list \<Rightarrow> candle" where
  "candle_of b ts = \<lparr>c_time = b, c_open = rnd (t_price (hd ts)), c_high = Max (set (map (\<lambda>t. rnd (t_price t)) ts)),
     c_low = Min (set (map (\<lambda>t. rnd (t_price t)) ts)), c_close = rnd (t_price (last ts)),
     c_volume = fold (\<lambda>t v. dadd v (rnd (t_quantity t))) (tl ts) (rnd (t_quantity (hd ts)))\<rparr>"

definition grouped_candles :: "int \<Rightarrow> trade list \<Rightarrow> candle list" where
  "grouped_candles tf ts = map (\<lambda>b. candle_of b (filter (\<lambda>t. bucket_of tf t = b) ts)) (remdups_adj (map (bucket_of tf) ts))"

lemma candle_of_single: "candle_of b [t] = new_candle b t"
  by (simp add: candle_of_def new_candle_def)

lemma candle_of_snoc: "ts \<noteq> [] \<Longrightarrow> candle_of b (ts @ [t]) = update_candle t (candle_of b ts)"
  by (auto simp: candle_of_def update_candle_def Let_def max.commute min.commute)

lemma remdups_adj_snoc: "remdups_adj (xs @ [x]) = (if xs \<noteq> [] \<and> last xs = x then remdups_adj xs else remdups_adj xs @ [x])"
  by (induction xs rule: remdups_adj.induct) auto

lemma last_remdups_adj: "xs \<noteq> [] \<Longrightarrow> last (remdups_adj xs) = last xs"
  by (induction xs rule: remdups_adj.induct) auto

lemma remdups_adj_strict: "sorted (xs :: int list) \<Longrightarrow> sorted_wrt (<) (remdups_adj xs)"
  by (induction xs rule: remdups_adj.induct) fastforce+

lemma sorted_le_last: "sorted xs \<Longrightarrow> x \<in> set xs \<Longrightarrow> x \<le> last xs"
  by (induction xs) auto

lemma candle_step_Some: "candle_step tf t (cs, Some c) =
    (if bucket_of tf t \<noteq> c_time c then (cs @ [c], Some (new_candle (bucket_of tf t) t)) else (cs, Some (update_candle t c)))"
  by (simp add: candle_step_def Let_def)

lemma candle_fold_state:
  assumes "sorted (map (bucket_of tf) ts)" and "ts \<noteq> []"
  shows "fold (candle_step tf) ts ([], None) = (butlast (grouped_candles tf ts), Some (last (grouped_candles tf ts)))"
  using assms
proof (induction ts rule: rev_induct)
  case Nil
  then show ?case by simp
next
  case (snoc t ts)
  let ?b = "bucket_of tf"
  show ?case
  proof (cases "ts = []")
    case True
    then show ?thesis by (simp add: candle_step_def grouped_candles_def candle_of_single)
  next
    case False
    have sorted: "sorted (map ?b ts)" "\<forall>x\<in>set ts. ?b x \<le> ?b t" using snoc.prems by (auto simp: sorted_append)
    let ?bs = "remdups_adj (map ?b ts)"
    have bs: "?bs \<noteq> []" "last ?bs = ?b (last ts)" using False by (simp_all add: last_remdups_adj last_map)
    have state: "fold (candle_step tf) ts ([], None) = (butlast (grouped_candles tf ts), Some (last (grouped_candles tf ts)))"
      using snoc.IH [OF sorted(1) False] .
    have lastc: "last (grouped_candles tf ts) = candle_of (?b (last ts)) (filter (\<lambda>x. ?b x = ?b (last ts)) ts)"
      using bs by (simp add: grouped_candles_def last_map)
    then have time: "c_time (last (grouped_candles tf ts)) = ?b (last ts)" by (simp add: candle_of_def)
    show ?thesis
    proof (cases "?b t = ?b (last ts)")
      case same: True
      have d: "distinct ?bs" using remdups_adj_strict [OF sorted(1)] by (simp add: strict_sorted_iff)
      have split: "?bs = butlast ?bs @ [?b t]" using bs same by (metis append_butlast_last_id)
      have "?b t \<notin> set (butlast ?bs)" using d by (subst (asm) split) simp
      then have front: "map (\<lambda>b. candle_of b (filter (\<lambda>x. ?b x = b) (ts @ [t]))) (butlast ?bs) = butlast (grouped_candles tf ts)"
        by (auto simp: grouped_candles_def map_butlast [symmetric])
      have "filter (\<lambda>x. ?b x = ?b t) ts \<noteq> []" using False same last_in_set [OF False] by (auto simp: filter_empty_conv)
      then have "candle_of (?b t) (filter (\<lambda>x. ?b x = ?b t) (ts @ [t])) = update_candle t (last (grouped_candles tf ts))"
        using lastc same by (simp add: candle_of_snoc)
      moreover have "grouped_candles tf (ts @ [t]) =
          map (\<lambda>b. candle_of b (filter (\<lambda>x. ?b x = b) (ts @ [t]))) (butlast ?bs) @ [candle_of (?b t) (filter (\<lambda>x. ?b x = ?b t) (ts @ [t]))]"
      proof -
        have "remdups_adj (map ?b (ts @ [t])) = butlast ?bs @ [?b t]"
          using False same split by (simp add: remdups_adj_snoc last_map)
        then show ?thesis by (simp only: grouped_candles_def map_append list.map)
      qed
      ultimately have "grouped_candles tf (ts @ [t]) = butlast (grouped_candles tf ts) @ [update_candle t (last (grouped_candles tf ts))]"
        using front by simp
      then show ?thesis using state time same by (simp add: candle_step_Some)
    next
      case new: False
      have last: "?b x \<noteq> ?b t" if "x \<in> set ts" for x
      proof -
        have "?b x \<le> ?b (last ts)" using sorted_le_last [OF sorted(1), of "?b x"] that False by (simp add: last_map)
        moreover have "?b (last ts) < ?b t" using new sorted(2) last_in_set [OF False] by force
        ultimately show ?thesis by simp
      qed
      have none: "filter (\<lambda>x. ?b x = ?b t) ts = []" using last by (simp add: filter_empty_conv)
      have keep: "map (\<lambda>b. candle_of b (filter (\<lambda>x. ?b x = b) (ts @ [t]))) ?bs = grouped_candles tf ts"
        unfolding grouped_candles_def by (rule map_cong) (use last in \<open>fastforce+\<close>)
      have "remdups_adj (map ?b (ts @ [t])) = ?bs @ [?b t]" using False new by (simp add: remdups_adj_snoc last_map)
      then have "grouped_candles tf (ts @ [t]) = grouped_candles tf ts @ [new_candle (?b t) t]"
        using keep none by (simp add: grouped_candles_def candle_of_single)
      moreover have "grouped_candles tf ts \<noteq> []" using bs(1) by (simp add: grouped_candles_def)
      ultimately show ?thesis using state time new by (simp add: candle_step_Some)
    qed
  qed
qed

lemma int_of_float_mono: "x \<le> y \<Longrightarrow> int_of_float x \<le> int_of_float y"
proof -
  assume le: "x \<le> y"
  consider "0 \<le> x" | "x < 0" "y < 0" | "x < 0" "0 \<le> y" by linarith
  then show ?thesis
  proof cases
    case 1
    then show ?thesis using le by (simp add: int_of_float_def floor_mono)
  next
    case 2
    then show ?thesis using floor_mono [of "- y" "- x"] le by (simp add: int_of_float_def)
  next
    case 3
    then have "0 \<le> \<lfloor>- x\<rfloor>" "0 \<le> \<lfloor>y\<rfloor>" by simp_all
    then have "- \<lfloor>- x\<rfloor> \<le> \<lfloor>y\<rfloor>" by linarith
    then show ?thesis using 3 by (simp add: int_of_float_def)
  qed
qed

lemma bucket_mono: "0 < tf \<Longrightarrow> t_executed_at a \<le> t_executed_at b \<Longrightarrow> bucket_of tf a \<le> bucket_of tf b"
  unfolding bucket_of_def Let_def unix_time_def
  by (intro mult_right_mono zdiv_mono1 int_of_float_mono rnd_mono divide_right_mono) simp_all

lemma tf_seconds_pos: "0 < tf_seconds timeframe"
  by (simp add: tf_seconds_def)

lemma sorted_buckets: "0 < tf \<Longrightarrow> sorted (map t_executed_at ts) \<Longrightarrow> sorted (map (bucket_of tf) ts)"
  by (induction ts) (auto intro: bucket_mono)

lemma aggregate_grouped:
  assumes "0 < tf" and "sorted (map t_executed_at ts)"
  shows "aggregate_candles tf ts = grouped_candles tf ts"
proof (cases "ts = []")
  case True
  then show ?thesis by (simp add: aggregate_candles_def grouped_candles_def)
next
  case False
  have "grouped_candles tf ts \<noteq> []" using False by (simp add: grouped_candles_def)
  then show ?thesis
    using candle_fold_state [OF sorted_buckets [OF assms] False] by (simp add: aggregate_candles_def)
qed

lemma get_candles_run:
  assumes "1 \<le> limit" and "limit \<le> 1000"
  shows "get_candles symbol timeframe limit w = (Inr (last_n (nat limit) (aggregate_candles (tf_seconds timeframe)
    (sort_key t_executed_at (filter (\<lambda>t. t_symbol t = symbol \<and> w_now w - tf_seconds timeframe * limit * 1000000 \<le> t_executed_at t) (w_trade_rows w))))), w)"
proof -
  have "aggregate_candles tf [] = []" for tf by (simp add: aggregate_candles_def)
  then show ?thesis
    using assms by (auto simp: get_candles_def validP_def Let_def prog_defs trades_since_def last_n_def)
qed

text \<open>
  C25. The chart is the trades grouped by interval: for a valid limit, the candles are the last \<open>limit\<close> groups of the
  pair's trades since the start of the period, each with the first, largest, smallest and last price and the summed
  volume of its interval, however many trades fall into it.
\<close>

theorem candles_are_groups:
  assumes "1 \<le> limit" and "limit \<le> 1000"
  shows "get_candles symbol timeframe limit w = (Inr (last_n (nat limit) (grouped_candles (tf_seconds timeframe)
    (sort_key t_executed_at (filter (\<lambda>t. t_symbol t = symbol \<and> w_now w - tf_seconds timeframe * limit * 1000000 \<le> t_executed_at t) (w_trade_rows w))))), w)"
  using get_candles_run [OF assms] aggregate_grouped [OF tf_seconds_pos] by simp

lemma candle_of_bounds:
  assumes "ts \<noteq> []"
  shows "c_low (candle_of b ts) \<le> c_open (candle_of b ts) \<and> c_open (candle_of b ts) \<le> c_high (candle_of b ts) \<and>
    c_low (candle_of b ts) \<le> c_close (candle_of b ts) \<and> c_close (candle_of b ts) \<le> c_high (candle_of b ts)"
  using assms hd_in_set [OF assms] last_in_set [OF assms] by (simp add: candle_of_def)

lemma length_last_n: "length (last_n n xs) \<le> n"
  by (simp add: last_n_def)

lemma set_last_n: "set (last_n n xs) \<subseteq> set xs"
  by (simp add: last_n_def set_drop_subset)

lemma grouped_wellformed:
  assumes "0 < tf" and "sorted (map t_executed_at ts)"
  shows "sorted_wrt (<) (map c_time (grouped_candles tf ts))"
    and "\<forall>c\<in>set (grouped_candles tf ts). c_time c mod tf = 0 \<and> c_low c \<le> c_open c \<and> c_open c \<le> c_high c \<and> c_low c \<le> c_close c \<and> c_close c \<le> c_high c"
proof -
  have "map c_time (grouped_candles tf ts) = remdups_adj (map (bucket_of tf) ts)"
    by (simp add: grouped_candles_def comp_def candle_of_def)
  then show "sorted_wrt (<) (map c_time (grouped_candles tf ts))" using remdups_adj_strict [OF sorted_buckets [OF assms]] by simp
  show "\<forall>c\<in>set (grouped_candles tf ts). c_time c mod tf = 0 \<and> c_low c \<le> c_open c \<and> c_open c \<le> c_high c \<and> c_low c \<le> c_close c \<and> c_close c \<le> c_high c"
  proof
    fix c assume "c \<in> set (grouped_candles tf ts)"
    then obtain t where t: "t \<in> set ts" "c = candle_of (bucket_of tf t) (filter (\<lambda>x. bucket_of tf x = bucket_of tf t) ts)"
      by (auto simp: grouped_candles_def)
    then have "filter (\<lambda>x. bucket_of tf x = bucket_of tf t) ts \<noteq> []" by (auto simp: filter_empty_conv)
    from candle_of_bounds [OF this, of "bucket_of tf t"] show "c_time c mod tf = 0 \<and> c_low c \<le> c_open c \<and> c_open c \<le> c_high c \<and> c_low c \<le> c_close c \<and> c_close c \<le> c_high c"
      by (simp add: t(2)) (simp add: candle_of_def bucket_of_def Let_def)
  qed
qed

text \<open>
  A chart is well formed: its candles are at most \<open>limit\<close>, their times are strictly increasing multiples of the
  interval, and the opening and closing prices lie between the low and the high. A request with a limit outside the
  range is answered 422.
\<close>

theorem candles_wellformed:
  "case fst (get_candles symbol timeframe limit w) of
     Inl e \<Rightarrow> e = RequestValidationError \<and> \<not> (1 \<le> limit \<and> limit \<le> 1000)
   | Inr cs \<Rightarrow> int (length cs) \<le> limit \<and> sorted_wrt (<) (map c_time cs) \<and>
       list_all (\<lambda>c. c_time c mod tf_seconds timeframe = 0 \<and> c_low c \<le> c_open c \<and> c_open c \<le> c_high c \<and>
         c_low c \<le> c_close c \<and> c_close c \<le> c_high c) cs"
proof (cases "1 \<le> limit \<and> limit \<le> 1000")
  case True
  let ?ts = "sort_key t_executed_at (filter (\<lambda>t. t_symbol t = symbol \<and> w_now w - tf_seconds timeframe * limit * 1000000 \<le> t_executed_at t) (w_trade_rows w))"
  let ?g = "grouped_candles (tf_seconds timeframe) ?ts"
  have run: "fst (get_candles symbol timeframe limit w) = Inr (last_n (nat limit) ?g)"
    using get_candles_run [of limit symbol timeframe w] True aggregate_grouped [OF tf_seconds_pos, of ?ts timeframe] by simp
  note wf = grouped_wellformed [OF tf_seconds_pos, of ?ts timeframe]
  have "sorted_wrt (<) (map c_time (last_n (nat limit) ?g))"
    using wf(1) by (simp add: last_n_def drop_map [symmetric] sorted_wrt_drop)
  moreover have "int (length (last_n (nat limit) ?g)) \<le> limit" using True length_last_n [of "nat limit" ?g] by linarith
  ultimately show ?thesis
    using wf(2) set_last_n [of "nat limit" ?g] unfolding run by (auto simp: list_all_iff)
next
  case False
  then show ?thesis by (auto simp: get_candles_def validP_def raiseP_def)
qed

text \<open>
  The public feed is sent oldest first: the rows are in increasing order of execution although the comment in the
  code says most recent first.
\<close>

theorem public_feed_oldest_first:
  assumes "1 \<le> limit" and "limit \<le> 500"
  shows "\<exists>ts. fst (list_public_trades symbol limit w) = Inr (map to_public ts) \<and> sorted (map t_executed_at ts) \<and>
    length ts = min (nat limit) (length (filter (\<lambda>t. t_symbol t = symbol) (w_trade_rows w)))"
proof -
  let ?all = "sort_key t_executed_at (filter (\<lambda>t. t_symbol t = symbol) (w_trade_rows w))"
  let ?ts = "rev (take (nat limit) (rev ?all))"
  have "?ts = last_n (nat limit) ?all" by (simp add: last_n_def take_rev)
  then have "sorted (map t_executed_at ?ts)" by (simp add: last_n_def drop_map [symmetric] sorted_wrt_drop)
  moreover have "fst (list_public_trades symbol limit w) = Inr (map to_public ?ts)"
    using assms by (simp add: list_public_trades_def validP_def list_recent_by_symbol_def prog_defs)
  ultimately show ?thesis by (intro exI [of _ ?ts]) (simp add: min.commute)
qed

subsection \<open>Examples\<close>

definition demo_trade :: "int \<Rightarrow> rat \<Rightarrow> int \<Rightarrow> trade" where
  "demo_trade i price instant = \<lparr>t_id = i, t_taker_order_id = 2 * i, t_maker_order_id = 2 * i + 1, t_symbol = ''BTC/USDT'', t_price = price,
     t_quantity = 1, t_quote_quantity = price, t_side = BUY, t_taker_user_id = 1, t_maker_user_id = 2, t_taker_fee = 0, t_maker_fee = 0,
     t_executed_at = instant\<rparr>"

definition traded :: "mem_state world" where
  "traded = (market Map.empty [] empty_redis)\<lparr>w_now := 180000000,
     w_trade_rows := [demo_trade 1 100 61000000, demo_trade 2 90 62000000, demo_trade 3 95 130000000]\<rparr>"

lemma traded_facts: "w_now traded = 180000000"
  "w_trade_rows traded = [demo_trade 1 100 61000000, demo_trade 2 90 62000000, demo_trade 3 95 130000000]"
  by (simp_all add: traded_def)

theorem candles_are_groups_witness:
  "fst (get_candles ''BTC/USDT'' ''1m'' 10 traded) =
   Inr [\<lparr>c_time = 60, c_open = 100, c_high = 100, c_low = 90, c_close = 90, c_volume = 2\<rparr>,
     \<lparr>c_time = 120, c_open = 95, c_high = 95, c_low = 95, c_close = 95, c_volume = 1\<rparr>]"
proof -
  let ?a = "demo_trade 1 100 61000000" and ?b = "demo_trade 2 90 62000000" and ?c = "demo_trade 3 95 130000000"
  have t: "tf_seconds ''1m'' = 60" by (simp add: tf_seconds_def)
  have b: "bucket_of 60 ?a = 60" "bucket_of 60 ?b = 60" "bucket_of 60 ?c = 120" by code_simp+
  have f: "t_symbol (demo_trade i p x) = ''BTC/USDT''" "t_executed_at (demo_trade i p x) = x" "t_price (demo_trade i p x) = p"
    "t_quantity (demo_trade i p x) = 1" for i p x by (simp_all add: demo_trade_def)
  have r: "rnd 100 = 100" "rnd 90 = 90" "rnd 95 = 95" "rnd 1 = 1" "dadd 1 1 = 2" by code_simp+
  have "sort_key t_executed_at [?a, ?b, ?c] = [?a, ?b, ?c]" by (simp add: f)
  then have "last_n 10 (grouped_candles 60 (sort_key t_executed_at [?a, ?b, ?c])) =
    [\<lparr>c_time = 60, c_open = 100, c_high = 100, c_low = 90, c_close = 90, c_volume = 2\<rparr>,
     \<lparr>c_time = 120, c_open = 95, c_high = 95, c_low = 95, c_close = 95, c_volume = 1\<rparr>]"
    by (simp add: grouped_candles_def b candle_of_def f r last_n_def)
  then show ?thesis using candles_are_groups [of 10 "''BTC/USDT''" "''1m''" traded] by (simp add: traded_facts t f)
qed

theorem public_feed_oldest_first_witness:
  "\<exists>ts. fst (list_public_trades ''BTC/USDT'' 2 traded) = Inr (map to_public ts) \<and> sorted (map t_executed_at ts) \<and> length ts = 2"
  using public_feed_oldest_first [of 2 "''BTC/USDT''" traded] by (simp add: traded_facts demo_trade_def numeral_2_eq_2)

end
