(* ===== verification/Schema.thy ===== *)
theory Schema
  imports Http_Orders
begin

section \<open>The database schema and its migration\<close>

text \<open>
  \<open>alembic/versions/0001_initial.py\<close>, and the table metadata of the classes in \<open>models/\<close>. The operations of Alembic on a
  database are a parameter of the migration. What is relied on is stated over the catalog of the database, its enum types,
  tables and indexes: each operation acts there as PostgreSQL documents it, and raises what PostgreSQL raises. Tables, indexes and the
  constraints that own an index share one name space. Server defaults are kept as text.
\<close>

datatype column_type = BigInteger | Integer | Boolean | DateTime | TextArray | String nat | Numeric nat nat | Enum string

record column =
  cl_name :: string
  cl_type :: column_type
  cl_nullable :: bool
  cl_default :: "string option"

record foreign_key =
  fk_column :: string
  fk_table :: string
  fk_ref :: string
  fk_ondelete :: "string option"

record table_def =
  td_name :: string
  td_columns :: "column list"
  td_pk :: "string \<times> string"
  td_uniques :: "(string \<times> string list) list"
  td_fkeys :: "foreign_key list"

record index_def =
  ix_name :: string
  ix_table :: string
  ix_columns :: "string list"
  ix_unique :: bool

record schema =
  db_types :: "(string \<times> string list) list"
  db_tables :: "table_def list"
  db_indexes :: "index_def list"

definition empty_schema :: schema where
  "empty_schema = \<lparr>db_types = [], db_tables = [], db_indexes = []\<rparr>"

datatype migration_error = DuplicateObject string | UndefinedObject string | InvalidForeignKey string | DependentObjects string

type_synonym migration = "(schema, migration_error, unit) prog"

subsection \<open>Operations\<close>

definition column_names :: "table_def \<Rightarrow> string list" where
  "column_names t = map cl_name (td_columns t)"

definition own_names :: "table_def \<Rightarrow> string list" where
  "own_names t = td_name t # fst (td_pk t) # map fst (td_uniques t)"

definition relation_names :: "schema \<Rightarrow> string list" where
  "relation_names db = concat (map own_names (db_tables db)) @ map ix_name (db_indexes db)"

definition find_table :: "string \<Rightarrow> schema \<Rightarrow> table_def option" where
  "find_table name db = find (\<lambda>t. td_name t = name) (db_tables db)"

text \<open>A foreign key may refer to a column that is the primary key or has a unique constraint or index of its own.\<close>

definition unique_column :: "schema \<Rightarrow> table_def \<Rightarrow> string \<Rightarrow> bool" where
  "unique_column db t c \<longleftrightarrow> snd (td_pk t) = c \<or> [c] \<in> set (map snd (td_uniques t)) \<or>
     (\<exists>i\<in>set (db_indexes db). ix_table i = td_name t \<and> ix_columns i = [c] \<and> ix_unique i)"

definition fkey_ok :: "schema \<Rightarrow> table_def \<Rightarrow> foreign_key \<Rightarrow> bool" where
  "fkey_ok db t f \<longleftrightarrow> fk_column f \<in> set (column_names t) \<and>
     (if fk_table f = td_name t then unique_column db t (fk_ref f) \<and> fk_ref f \<in> set (column_names t)
      else case find_table (fk_table f) db of
        None \<Rightarrow> False | Some r \<Rightarrow> unique_column db r (fk_ref f) \<and> fk_ref f \<in> set (column_names r))"

definition type_known :: "schema \<Rightarrow> column_type \<Rightarrow> bool" where
  "type_known db ty \<longleftrightarrow> (case ty of Enum n \<Rightarrow> n \<in> set (map fst (db_types db)) | _ \<Rightarrow> True)"

definition create_enum :: "bool \<Rightarrow> string \<times> string list \<Rightarrow> migration" where
  "create_enum checkfirst ty = bindP (getP (\<lambda>db. fst ty \<in> set (map fst (db_types db)))) (\<lambda>exists.
     if exists then (if checkfirst then retP () else raiseP (DuplicateObject (fst ty)))
     else modP (\<lambda>db. db\<lparr>db_types := db_types db @ [ty]\<rparr>))"

definition drop_enum :: "bool \<Rightarrow> string \<Rightarrow> migration" where
  "drop_enum checkfirst name = bindP (getP (\<lambda>db. (name \<in> set (map fst (db_types db)),
       \<exists>t\<in>set (db_tables db). Enum name \<in> set (map cl_type (td_columns t))))) (\<lambda>(exists, used).
     if \<not> exists then (if checkfirst then retP () else raiseP (UndefinedObject name))
     else if used then raiseP (DependentObjects name)
     else modP (\<lambda>db. db\<lparr>db_types := filter (\<lambda>ty. fst ty \<noteq> name) (db_types db)\<rparr>))"

definition create_table :: "table_def \<Rightarrow> migration" where
  "create_table t =
     bindP (getP (\<lambda>db. (distinct (own_names t) \<and> list_all (\<lambda>n. n \<notin> set (relation_names db)) (own_names t),
       distinct (column_names t), snd (td_pk t) \<in> set (column_names t) \<and>
         list_all (\<lambda>u. set (snd u) \<subseteq> set (column_names t)) (td_uniques t) \<and> list_all (\<lambda>c. type_known db (cl_type c)) (td_columns t),
       list_all (fkey_ok db t) (td_fkeys t)))) (\<lambda>(fresh, columns, known, fkeys).
     if \<not> fresh \<or> \<not> columns then raiseP (DuplicateObject (td_name t))
     else if \<not> known then raiseP (UndefinedObject (td_name t))
     else if \<not> fkeys then raiseP (InvalidForeignKey (td_name t))
     else modP (\<lambda>db. db\<lparr>db_tables := db_tables db @ [t]\<rparr>))"

definition drop_table :: "string \<Rightarrow> migration" where
  "drop_table name =
     bindP (getP (\<lambda>db. (find_table name db \<noteq> None,
       \<exists>t\<in>set (db_tables db). td_name t \<noteq> name \<and> name \<in> set (map fk_table (td_fkeys t))))) (\<lambda>(exists, used).
     if \<not> exists then raiseP (UndefinedObject name)
     else if used then raiseP (DependentObjects name)
     else modP (\<lambda>db. db\<lparr>db_tables := filter (\<lambda>t. td_name t \<noteq> name) (db_tables db),
       db_indexes := filter (\<lambda>i. ix_table i \<noteq> name) (db_indexes db)\<rparr>))"

definition create_index :: "string \<Rightarrow> string \<Rightarrow> string list \<Rightarrow> bool \<Rightarrow> migration" where
  "create_index name table columns unique =
     bindP (getP (\<lambda>db. (name \<in> set (relation_names db), find_table table db))) (\<lambda>(exists, found). case found of
       None \<Rightarrow> raiseP (UndefinedObject table)
     | Some t \<Rightarrow>
       if exists then raiseP (DuplicateObject name)
       else if \<not> set columns \<subseteq> set (column_names t) then raiseP (UndefinedObject table)
       else modP (\<lambda>db. db\<lparr>db_indexes := db_indexes db @ [\<lparr>ix_name = name, ix_table = table, ix_columns = columns, ix_unique = unique\<rparr>]\<rparr>))"

text \<open>A unique index on a column that a foreign key refers to may be the one the key depends on.\<close>

definition drop_index :: "string \<Rightarrow> string \<Rightarrow> migration" where
  "drop_index name table =
     bindP (getP (\<lambda>db. (find (\<lambda>i. ix_name i = name \<and> ix_table i = table) (db_indexes db),
       concat (map (\<lambda>t. map (\<lambda>f. (fk_table f, [fk_ref f])) (td_fkeys t)) (db_tables db))))) (\<lambda>(found, targets). case found of
       None \<Rightarrow> raiseP (UndefinedObject name)
     | Some i \<Rightarrow>
       if ix_unique i \<and> (table, ix_columns i) \<in> set targets then raiseP (DependentObjects name)
       else modP (\<lambda>db. db\<lparr>db_indexes := filter (\<lambda>j. ix_name j \<noteq> name) (db_indexes db)\<rparr>))"

subsection \<open>The operations as a parameter\<close>

record 'db ddl_ops =
  op_create_enum :: "bool \<Rightarrow> string \<times> string list \<Rightarrow> ('db, migration_error, unit) prog"
  op_drop_enum :: "bool \<Rightarrow> string \<Rightarrow> ('db, migration_error, unit) prog"
  op_create_table :: "table_def \<Rightarrow> ('db, migration_error, unit) prog"
  op_drop_table :: "string \<Rightarrow> ('db, migration_error, unit) prog"
  op_create_index :: "string \<Rightarrow> string \<Rightarrow> string list \<Rightarrow> bool \<Rightarrow> ('db, migration_error, unit) prog"
  op_drop_index :: "string \<Rightarrow> string \<Rightarrow> ('db, migration_error, unit) prog"

definition simulates :: "('db \<Rightarrow> schema) \<Rightarrow> ('db, migration_error, unit) prog \<Rightarrow> migration \<Rightarrow> bool" where
  "simulates catalog m n \<longleftrightarrow> (\<forall>db. fst (m db) = fst (n (catalog db)) \<and> catalog (snd (m db)) = snd (n (catalog db)))"

locale ddl_server =
  fixes D :: "'db ddl_ops" and catalog :: "'db \<Rightarrow> schema"
  assumes create_enum_sim: "simulates catalog (op_create_enum D b ty) (create_enum b ty)"
    and drop_enum_sim: "simulates catalog (op_drop_enum D b n) (drop_enum b n)"
    and create_table_sim: "simulates catalog (op_create_table D t) (create_table t)"
    and drop_table_sim: "simulates catalog (op_drop_table D n) (drop_table n)"
    and create_index_sim: "simulates catalog (op_create_index D n tn cs u) (create_index n tn cs u)"
    and drop_index_sim: "simulates catalog (op_drop_index D n tn) (drop_index n tn)"

text \<open>A database that is nothing but its catalog.\<close>

definition catalog_ddl :: "schema ddl_ops" where
  "catalog_ddl = \<lparr>op_create_enum = create_enum, op_drop_enum = drop_enum, op_create_table = create_table, op_drop_table = drop_table,
     op_create_index = create_index, op_drop_index = drop_index\<rparr>"

interpretation catalog_only: ddl_server catalog_ddl id
  by unfold_locales (simp_all add: simulates_def catalog_ddl_def)

subsection \<open>The migration\<close>

definition col :: "string \<Rightarrow> column_type \<Rightarrow> bool \<Rightarrow> string option \<Rightarrow> column" where
  "col n ty nullable d = \<lparr>cl_name = n, cl_type = ty, cl_nullable = nullable, cl_default = d\<rparr>"

definition fkey :: "string \<Rightarrow> string \<Rightarrow> string \<Rightarrow> string option \<Rightarrow> foreign_key" where
  "fkey c t r d = \<lparr>fk_column = c, fk_table = t, fk_ref = r, fk_ondelete = d\<rparr>"

definition index :: "string \<Rightarrow> string \<Rightarrow> string list \<Rightarrow> bool \<Rightarrow> index_def" where
  "index n t cs u = \<lparr>ix_name = n, ix_table = t, ix_columns = cs, ix_unique = u\<rparr>"

definition ORDERSIDE :: "string \<times> string list" where
  "ORDERSIDE = (''orderside'', [''buy'', ''sell''])"

definition ORDERTYPE :: "string \<times> string list" where
  "ORDERTYPE = (''ordertype'', [''market'', ''limit'', ''stop_market'', ''stop_limit'', ''post_only'', ''ioc'', ''fok'', ''trailing_stop'', ''iceberg''])"

definition ORDERSTATUS :: "string \<times> string list" where
  "ORDERSTATUS = (''orderstatus'', [''pending'', ''new'', ''partially_filled'', ''filled'', ''canceled'', ''rejected'', ''expired''])"

definition users_table :: table_def where
  "users_table = \<lparr>td_name = ''users'', td_columns = [
      col ''id'' BigInteger False None,
      col ''email'' (String 255) False None,
      col ''password_hash'' (String 255) False None,
      col ''is_active'' Boolean False (Some ''true''),
      col ''is_admin'' Boolean False (Some ''false''),
      col ''created_at'' DateTime False (Some ''now()''),
      col ''updated_at'' DateTime False (Some ''now()'')],
    td_pk = (''pk_users'', ''id''),
    td_uniques = [],
    td_fkeys = []\<rparr>"

definition api_keys_table :: table_def where
  "api_keys_table = \<lparr>td_name = ''api_keys'', td_columns = [
      col ''id'' BigInteger False None,
      col ''user_id'' BigInteger False None,
      col ''api_key'' (String 64) False None,
      col ''secret_hash'' (String 255) False None,
      col ''label'' (String 100) True None,
      col ''permissions'' TextArray False (Some ''ARRAY['trade', 'read', 'ws']::text[]''),
      col ''rate_limit_per_min'' Integer False (Some ''120''),
      col ''is_revoked'' Boolean False (Some ''false''),
      col ''created_at'' DateTime False (Some ''now()''),
      col ''last_used_at'' DateTime True None,
      col ''expires_at'' DateTime True None],
    td_pk = (''pk_api_keys'', ''id''),
    td_uniques = [(''uq_api_keys_api_key'', [''api_key''])],
    td_fkeys = [fkey ''user_id'' ''users'' ''id'' (Some ''CASCADE'')]\<rparr>"

definition balances_table :: table_def where
  "balances_table = \<lparr>td_name = ''balances'', td_columns = [
      col ''id'' BigInteger False None,
      col ''user_id'' BigInteger False None,
      col ''asset'' (String 20) False None,
      col ''total_balance'' (Numeric 36 18) False (Some ''0''),
      col ''locked_balance'' (Numeric 36 18) False (Some ''0''),
      col ''available_balance'' (Numeric 36 18) False (Some ''0''),
      col ''version'' BigInteger False (Some ''1''),
      col ''updated_at'' DateTime False (Some ''now()'')],
    td_pk = (''pk_balances'', ''id''),
    td_uniques = [(''uq_balances_user_asset'', [''user_id'', ''asset''])],
    td_fkeys = [fkey ''user_id'' ''users'' ''id'' (Some ''CASCADE'')]\<rparr>"

definition trading_pairs_table :: table_def where
  "trading_pairs_table = \<lparr>td_name = ''trading_pairs'', td_columns = [
      col ''id'' Integer False None,
      col ''symbol'' (String 20) False None,
      col ''base_asset'' (String 20) False None,
      col ''quote_asset'' (String 20) False None,
      col ''price_precision'' Integer False None,
      col ''quantity_precision'' Integer False None,
      col ''min_lot_size'' (Numeric 36 18) False None,
      col ''max_lot_size'' (Numeric 36 18) False None,
      col ''tick_size'' (Numeric 36 18) False None,
      col ''maker_fee_bps'' (Numeric 10 6) False (Some ''0''),
      col ''taker_fee_bps'' (Numeric 10 6) False (Some ''0''),
      col ''is_active'' Boolean False (Some ''true''),
      col ''created_at'' DateTime False (Some ''now()'')],
    td_pk = (''pk_trading_pairs'', ''id''),
    td_uniques = [(''uq_trading_pairs_symbol'', [''symbol''])],
    td_fkeys = []\<rparr>"

definition orders_table :: table_def where
  "orders_table = \<lparr>td_name = ''orders'', td_columns = [
      col ''id'' BigInteger False None,
      col ''user_id'' BigInteger False None,
      col ''symbol'' (String 20) False None,
      col ''side'' (Enum ''orderside'') False None,
      col ''type'' (Enum ''ordertype'') False None,
      col ''status'' (Enum ''orderstatus'') False (Some (CHR 0x27 # ''new'' @ CHR 0x27 # ''::orderstatus'')),
      col ''price'' (Numeric 36 18) True None,
      col ''stop_price'' (Numeric 36 18) True None,
      col ''trailing_delta'' (Numeric 36 18) True None,
      col ''quantity'' (Numeric 36 18) False None,
      col ''filled_quantity'' (Numeric 36 18) False (Some ''0''),
      col ''filled_quote_qty'' (Numeric 36 18) False (Some ''0''),
      col ''visible_quantity'' (Numeric 36 18) True None,
      col ''hidden_quantity'' (Numeric 36 18) True None,
      col ''replace_count'' Integer False (Some ''0''),
      col ''replaces_id'' BigInteger True None,
      col ''replaced_by_id'' BigInteger True None,
      col ''parent_order_id'' BigInteger True None,
      col ''sl_order_id'' BigInteger True None,
      col ''tp_order_id'' BigInteger True None,
      col ''bulk_id'' (String 36) True None,
      col ''created_at'' DateTime False (Some ''now()''),
      col ''updated_at'' DateTime False (Some ''now()''),
      col ''version'' BigInteger False (Some ''1'')],
    td_pk = (''pk_orders'', ''id''),
    td_uniques = [],
    td_fkeys = [fkey ''user_id'' ''users'' ''id'' (Some ''CASCADE''),
      fkey ''symbol'' ''trading_pairs'' ''symbol'' None,
      fkey ''replaces_id'' ''orders'' ''id'' None,
      fkey ''replaced_by_id'' ''orders'' ''id'' None,
      fkey ''parent_order_id'' ''orders'' ''id'' None,
      fkey ''sl_order_id'' ''orders'' ''id'' None,
      fkey ''tp_order_id'' ''orders'' ''id'' None]\<rparr>"

definition trades_table :: table_def where
  "trades_table = \<lparr>td_name = ''trades'', td_columns = [
      col ''id'' BigInteger False None,
      col ''taker_order_id'' BigInteger False None,
      col ''maker_order_id'' BigInteger False None,
      col ''symbol'' (String 20) False None,
      col ''price'' (Numeric 36 18) False None,
      col ''quantity'' (Numeric 36 18) False None,
      col ''quote_quantity'' (Numeric 36 18) False None,
      col ''side'' (Enum ''orderside'') False None,
      col ''taker_user_id'' BigInteger False None,
      col ''maker_user_id'' BigInteger False None,
      col ''taker_fee'' (Numeric 36 18) False (Some ''0''),
      col ''maker_fee'' (Numeric 36 18) False (Some ''0''),
      col ''executed_at'' DateTime False (Some ''now()'')],
    td_pk = (''pk_trades'', ''id''),
    td_uniques = [],
    td_fkeys = [fkey ''taker_order_id'' ''orders'' ''id'' (Some ''RESTRICT''),
      fkey ''maker_order_id'' ''orders'' ''id'' (Some ''RESTRICT''),
      fkey ''symbol'' ''trading_pairs'' ''symbol'' None,
      fkey ''taker_user_id'' ''users'' ''id'' None,
      fkey ''maker_user_id'' ''users'' ''id'' None]\<rparr>"

definition steps :: "('db, migration_error, unit) prog list \<Rightarrow> ('db, migration_error, unit) prog" where
  "steps ms = forP ms id"

definition create_tables :: "'db ddl_ops \<Rightarrow> ('db, migration_error, unit) prog" where
  "create_tables D = steps [
     op_create_table D users_table, op_create_index D ''ix_users_email'' ''users'' [''email''] True,
     op_create_table D api_keys_table, op_create_index D ''ix_api_keys_api_key'' ''api_keys'' [''api_key''] True,
     op_create_index D ''ix_api_keys_user_id'' ''api_keys'' [''user_id''] False,
     op_create_table D balances_table, op_create_index D ''ix_balances_user_asset'' ''balances'' [''user_id'', ''asset''] False,
     op_create_table D trading_pairs_table, op_create_index D ''ix_trading_pairs_symbol'' ''trading_pairs'' [''symbol''] True,
     op_create_table D orders_table, op_create_index D ''ix_orders_user_symbol_status'' ''orders'' [''user_id'', ''symbol'', ''status''] False,
     op_create_index D ''ix_orders_status_symbol'' ''orders'' [''status'', ''symbol''] False,
     op_create_index D ''ix_orders_parent_id'' ''orders'' [''parent_order_id''] False,
     op_create_index D ''ix_orders_bulk_id'' ''orders'' [''bulk_id''] False,
     op_create_index D ''ix_orders_replaces_id'' ''orders'' [''replaces_id''] False,
     op_create_table D trades_table, op_create_index D ''ix_trades_symbol_executed_at'' ''trades'' [''symbol'', ''executed_at''] False,
     op_create_index D ''ix_trades_taker_user_id'' ''trades'' [''taker_user_id''] False,
     op_create_index D ''ix_trades_maker_user_id'' ''trades'' [''maker_user_id''] False,
     op_create_index D ''ix_trades_taker_order_id'' ''trades'' [''taker_order_id''] False]"

definition upgrade :: "'db ddl_ops \<Rightarrow> bool \<Rightarrow> ('db, migration_error, unit) prog" where
  "upgrade D is_offline_mode = seqP (steps [op_create_enum D (\<not> is_offline_mode) ORDERSIDE, op_create_enum D (\<not> is_offline_mode) ORDERTYPE,
     op_create_enum D (\<not> is_offline_mode) ORDERSTATUS]) (create_tables D)"

definition downgrade :: "'db ddl_ops \<Rightarrow> bool \<Rightarrow> ('db, migration_error, unit) prog" where
  "downgrade D is_offline_mode = steps [
     op_drop_index D ''ix_trades_taker_order_id'' ''trades'', op_drop_index D ''ix_trades_maker_user_id'' ''trades'',
     op_drop_index D ''ix_trades_taker_user_id'' ''trades'', op_drop_index D ''ix_trades_symbol_executed_at'' ''trades'', op_drop_table D ''trades'',
     op_drop_index D ''ix_orders_replaces_id'' ''orders'', op_drop_index D ''ix_orders_bulk_id'' ''orders'', op_drop_index D ''ix_orders_parent_id'' ''orders'',
     op_drop_index D ''ix_orders_status_symbol'' ''orders'', op_drop_index D ''ix_orders_user_symbol_status'' ''orders'', op_drop_table D ''orders'',
     op_drop_index D ''ix_trading_pairs_symbol'' ''trading_pairs'', op_drop_table D ''trading_pairs'',
     op_drop_index D ''ix_balances_user_asset'' ''balances'', op_drop_table D ''balances'',
     op_drop_index D ''ix_api_keys_user_id'' ''api_keys'', op_drop_index D ''ix_api_keys_api_key'' ''api_keys'', op_drop_table D ''api_keys'',
     op_drop_index D ''ix_users_email'' ''users'', op_drop_table D ''users'',
     op_drop_enum D (\<not> is_offline_mode) ''orderstatus'', op_drop_enum D (\<not> is_offline_mode) ''ordertype'', op_drop_enum D (\<not> is_offline_mode) ''orderside'']"

subsection \<open>The metadata of the models\<close>

text \<open>
  What the mapped classes declare, with the indexes of \<open>index=True\<close> columns and of \<open>__table_args__\<close>. Constraints without a name have the
  empty one; a column that is unique and indexed gets one unique index. Defaults that the ORM fills in are not part of it.
\<close>

definition user_model :: "table_def \<times> index_def list" where
  "user_model = (\<lparr>td_name = ''users'', td_columns = [
      col ''id'' BigInteger False None,
      col ''email'' (String 255) False None,
      col ''password_hash'' (String 255) False None,
      col ''is_active'' Boolean False None,
      col ''is_admin'' Boolean False None,
      col ''created_at'' DateTime False (Some ''now()''),
      col ''updated_at'' DateTime False (Some ''now()'')],
    td_pk = ([], ''id''), td_uniques = [],
    td_fkeys = []\<rparr>,
    [index ''ix_users_email'' ''users'' [''email''] True])"

definition api_key_model :: "table_def \<times> index_def list" where
  "api_key_model = (\<lparr>td_name = ''api_keys'', td_columns = [
      col ''id'' BigInteger False None,
      col ''user_id'' BigInteger False None,
      col ''api_key'' (String 64) False None,
      col ''secret_hash'' (String 255) False None,
      col ''label'' (String 100) True None,
      col ''permissions'' TextArray False None,
      col ''rate_limit_per_min'' Integer False None,
      col ''is_revoked'' Boolean False None,
      col ''created_at'' DateTime False (Some ''now()''),
      col ''last_used_at'' DateTime True None,
      col ''expires_at'' DateTime True None],
    td_pk = ([], ''id''), td_uniques = [],
    td_fkeys = [fkey ''user_id'' ''users'' ''id'' (Some ''CASCADE'')]\<rparr>,
    [index ''ix_api_keys_user_id'' ''api_keys'' [''user_id''] False,
     index ''ix_api_keys_api_key'' ''api_keys'' [''api_key''] True])"

definition balance_model :: "table_def \<times> index_def list" where
  "balance_model = (\<lparr>td_name = ''balances'', td_columns = [
      col ''id'' BigInteger False None,
      col ''user_id'' BigInteger False None,
      col ''asset'' (String 20) False None,
      col ''total_balance'' (Numeric 36 18) False None,
      col ''locked_balance'' (Numeric 36 18) False None,
      col ''available_balance'' (Numeric 36 18) False None,
      col ''version'' BigInteger False None,
      col ''updated_at'' DateTime False (Some ''now()'')],
    td_pk = ([], ''id''), td_uniques = [(''uq_balances_user_asset'', [''user_id'', ''asset''])],
    td_fkeys = [fkey ''user_id'' ''users'' ''id'' (Some ''CASCADE'')]\<rparr>,
    [index ''ix_balances_user_asset'' ''balances'' [''user_id'', ''asset''] False])"

definition trading_pair_model :: "table_def \<times> index_def list" where
  "trading_pair_model = (\<lparr>td_name = ''trading_pairs'', td_columns = [
      col ''id'' Integer False None,
      col ''symbol'' (String 20) False None,
      col ''base_asset'' (String 20) False None,
      col ''quote_asset'' (String 20) False None,
      col ''price_precision'' Integer False None,
      col ''quantity_precision'' Integer False None,
      col ''min_lot_size'' (Numeric 36 18) False None,
      col ''max_lot_size'' (Numeric 36 18) False None,
      col ''tick_size'' (Numeric 36 18) False None,
      col ''maker_fee_bps'' (Numeric 10 6) False None,
      col ''taker_fee_bps'' (Numeric 10 6) False None,
      col ''is_active'' Boolean False None,
      col ''created_at'' DateTime False (Some ''now()'')],
    td_pk = ([], ''id''), td_uniques = [],
    td_fkeys = []\<rparr>,
    [index ''ix_trading_pairs_symbol'' ''trading_pairs'' [''symbol''] True])"

definition order_model :: "table_def \<times> index_def list" where
  "order_model = (\<lparr>td_name = ''orders'', td_columns = [
      col ''id'' BigInteger False None,
      col ''user_id'' BigInteger False None,
      col ''symbol'' (String 20) False None,
      col ''side'' (Enum ''orderside'') False None,
      col ''type'' (Enum ''ordertype'') False None,
      col ''status'' (Enum ''orderstatus'') False None,
      col ''price'' (Numeric 36 18) True None,
      col ''stop_price'' (Numeric 36 18) True None,
      col ''trailing_delta'' (Numeric 36 18) True None,
      col ''quantity'' (Numeric 36 18) False None,
      col ''filled_quantity'' (Numeric 36 18) False None,
      col ''filled_quote_qty'' (Numeric 36 18) False None,
      col ''visible_quantity'' (Numeric 36 18) True None,
      col ''hidden_quantity'' (Numeric 36 18) True None,
      col ''replace_count'' Integer False None,
      col ''replaces_id'' BigInteger True None,
      col ''replaced_by_id'' BigInteger True None,
      col ''parent_order_id'' BigInteger True None,
      col ''sl_order_id'' BigInteger True None,
      col ''tp_order_id'' BigInteger True None,
      col ''bulk_id'' (String 36) True None,
      col ''created_at'' DateTime False (Some ''now()''),
      col ''updated_at'' DateTime False (Some ''now()''),
      col ''version'' BigInteger False None],
    td_pk = ([], ''id''), td_uniques = [],
    td_fkeys = [fkey ''user_id'' ''users'' ''id'' (Some ''CASCADE''),
      fkey ''symbol'' ''trading_pairs'' ''symbol'' None,
      fkey ''replaces_id'' ''orders'' ''id'' None,
      fkey ''replaced_by_id'' ''orders'' ''id'' None,
      fkey ''parent_order_id'' ''orders'' ''id'' None,
      fkey ''sl_order_id'' ''orders'' ''id'' None,
      fkey ''tp_order_id'' ''orders'' ''id'' None]\<rparr>,
    [index ''ix_orders_user_symbol_status'' ''orders'' [''user_id'', ''symbol'', ''status''] False,
     index ''ix_orders_status_symbol'' ''orders'' [''status'', ''symbol''] False,
     index ''ix_orders_parent_id'' ''orders'' [''parent_order_id''] False,
     index ''ix_orders_bulk_id'' ''orders'' [''bulk_id''] False,
     index ''ix_orders_replaces_id'' ''orders'' [''replaces_id''] False])"

definition trade_model :: "table_def \<times> index_def list" where
  "trade_model = (\<lparr>td_name = ''trades'', td_columns = [
      col ''id'' BigInteger False None,
      col ''taker_order_id'' BigInteger False None,
      col ''maker_order_id'' BigInteger False None,
      col ''symbol'' (String 20) False None,
      col ''price'' (Numeric 36 18) False None,
      col ''quantity'' (Numeric 36 18) False None,
      col ''quote_quantity'' (Numeric 36 18) False None,
      col ''side'' (Enum ''orderside'') False None,
      col ''taker_user_id'' BigInteger False None,
      col ''maker_user_id'' BigInteger False None,
      col ''taker_fee'' (Numeric 36 18) False None,
      col ''maker_fee'' (Numeric 36 18) False None,
      col ''executed_at'' DateTime False (Some ''now()'')],
    td_pk = ([], ''id''), td_uniques = [],
    td_fkeys = [fkey ''taker_order_id'' ''orders'' ''id'' (Some ''RESTRICT''),
      fkey ''maker_order_id'' ''orders'' ''id'' (Some ''RESTRICT''),
      fkey ''symbol'' ''trading_pairs'' ''symbol'' None,
      fkey ''taker_user_id'' ''users'' ''id'' None,
      fkey ''maker_user_id'' ''users'' ''id'' None]\<rparr>,
    [index ''ix_trades_symbol_executed_at'' ''trades'' [''symbol'', ''executed_at''] False,
     index ''ix_trades_taker_user_id'' ''trades'' [''taker_user_id''] False,
     index ''ix_trades_maker_user_id'' ''trades'' [''maker_user_id''] False,
     index ''ix_trades_taker_order_id'' ''trades'' [''taker_order_id''] False])"

definition models :: "(table_def \<times> index_def list) list" where
  "models = [user_model, api_key_model, balance_model, trading_pair_model, order_model, trade_model]"

subsection \<open>Operations keep a schema well formed\<close>

definition table_wf :: "schema \<Rightarrow> table_def \<Rightarrow> bool" where
  "table_wf db t \<longleftrightarrow> distinct (column_names t) \<and> snd (td_pk t) \<in> set (column_names t) \<and>
     (\<forall>u\<in>set (td_uniques t). set (snd u) \<subseteq> set (column_names t)) \<and>
     (\<forall>c\<in>set (td_columns t). type_known db (cl_type c)) \<and> (\<forall>f\<in>set (td_fkeys t). fkey_ok db t f)"

definition index_wf :: "schema \<Rightarrow> index_def \<Rightarrow> bool" where
  "index_wf db i \<longleftrightarrow> (case find_table (ix_table i) db of None \<Rightarrow> False | Some t \<Rightarrow> set (ix_columns i) \<subseteq> set (column_names t))"

definition schema_ok :: "schema \<Rightarrow> bool" where
  "schema_ok db \<longleftrightarrow> distinct (relation_names db) \<and> distinct (map fst (db_types db)) \<and>
     (\<forall>t\<in>set (db_tables db). table_wf db t) \<and> (\<forall>i\<in>set (db_indexes db). index_wf db i)"

lemma relation_names_types [simp]: "relation_names (db\<lparr>db_types := ts\<rparr>) = relation_names db"
  "find_table n (db\<lparr>db_types := ts\<rparr>) = find_table n db" "unique_column (db\<lparr>db_types := ts\<rparr>) = unique_column db"
  "fkey_ok (db\<lparr>db_types := ts\<rparr>) = fkey_ok db" "index_wf (db\<lparr>db_types := ts\<rparr>) = index_wf db"
  by (simp_all add: relation_names_def find_table_def unique_column_def fkey_ok_def index_wf_def fun_eq_iff split: option.split)

lemma table_wf_mono:
  "table_wf db t \<Longrightarrow> (\<And>c. c \<in> set (td_columns t) \<Longrightarrow> type_known db (cl_type c) \<Longrightarrow> type_known db1 (cl_type c)) \<Longrightarrow>
    (\<And>f. f \<in> set (td_fkeys t) \<Longrightarrow> fkey_ok db t f \<Longrightarrow> fkey_ok db1 t f) \<Longrightarrow> table_wf db1 t"
  by (simp add: table_wf_def)

lemma type_known_other [simp]: "type_known (db\<lparr>db_tables := ts\<rparr>) = type_known db" "type_known (db\<lparr>db_indexes := is\<rparr>) = type_known db"
  by (simp_all add: type_known_def fun_eq_iff split: column_type.split)

lemma preserves_create_enum: "preserves schema_ok (create_enum b ty)"
proof (rule preservesI)
  fix db assume ok: "schema_ok db"
  have "schema_ok (db\<lparr>db_types := db_types db @ [ty]\<rparr>)" if "fst ty \<notin> set (map fst (db_types db))"
  proof -
    have "table_wf (db\<lparr>db_types := db_types db @ [ty]\<rparr>) t" if "t \<in> set (db_tables db)" for t
      using ok that by - (rule table_wf_mono [of db]; auto simp: schema_ok_def type_known_def split: column_type.splits)
    then show ?thesis using ok that by (simp add: schema_ok_def)
  qed
  then show "schema_ok (snd (create_enum b ty db))" using ok by (simp add: create_enum_def prog_defs)
qed

lemma preserves_drop_enum: "preserves schema_ok (drop_enum b n)"
proof (rule preservesI)
  fix db assume ok: "schema_ok db"
  let ?db = "db\<lparr>db_types := filter (\<lambda>ty. fst ty \<noteq> n) (db_types db)\<rparr>"
  have "schema_ok ?db" if unused: "\<forall>t\<in>set (db_tables db). Enum n \<notin> cl_type ` set (td_columns t)"
  proof -
    have "table_wf ?db t" if "t \<in> set (db_tables db)" for t
    proof (rule table_wf_mono [of db])
      fix c assume c: "c \<in> set (td_columns t)" "type_known db (cl_type c)"
      then have "cl_type c \<noteq> Enum n" using unused that by force
      then show "type_known ?db (cl_type c)" using c(2) by (auto simp: type_known_def image_iff split: column_type.splits)
    qed (use ok that in \<open>simp_all add: schema_ok_def\<close>)
    then show ?thesis using ok by (simp add: schema_ok_def distinct_map_filter)
  qed
  then show "schema_ok (snd (drop_enum b n db))" using ok by (auto simp: drop_enum_def prog_defs)
qed

lemma find_table_name: "find_table n db = Some t \<Longrightarrow> td_name t = n \<and> t \<in> set (db_tables db)"
  unfolding find_table_def by (auto dest: find_SomeD)

lemma find_table_relation: "n \<notin> set (relation_names db) \<Longrightarrow> find_table n db = None"
  by (auto simp: find_table_def relation_names_def own_names_def find_None_iff)

lemma unique_column_tables [simp]: "unique_column (db\<lparr>db_tables := ts\<rparr>) = unique_column db"
  by (simp add: unique_column_def fun_eq_iff)

lemma find_snoc: "find P (xs @ [x]) = (case find P xs of Some r \<Rightarrow> Some r | None \<Rightarrow> if P x then Some x else None)"
  by (induction xs) auto

lemma find_table_add:
  "find_table n (db\<lparr>db_tables := db_tables db @ [t]\<rparr>) = (case find_table n db of Some r \<Rightarrow> Some r | None \<Rightarrow> if td_name t = n then Some t else None)"
  unfolding find_table_def using find_snoc [of _ "db_tables db" t] by simp

lemma preserves_create_table: "preserves schema_ok (create_table t)"
proof (rule preservesI)
  fix db assume ok: "schema_ok db"
  let ?db = "db\<lparr>db_tables := db_tables db @ [t]\<rparr>"
  have "schema_ok ?db" if new: "distinct (own_names t)" "\<forall>n\<in>set (own_names t). n \<notin> set (relation_names db)" "distinct (column_names t)"
    "snd (td_pk t) \<in> set (column_names t)" "\<forall>u\<in>set (td_uniques t). set (snd u) \<subseteq> set (column_names t)"
    "\<forall>c\<in>set (td_columns t). type_known db (cl_type c)" "\<forall>f\<in>set (td_fkeys t). fkey_ok db t f"
  proof -
    have none: "find_table (td_name t) db = None" using new(2) by (simp add: find_table_relation own_names_def)
    have fk: "fkey_ok db r f \<Longrightarrow> fkey_ok ?db r f" for r f
      by (auto simp: fkey_ok_def find_table_add split: option.splits if_splits)
    have "distinct (relation_names ?db)"
      using ok new(1,2) by (auto simp: schema_ok_def relation_names_def)
    moreover have "table_wf ?db r" if "r \<in> set (db_tables db)" for r
      using ok that fk by - (rule table_wf_mono [of db]; simp_all add: schema_ok_def)
    moreover have "table_wf ?db t" using new(3-7) fk by (simp add: table_wf_def)
    moreover have "index_wf ?db i" if "i \<in> set (db_indexes db)" for i
      using ok that by (auto simp: schema_ok_def index_wf_def find_table_add split: option.splits)
    ultimately show ?thesis using ok by (simp add: schema_ok_def)
  qed
  then show "schema_ok (snd (create_table t db))" using ok by (auto simp: create_table_def prog_defs list_all_iff)
qed

lemma table_names_distinct: "schema_ok db \<Longrightarrow> distinct (map td_name (db_tables db))"
proof -
  have "distinct (concat (map own_names ts)) \<Longrightarrow> distinct (map td_name ts)" for ts
    by (induction ts) (auto simp: own_names_def)
  then show "schema_ok db \<Longrightarrow> distinct (map td_name (db_tables db))" by (simp add: schema_ok_def relation_names_def)
qed

lemma distinct_own_filter: "distinct (concat (map own_names ts) @ map ix_name is) \<Longrightarrow>
  distinct (concat (map own_names (filter P ts)) @ map ix_name (filter Q is))"
proof -
  have "set (concat (map own_names (filter P ts))) \<subseteq> set (concat (map own_names ts))" by auto
  moreover have "distinct (concat (map own_names ts)) \<Longrightarrow> distinct (concat (map own_names (filter P ts)))" by (induction ts) auto
  ultimately show "distinct (concat (map own_names ts) @ map ix_name is) \<Longrightarrow>
    distinct (concat (map own_names (filter P ts)) @ map ix_name (filter Q is))"
    by (auto simp: distinct_map_filter)
qed

lemma preserves_drop_table: "preserves schema_ok (drop_table n)"
proof (rule preservesI)
  fix db assume ok: "schema_ok db"
  let ?db = "db\<lparr>db_tables := filter (\<lambda>t. td_name t \<noteq> n) (db_tables db), db_indexes := filter (\<lambda>i. ix_table i \<noteq> n) (db_indexes db)\<rparr>"
  have find: "find_table m ?db = find_table m db" if "m \<noteq> n" for m
  proof -
    have "find (\<lambda>t. td_name t = m) (filter (\<lambda>t. td_name t \<noteq> n) ts) = find (\<lambda>t. td_name t = m) ts" for ts
      using that by (induction ts) auto
    then show ?thesis by (simp add: find_table_def)
  qed
  have uniq: "unique_column ?db t c \<longleftrightarrow> unique_column db t c" if "td_name t \<noteq> n" for t c
    using that by (auto simp: unique_column_def)
  have "schema_ok ?db" if unused: "\<forall>t\<in>set (db_tables db). td_name t \<noteq> n \<longrightarrow> n \<notin> fk_table ` set (td_fkeys t)"
  proof -
    have "table_wf ?db t" if t: "t \<in> set (db_tables db)" "td_name t \<noteq> n" for t
    proof (rule table_wf_mono [of db])
      fix f assume f: "f \<in> set (td_fkeys t)" "fkey_ok db t f"
      then have "fk_table f \<noteq> n" using unused t by auto
      then show "fkey_ok ?db t f" using f(2) t(2) find uniq by (auto simp: fkey_ok_def dest: find_table_name split: option.splits if_splits)
    qed (use ok t in \<open>simp_all add: schema_ok_def\<close>)
    moreover have "index_wf ?db i" if "i \<in> set (db_indexes db)" "ix_table i \<noteq> n" for i
      using ok that find by (simp add: schema_ok_def index_wf_def)
    moreover have "distinct (relation_names ?db)"
      using ok distinct_own_filter [of "db_tables db" "db_indexes db" "\<lambda>t. td_name t \<noteq> n" "\<lambda>i. ix_table i \<noteq> n"]
      by (simp add: schema_ok_def relation_names_def)
    ultimately show ?thesis using ok by (simp add: schema_ok_def)
  qed
  then show "schema_ok (snd (drop_table n db))" using ok by (auto simp: drop_table_def prog_defs)
qed

lemma find_table_indexes [simp]: "find_table n (db\<lparr>db_indexes := is\<rparr>) = find_table n db"
  by (simp add: find_table_def)

lemma preserves_create_index: "preserves schema_ok (create_index n t cs u)"
proof (rule preservesI)
  fix db assume ok: "schema_ok db"
  let ?db = "db\<lparr>db_indexes := db_indexes db @ [\<lparr>ix_name = n, ix_table = t, ix_columns = cs, ix_unique = u\<rparr>]\<rparr>"
  have "schema_ok ?db" if new: "n \<notin> set (relation_names db)" "find_table t db = Some r" "set cs \<subseteq> set (column_names r)" for r
  proof -
    have uniq: "unique_column db x c \<Longrightarrow> unique_column ?db x c" for x c by (auto simp: unique_column_def)
    have "table_wf ?db x" if "x \<in> set (db_tables db)" for x
      using ok that uniq by - (rule table_wf_mono [of db]; auto simp: schema_ok_def fkey_ok_def split: option.splits if_splits)
    moreover have "index_wf ?db i" if "i \<in> set (db_indexes ?db)" for i
      using ok that new by (auto simp: schema_ok_def index_wf_def)
    moreover have "distinct (relation_names ?db)" using ok new(1) by (auto simp: schema_ok_def relation_names_def)
    ultimately show ?thesis using ok by (simp add: schema_ok_def)
  qed
  then show "schema_ok (snd (create_index n t cs u db))"
    using ok by (auto simp: create_index_def prog_defs split: option.split)
qed

lemma preserves_drop_index: "preserves schema_ok (drop_index n t)"
proof (rule preservesI)
  fix db assume ok: "schema_ok db"
  let ?db = "db\<lparr>db_indexes := filter (\<lambda>j. ix_name j \<noteq> n) (db_indexes db)\<rparr>"
  let ?targets = "set (concat (map (\<lambda>t. map (\<lambda>f. (fk_table f, [fk_ref f])) (td_fkeys t)) (db_tables db)))"
  have "schema_ok ?db" if i: "i \<in> set (db_indexes db)" "ix_name i = n" "ix_table i = t" "\<not> (ix_unique i \<and> (t, ix_columns i) \<in> ?targets)" for i
  proof -
    have only: "j = i" if "j \<in> set (db_indexes db)" "ix_name j = n" for j
      using ok that i(1,2) by (auto simp: schema_ok_def relation_names_def distinct_map inj_on_def)
    have uniq: "unique_column ?db r c" if "unique_column db r c" "(td_name r, [c]) \<in> ?targets" for r c
    proof -
      have "ix_name j \<noteq> n" if "j \<in> set (db_indexes db)" "ix_table j = td_name r" "ix_columns j = [c]" "ix_unique j" for j
        using only [OF that(1)] that(2-4) i(3,4) \<open>(td_name r, [c]) \<in> ?targets\<close> by auto
      then show ?thesis using \<open>unique_column db r c\<close> unfolding unique_column_def by auto
    qed
    have "table_wf ?db x" if x: "x \<in> set (db_tables db)" for x
    proof (rule table_wf_mono [of db])
      fix f assume f: "f \<in> set (td_fkeys x)" "fkey_ok db x f"
      then have "(fk_table f, [fk_ref f]) \<in> ?targets" using x by force
      then have "unique_column db r (fk_ref f) \<Longrightarrow> td_name r = fk_table f \<Longrightarrow> unique_column ?db r (fk_ref f)" for r
        using uniq [of r "fk_ref f"] by simp
      then show "fkey_ok ?db x f" using f(2) by (auto simp: fkey_ok_def dest: find_table_name split: option.splits if_splits)
    qed (use ok x in \<open>simp_all add: schema_ok_def\<close>)
    moreover have "index_wf ?db j" if "j \<in> set (db_indexes db)" for j
      using ok that by (simp add: schema_ok_def index_wf_def)
    moreover have "distinct (relation_names ?db)"
      using ok distinct_own_filter [of "db_tables db" "db_indexes db" "\<lambda>t. True"] by (simp add: schema_ok_def relation_names_def)
    ultimately show ?thesis using ok by (simp add: schema_ok_def)
  qed
  then show "schema_ok (snd (drop_index n t db))"
    using ok by (auto simp: drop_index_def prog_defs dest: find_SomeD split: option.split)
qed

subsection \<open>Properties of the migration\<close>

lemma simulates_seq: "simulates c m n \<Longrightarrow> simulates c m' n' \<Longrightarrow> simulates c (seqP m m') (seqP n n')"
  by (auto simp: simulates_def seqP_def bindP_def split: prod.split sum.split) (metis fst_conv snd_conv sum.inject sum.distinct)+

lemma simulates_ret: "simulates c (retP x) (retP x)"
  by (simp add: simulates_def retP_def)

lemma simulates_steps: "list_all2 (simulates c) ms ns \<Longrightarrow> simulates c (steps ms) (steps ns)"
  unfolding steps_def by (induction rule: list_all2_induct) (simp_all add: simulates_seq simulates_ret)

context ddl_server
begin

lemmas sims = create_enum_sim drop_enum_sim create_table_sim drop_table_sim create_index_sim drop_index_sim

lemma upgrade_sim: "simulates catalog (upgrade D off) (upgrade catalog_ddl off)"
  unfolding upgrade_def create_tables_def by (intro simulates_seq simulates_steps) (simp_all add: catalog_ddl_def sims)

lemma downgrade_sim: "simulates catalog (downgrade D off) (downgrade catalog_ddl off)"
  unfolding downgrade_def by (intro simulates_steps) (simp add: catalog_ddl_def sims)

lemma upgrade_result: "upgrade catalog_ddl off (catalog db) = (r, c) \<Longrightarrow> \<exists>db'. upgrade D off db = (r, db') \<and> catalog db' = c"
  using upgrade_sim [of off] unfolding simulates_def by (metis fst_conv prod.collapse snd_conv)

lemma downgrade_result: "downgrade catalog_ddl off (catalog db) = (r, c) \<Longrightarrow> \<exists>db'. downgrade D off db = (r, db') \<and> catalog db' = c"
  using downgrade_sim [of off] unfolding simulates_def by (metis fst_conv prod.collapse snd_conv)

end

lemmas migration_intros = preserves_create_enum preserves_drop_enum preserves_create_table preserves_drop_table
  preserves_create_index preserves_drop_index

lemma migration_preserves: "preserves schema_ok (upgrade catalog_ddl off)" "preserves schema_ok (downgrade catalog_ddl off)"
  unfolding upgrade_def create_tables_def downgrade_def steps_def
  by (simp_all add: catalog_ddl_def preserves_seq preserves_ret migration_intros)

text \<open>
  Upgrade and downgrade keep a schema well formed, on either exit and from whatever schema they start: names of
  tables, constraints and indexes stay unique, every foreign key refers to a unique column of a table that exists, every
  enum column has its type and every index its columns.
\<close>

theorem migration_keeps_schema:
  assumes "ddl_server D catalog" and "schema_ok (catalog db)"
  shows "schema_ok (catalog (snd (upgrade D offline db))) \<and> schema_ok (catalog (snd (downgrade D offline db)))"
  using ddl_server.upgrade_sim [OF assms(1)] ddl_server.downgrade_sim [OF assms(1)] migration_preserves [of offline] assms(2)
  by (simp add: simulates_def preserves_def)

definition current_schema :: schema where
  "current_schema = snd (upgrade catalog_ddl False empty_schema)"

lemma create_enums_run:
  assumes "ts \<in> {[], [ORDERSIDE], [ORDERSIDE, ORDERTYPE], [ORDERSIDE, ORDERTYPE, ORDERSTATUS]}" and "off \<Longrightarrow> ts = []"
  shows "upgrade catalog_ddl off (empty_schema\<lparr>db_types := ts\<rparr>) =
    create_tables catalog_ddl (empty_schema\<lparr>db_types := [ORDERSIDE, ORDERTYPE, ORDERSTATUS]\<rparr>)"
  using assms by (auto simp: upgrade_def steps_def catalog_ddl_def create_enum_def prog_defs ORDERSIDE_def ORDERTYPE_def ORDERSTATUS_def empty_schema_def)

lemma create_tables_ok: "fst (create_tables catalog_ddl (empty_schema\<lparr>db_types := [ORDERSIDE, ORDERTYPE, ORDERSTATUS]\<rparr>)) = Inr ()"
  by code_simp

lemma current_schema_eq:
  "create_tables catalog_ddl (empty_schema\<lparr>db_types := [ORDERSIDE, ORDERTYPE, ORDERSTATUS]\<rparr>) = (Inr (), current_schema)"
  using create_enums_run [of "[]" False] create_tables_ok
  by (metis current_schema_def empty_schema_def insertI1 prod.collapse schema.update_convs(1))

lemma upgrade_run:
  assumes "off \<Longrightarrow> n = 0"
  shows "upgrade catalog_ddl off (empty_schema\<lparr>db_types := take n [ORDERSIDE, ORDERTYPE, ORDERSTATUS]\<rparr>) = (Inr (), current_schema)"
proof -
  consider "n = 0" | "n = 1" | "n = 2" | "3 \<le> n" by linarith
  then have "take n [ORDERSIDE, ORDERTYPE, ORDERSTATUS] \<in> {[], [ORDERSIDE], [ORDERSIDE, ORDERTYPE], [ORDERSIDE, ORDERTYPE, ORDERSTATUS]}"
    by cases (simp_all add: numeral_2_eq_2)
  from create_enums_run [OF this, of off] assms show ?thesis by (auto simp: current_schema_eq)
qed

lemma downgrade_run: "downgrade catalog_ddl off current_schema = (Inr (), empty_schema)"
  by (cases off) code_simp+

text \<open>
  C22. The migration is reversible and can be resumed: on an empty database, or online on one where an earlier attempt has
  created some of the enum types, the upgrade succeeds, always with the same schema, and the downgrade then succeeds and
  leaves an empty database.
\<close>

theorem migration_roundtrip:
  assumes "ddl_server D catalog" and "catalog db = empty_schema\<lparr>db_types := take n [ORDERSIDE, ORDERTYPE, ORDERSTATUS]\<rparr>"
    and "offline \<longrightarrow> n = 0"
  shows "\<exists>db1 db2. upgrade D offline db = (Inr (), db1) \<and> catalog db1 = current_schema \<and>
    downgrade D offline2 db1 = (Inr (), db2) \<and> catalog db2 = empty_schema"
proof -
  obtain db1 where 1: "upgrade D offline db = (Inr (), db1)" "catalog db1 = current_schema"
    using ddl_server.upgrade_result [OF assms(1)] upgrade_run [of offline n] assms(2,3) by metis
  obtain db2 where "downgrade D offline2 db1 = (Inr (), db2)" "catalog db2 = empty_schema"
    using ddl_server.downgrade_result [OF assms(1)] downgrade_run [of offline2] 1(2) by metis
  with 1 show ?thesis by blast
qed

definition shape :: "table_def \<Rightarrow> string \<times> (string \<times> column_type \<times> bool) list \<times> string \<times> foreign_key list" where
  "shape t = (td_name t, map (\<lambda>c. (cl_name c, cl_type c, cl_nullable c)) (td_columns t), snd (td_pk t), td_fkeys t)"


subsection \<open>Texts and their columns\<close>

definition fits :: "schema \<Rightarrow> string \<Rightarrow> string \<Rightarrow> string \<Rightarrow> bool" where
  "fits db table column s = (case find_table table db of
     None \<Rightarrow> False
   | Some t \<Rightarrow> (case find (\<lambda>c. cl_name c = column) (td_columns t) of
       None \<Rightarrow> False
     | Some c \<Rightarrow> (case cl_type c of String n \<Rightarrow> length s \<le> n | _ \<Rightarrow> False)))"

lemma current_limits:
  "fits current_schema ''orders'' ''symbol'' s \<longleftrightarrow> length s \<le> 20" "fits current_schema ''orders'' ''bulk_id'' s \<longleftrightarrow> length s \<le> 36"
  "fits current_schema ''users'' ''email'' s \<longleftrightarrow> length s \<le> 255" "fits current_schema ''trading_pairs'' ''symbol'' s \<longleftrightarrow> length s \<le> 20"
  "fits current_schema ''trading_pairs'' ''base_asset'' s \<longleftrightarrow> length s \<le> 20" "fits current_schema ''api_keys'' ''label'' s \<longleftrightarrow> length s \<le> 100"
proof -
  have t: "map_option td_columns (find_table ''orders'' current_schema) = Some (td_columns orders_table)"
    "map_option td_columns (find_table ''users'' current_schema) = Some (td_columns users_table)"
    "map_option td_columns (find_table ''trading_pairs'' current_schema) = Some (td_columns trading_pairs_table)"
    "map_option td_columns (find_table ''api_keys'' current_schema) = Some (td_columns api_keys_table)" by code_simp+
  show "fits current_schema ''orders'' ''symbol'' s \<longleftrightarrow> length s \<le> 20" "fits current_schema ''orders'' ''bulk_id'' s \<longleftrightarrow> length s \<le> 36"
    "fits current_schema ''users'' ''email'' s \<longleftrightarrow> length s \<le> 255" "fits current_schema ''trading_pairs'' ''symbol'' s \<longleftrightarrow> length s \<le> 20"
    "fits current_schema ''trading_pairs'' ''base_asset'' s \<longleftrightarrow> length s \<le> 20" "fits current_schema ''api_keys'' ''label'' s \<longleftrightarrow> length s \<le> 100"
    using t by (auto simp: fits_def orders_table_def users_table_def trading_pairs_table_def api_keys_table_def col_def split: option.splits)
qed

lemma list_all2_source: "list_all2 P xs ys \<Longrightarrow> y \<in> set ys \<Longrightarrow> \<exists>x. P x y"
  by (induction rule: list_all2_induct) auto

text \<open>
  What validation lets through fits its column: the symbol of every order of a bulk request and the id of the
  bulk in \<open>orders\<close>, the login of a registration in \<open>users\<close>, the symbol of a new pair in \<open>trading_pairs\<close>. So none of these texts makes an
  insert fail.
\<close>

theorem validated_texts_fit:
  assumes "OrderBulkCreateRequest raw_id raws = Inr (bulk_id, reqs)" and "r \<in> set reqs"
    and "RegisterRequest raw_login raw_password = Inr (name, password)" and "valid_pair_request p"
  shows "fits current_schema ''orders'' ''symbol'' (rc_symbol r) \<and> (\<forall>b. bulk_id = Some b \<longrightarrow> fits current_schema ''orders'' ''bulk_id'' b) \<and>
    fits current_schema ''users'' ''email'' name \<and> fits current_schema ''trading_pairs'' ''symbol'' (p_symbol p)"
proof -
  have v: "validate_each raws = Inr reqs" and b: "max_length 36 bulk_id"
    using assms(1) by (simp_all add: OrderBulkCreateRequest_def Let_def bind_result_Inr split: if_splits)
  obtain raw where "OrderCreateRequest raw = Inr r" using list_all2_source [OF validate_each_Inr [OF v] assms(2)] by blast
  then have "length (rc_symbol r) \<le> 20" by (auto simp: OrderCreateRequest_def Let_def split: if_splits)
  moreover have "length name \<le> 255" using assms(3) by (auto simp: RegisterRequest_def credentials_def Let_def split: if_splits)
  ultimately show ?thesis using b assms(4) by (simp add: current_limits max_length_def valid_pair_request_def split: option.splits)
qed

text \<open>
  Not every text an admin sends is checked: a pair with an asset name longer than its column passes validation.
\<close>

theorem long_asset_passes_validation:
  "\<exists>p. valid_pair_request p \<and> \<not> fits current_schema ''trading_pairs'' ''base_asset'' (p_base_asset p)"
proof (intro exI conjI)
  let ?p = "btc_usd\<lparr>p_base_asset := replicate 21 CHR ''A''\<rparr>"
  show "valid_pair_request ?p" by (simp add: valid_pair_request_def btc_usd_def)
  show "\<not> fits current_schema ''trading_pairs'' ''base_asset'' (p_base_asset ?p)" by (simp add: current_limits)
qed

lemma empty_ok: "schema_ok empty_schema"
  by (simp add: schema_ok_def empty_schema_def relation_names_def)

theorem migration_keeps_schema_witness: "schema_ok empty_schema \<and> schema_ok current_schema"
  using migration_keeps_schema [OF catalog_only.ddl_server_axioms, of empty_schema False] empty_ok by (simp add: current_schema_def)

theorem migration_roundtrip_witness: "\<exists>db. downgrade catalog_ddl False current_schema = (Inr (), db) \<and> db = empty_schema"
  using migration_roundtrip [OF catalog_only.ddl_server_axioms, of "empty_schema\<lparr>db_types := [ORDERSIDE]\<rparr>" 1 False False] by simp

theorem validated_texts_fit_witness:
  "let r = raw_limit_buy\<lparr>rc_symbol := ''BTC/USDT''\<rparr> in
   OrderBulkCreateRequest (Some ''b1'') [raw_limit_buy] = Inr (Some ''b1'', [r]) \<and> fits current_schema ''orders'' ''symbol'' (rc_symbol r)"
proof -
  have s: "strip ''b1'' = ''b1''" by code_simp
  have b: "OrderBulkCreateRequest (Some ''b1'') [raw_limit_buy] = Inr (Some ''b1'', [raw_limit_buy\<lparr>rc_symbol := ''BTC/USDT''\<rparr>])"
    by (simp add: OrderBulkCreateRequest_def raw_valid Let_def max_length_def bind_result_def s)
  have l: "RegisterRequest ''user'' ''pass'' = Inr (''user'', ''pass'')" by code_simp
  have p: "valid_pair_request btc_usd" by (simp add: valid_pair_request_def btc_usd_def)
  show ?thesis using validated_texts_fit [OF b _ l p, of "raw_limit_buy\<lparr>rc_symbol := ''BTC/USDT''\<rparr>"] b by simp
qed

end
