(* ===== verification/Worker.thy ===== *)
theory Worker
  imports Order_Service Trade_Service
begin

section \<open>The matching worker\<close>

text \<open>
  \<open>matching/worker.py\<close>: the consumer of \<open>queue:orders\<close>. One action is matched by a reset engine against the makers
  loaded from Redis, its trades are persisted in one transaction, and what remains of the order rests in the book or its
  leftover lock is refunded. The engine the worker holds is the argument \<open>e\<close>. The events published and the
  BRPOP connection are in the theories \<open>Events\<close> and \<open>Connections\<close>.
\<close>

subsection \<open>The payload\<close>

definition truthy_int :: "int option \<Rightarrow> int option" where
  "truthy_int x = (case x of None \<Rightarrow> None | Some v \<Rightarrow> if v = 0 then None else Some v)"

definition from_dict :: "order_action \<Rightarrow> order_action" where
  "from_dict d = d\<lparr>a_stop_price := truthy (a_stop_price d), a_visible_qty := truthy (a_visible_qty d),
     a_hidden_qty := truthy (a_hidden_qty d), a_parent_order_id := truthy_int (a_parent_order_id d),
     a_replaces_id := truthy_int (a_replaces_id d)\<rparr>"

datatype action_result =
    Placed (pr_order_id: int) (pr_outcome: string) (pr_trades: "trade_result list") (pr_remaining: rat) (pr_rejected: bool)
  | Acknowledged string int string

subsection \<open>Matching\<close>

text \<open>Loading the makers stops at the first one the engine does not take.\<close>

fun load_makers :: "book_order list \<Rightarrow> engine \<Rightarrow> (exn, engine) result" where
  "load_makers [] e = Inr e"
| "load_makers (mo # mos) e =
     (case add_passive_order (bo_order_id mo) (if bo_side mo = ''sell'' then 1 else 0) (bo_price mo)
         (if bo_is_iceberg mo then bo_visible_quantity mo else bo_quantity mo) (bo_is_iceberg mo) (bo_visible_quantity mo) e of
       (Inl err, _) \<Rightarrow> Inl err
     | (Inr ok, e1) \<Rightarrow> if ok then load_makers mos e1 else Inr e1)"

text \<open>\<open>int(maker_hash.get("user_id", "0")) if maker_hash else 0\<close>\<close>

definition maker_user :: "(string \<times> hval) list option \<Rightarrow> (exn, int) result" where
  "maker_user maker_hash = (case maker_hash of
     None \<Rightarrow> Inr 0
   | Some h \<Rightarrow> (case map_of h ''user_id'' of
       None \<Rightarrow> Inr 0
     | Some (HNum q) \<Rightarrow> if q = of_int \<lfloor>q\<rfloor> then Inr \<lfloor>q\<rfloor> else Inl (ValueError ''invalid literal for int()'')
     | Some (HStr s) \<Rightarrow> int_str s))"

fun enrich_trades :: "'s redis_ops \<Rightarrow> string \<Rightarrow> trade_result list \<Rightarrow> ('s, (domain_trade \<times> int) list) world_prog" where
  "enrich_trades R symbol [] = retP []"
| "enrich_trades R symbol (t # ts) =
     bindP (redP (get_order_hash R (tr_maker t))) (\<lambda>maker_hash.
     bindP (liftP (maker_user maker_hash)) (\<lambda>maker_user_id.
     bindP (enrich_trades R symbol ts) (\<lambda>rest. retP ((trade_dict_to_domain t symbol, maker_user_id) # rest))))"

text \<open>The transaction of step 6; the result tells whether the pair was found.\<close>

definition persist_trades :: "'s redis_ops \<Rightarrow> order_action \<Rightarrow> trade_result list \<Rightarrow> ('s, bool) world_prog" where
  "persist_trades R payload trades = transactionP
     (bindP (get_by_symbol (a_symbol payload)) (\<lambda>found. case found of
       None \<Rightarrow> retP False
     | Some pair \<Rightarrow>
         bindP (enrich_trades R (a_symbol payload) trades) (\<lambda>enriched_trades.
         bindP (liftP (OrderSide (a_side payload))) (\<lambda>taker_side.
         bindP (liftP (OrderType (a_type payload))) (\<lambda>taker_type.
         bindP (persist_trade_batch R enriched_trades (a_user_id payload) (a_order_id payload) taker_side (a_symbol payload)
             (p_base_asset pair) (p_quote_asset pair)) (\<lambda>_. retP True))))))"

subsection \<open>What remains of the taker\<close>

text \<open>\<open>str(x)\<close> of an optional double.\<close>

definition str_float :: "rat option \<Rightarrow> hval" where
  "str_float x = (case x of None \<Rightarrow> HStr ''None'' | Some v \<Rightarrow> HNum (dec_of_float v))"

definition resting_metadata :: "order_action \<Rightarrow> rat \<Rightarrow> (string \<times> hval) list" where
  "resting_metadata payload remaining =
     [(''order_id'', h_int (a_order_id payload)), (''user_id'', h_int (a_user_id payload)),
      (''symbol'', HStr (a_symbol payload)), (''side'', HStr (a_side payload)), (''type'', HStr (a_type payload)),
      (''price'', (case truthy (a_price payload) of None \<Rightarrow> HStr '''' | Some p \<Rightarrow> HNum (dec_of_float p))),
      (''quantity'', HNum (dec_of_float (a_quantity payload))),
      (''visible_quantity'', if a_is_iceberg payload then str_float (a_visible_qty payload) else HNum (dec_of_float remaining)),
      (''hidden_quantity'', if a_is_iceberg payload then str_float (a_hidden_qty payload) else HStr ''''),
      (''is_iceberg'', HStr (if a_is_iceberg payload then ''1'' else ''0''))]"

definition insert_resting_taker :: "'s redis_ops \<Rightarrow> order_action \<Rightarrow> rat \<Rightarrow> ('s, unit) world_prog" where
  "insert_resting_taker R payload remaining =
     seqP (redP (store_order_hash R (a_order_id payload) (resting_metadata payload remaining)))
    (seqP (redP (add_resting_order R (a_order_id payload) (a_symbol payload) (a_side payload)
        (case truthy (a_price payload) of None \<Rightarrow> 0 | Some p \<Rightarrow> dec_of_float p) []))
     (redP (add_open_order R (a_user_id payload) (a_symbol payload) (a_order_id payload))))"

definition refund_market_buy_leftover :: "order_action \<Rightarrow> ('s, unit) world_prog" where
  "refund_market_buy_leftover payload = transactionP
     (bindP (get_by_symbol (a_symbol payload)) (\<lambda>found. case found of
       None \<Rightarrow> retP ()
     | Some pair \<Rightarrow>
         bindP (balP (get_for_update (a_user_id payload) (p_quote_asset pair))) (\<lambda>bal. case bal of
           None \<Rightarrow> retP ()
         | Some balance \<Rightarrow>
             (if 0 < locked_balance balance then balP (unlock_pessimistic balance (locked_balance balance)) else retP ()))))"

definition publish_orderbook_delta :: "'s redis_ops \<Rightarrow> string \<Rightarrow> ('s, unit) world_prog" where
  "publish_orderbook_delta R symbol = seqP (redP (get_book_snapshot R symbol 20)) (retP ())"

subsection \<open>Handlers\<close>

definition rests :: "order_action \<Rightarrow> rat \<Rightarrow> bool" where
  "rests payload remaining \<longleftrightarrow> 0 < remaining \<and> a_type payload \<in> {''limit'', ''post_only'', ''iceberg''}"

definition refunds :: "order_action \<Rightarrow> rat \<Rightarrow> bool" where
  "refunds payload remaining \<longleftrightarrow> a_side payload = ''buy'' \<and>
     (a_type payload = ''market'' \<or> remaining = 0 \<and> a_type payload \<in> {''limit'', ''stop_limit''})"

text \<open>Step 7 of \<open>_handle_place\<close>.\<close>

definition settle_leftover :: "'s redis_ops \<Rightarrow> order_action \<Rightarrow> rat \<Rightarrow> ('s, unit) world_prog" where
  "settle_leftover R payload remaining =
     (if rests payload remaining then insert_resting_taker R payload remaining
      else if refunds payload remaining then refund_market_buy_leftover payload
      else retP ())"

text \<open>Steps 6 to 8, with the result already computed.\<close>

definition apply_match :: "'s redis_ops \<Rightarrow> order_action \<Rightarrow> trade_result list \<Rightarrow> rat \<Rightarrow> ('s, unit) world_prog" where
  "apply_match R payload trades remaining =
     bindP (if trades \<noteq> [] then persist_trades R payload trades else retP True) (\<lambda>found.
       if \<not> found then retP ()
       else seqP (settle_leftover R payload remaining) (publish_orderbook_delta R (a_symbol payload)))"

definition handle_place :: "'s redis_ops \<Rightarrow> engine \<Rightarrow> order_action \<Rightarrow> ('s, action_result) world_prog" where
  "handle_place R e payload =
     bindP (redP (get_opposite_orders_for_match R (a_symbol payload) (a_side payload) 1000)) (\<lambda>maker_orders.
     bindP (liftP (load_makers maker_orders (reset e))) (\<lambda>e1.
     bindP (liftP (build_corder (a_order_id payload) (a_side payload) (a_type payload) (a_price payload) (a_quantity payload)
         (a_is_iceberg payload) (a_visible_qty payload) (a_hidden_qty payload))) (\<lambda>corder.
     case match_active_order corder e1 of ((trades, outcome_int, remaining), _) \<Rightarrow>
     bindP (liftP (outcome_to_str outcome_int)) (\<lambda>outcome_str.
     let result = Placed (a_order_id payload) outcome_str trades remaining (is_outcome_reject outcome_int) in
     if is_outcome_reject outcome_int then retP result
     else seqP (apply_match R payload trades remaining) (retP result)))))"

definition handle_cancel :: "order_action \<Rightarrow> ('s, action_result) world_prog" where
  "handle_cancel payload = retP (Acknowledged ''cancel'' (a_order_id payload) ''ok'')"

definition handle_modify :: "order_action \<Rightarrow> ('s, action_result) world_prog" where
  "handle_modify payload = retP (Acknowledged ''modify'' (a_order_id payload) ''ok'')"

definition process_action :: "'s redis_ops \<Rightarrow> engine \<Rightarrow> order_action \<Rightarrow> ('s, action_result) world_prog" where
  "process_action R e payload =
     (if a_action payload = ''cancel'' then handle_cancel payload
      else if a_action payload = ''modify'' then handle_modify payload
      else handle_place R e payload)"

text \<open>Decoding and processing a popped item; one of another kind has no key \<open>action\<close>.\<close>

definition process_item :: "'s redis_ops \<Rightarrow> engine \<Rightarrow> queue_item \<Rightarrow> ('s, unit) world_prog" where
  "process_item R e item = (case item of
     Action d \<Rightarrow> seqP (process_action R e (from_dict d)) (retP ())
   | _ \<Rightarrow> raiseP (KeyError ''action''))"

text \<open>
  The body of the loop of \<open>start\<close>: one pop, and an exception of the processing sends the item to the dead-letter queue. The
  result is the item popped.
\<close>

definition worker_step :: "'s redis_ops \<Rightarrow> engine \<Rightarrow> ('s, queue_item option) world_prog" where
  "worker_step R e = bindP (redP (brpop_order_action R)) (\<lambda>raw. case raw of
     None \<Rightarrow> retP None
   | Some item \<Rightarrow>
       seqP (tryP (process_item R e item)
          (\<lambda>err. tryP (redP (enqueue_deadletter R item err ORDERS_QUEUE)) (\<lambda>_. retP ())))
        (retP (Some item)))"

fun run_worker :: "'s redis_ops \<Rightarrow> engine \<Rightarrow> nat \<Rightarrow> ('s, queue_item list) world_prog" where
  "run_worker R e 0 = retP []"
| "run_worker R e (Suc n) = bindP (worker_step R e) (\<lambda>r. bindP (run_worker R e n) (\<lambda>rest.
     retP (case r of None \<Rightarrow> rest | Some item \<Rightarrow> item # rest)))"


subsection \<open>Steps of an action\<close>

text \<open>A reset engine is a fresh one, whatever was matched before.\<close>

lemma reset_fresh: "engine_ok e \<Longrightarrow> reset e = new_engine"
  by (simp add: reset_def new_engine_def engine_ok_def)

lemma reads_get_hash: "reads (get_order_hash R i)"
  unfolding get_order_hash_def by (intro readsI preserves_intros)

lemma enrich_result:
  "enrich_trades R symbol ts w = (Inr es, w1) \<Longrightarrow> w1 = w \<and> map fst es = map (\<lambda>t. trade_dict_to_domain t symbol) ts"
proof (induction ts arbitrary: es w1)
  case Nil
  then show ?case by (simp add: retP_def)
next
  case (Cons t ts)
  from Cons.prems obtain h u rest w2 w3 where "redP (get_order_hash R (tr_maker t)) w = (Inr h, w2)"
    and e: "enrich_trades R symbol ts w2 = (Inr rest, w3)" and es: "es = (trade_dict_to_domain t symbol, u) # rest" "w1 = w3"
    by (auto simp: run_steps)
  then have "w2 = w" using readsD [OF reads_redP [OF reads_get_hash]] by blast
  with Cons.IH [of rest w3] e es show ?case by simp
qed

text \<open>The path of an order that is not rejected, up to the persisted trades.\<close>

lemma handle_place_steps:
  assumes "handle_place R e payload w = (Inr res, w1)"
  obtains makers e1 corder trades outcome_int remaining e2 outcome_str where
    "redP (get_opposite_orders_for_match R (a_symbol payload) (a_side payload) 1000) w = (Inr makers, w)"
    and "load_makers makers (reset e) = Inr e1"
    and "build_corder (a_order_id payload) (a_side payload) (a_type payload) (a_price payload) (a_quantity payload)
         (a_is_iceberg payload) (a_visible_qty payload) (a_hidden_qty payload) = Inr corder"
    and "match_active_order corder e1 = ((trades, outcome_int, remaining), e2)"
    and "res = Placed (a_order_id payload) outcome_str trades remaining (is_outcome_reject outcome_int)"
    and "if is_outcome_reject outcome_int then w1 = w else apply_match R payload trades remaining w = (Inr (), w1)"
proof -
  from assms obtain makers w0 e1 corder where
    g: "redP (get_opposite_orders_for_match R (a_symbol payload) (a_side payload) 1000) w = (Inr makers, w0)"
    and l: "load_makers makers (reset e) = Inr e1"
    and b: "build_corder (a_order_id payload) (a_side payload) (a_type payload) (a_price payload) (a_quantity payload)
         (a_is_iceberg payload) (a_visible_qty payload) (a_hidden_qty payload) = Inr corder"
    and r: "(case match_active_order corder e1 of ((trades, outcome_int, remaining), _) \<Rightarrow>
     bindP (liftP (outcome_to_str outcome_int)) (\<lambda>outcome_str.
     let result = Placed (a_order_id payload) outcome_str trades remaining (is_outcome_reject outcome_int) in
     if is_outcome_reject outcome_int then retP result
     else seqP (apply_match R payload trades remaining) (retP result))) w0 = (Inr res, w1)"
    unfolding handle_place_def by (auto simp: bindP_Inr liftP_eq)
  have w0: "w0 = w" using readsD [OF reads_redP [OF reads_get_opposite] g] .
  obtain trades outcome_int remaining e2 where m: "match_active_order corder e1 = ((trades, outcome_int, remaining), e2)"
    by (metis prod_cases4 surj_pair)
  from r m w0 obtain outcome_str where o: "res = Placed (a_order_id payload) outcome_str trades remaining (is_outcome_reject outcome_int)"
    "if is_outcome_reject outcome_int then w1 = w else apply_match R payload trades remaining w = (Inr (), w1)"
    by (auto simp: bindP_Inr liftP_eq Let_def seqP_Inr retP_eq split: if_splits)
  show thesis using that g l b m o w0 by blast
qed

lemma apply_match_steps:
  assumes "apply_match R payload trades remaining w = (Inr (), w1)"
  obtains found w2 where "if trades \<noteq> [] then persist_trades R payload trades w = (Inr found, w2) else found \<and> w2 = w"
    and "if found then settle_leftover R payload remaining w2 = (Inr (), w1) else w1 = w2"
proof -
  from assms obtain found w2 where f: "(if trades \<noteq> [] then persist_trades R payload trades else retP True) w = (Inr found, w2)"
    and r: "(if \<not> found then retP () else seqP (settle_leftover R payload remaining) (publish_orderbook_delta R (a_symbol payload))) w2 = (Inr (), w1)"
    unfolding apply_match_def bindP_Inr by blast
  have p: "w4 = w3" if "publish_orderbook_delta R (a_symbol payload) w3 = (Inr (), w4)" for w3 w4
    using readsD [OF reads_redP [OF reads_snapshot]] that by (auto simp: publish_orderbook_delta_def run_steps)
  have "if found then settle_leftover R payload remaining w2 = (Inr (), w1) else w1 = w2"
    using r by (auto simp: seqP_Inr retP_eq split: if_splits dest: p)
  moreover have "if trades \<noteq> [] then persist_trades R payload trades w = (Inr found, w2) else found \<and> w2 = w"
    using f by (auto simp: retP_eq)
  ultimately show thesis using that by blast
qed


subsection \<open>The refund\<close>

lemma refund_runs:
  assumes "find (\<lambda>p. p_symbol p = a_symbol payload) (w_pairs w) = Some pair"
    and "w_balances w (a_user_id payload, p_quote_asset pair) = Some b" and "0 < locked_balance b"
    and "row_ok (a_user_id payload, p_quote_asset pair) b"
  shows "refund_market_buy_leftover payload w = (Inr (), w\<lparr>w_balances := (w_balances w)((a_user_id payload, p_quote_asset pair) \<mapsto>
      b\<lparr>locked_balance := 0, available_balance := available_balance b + locked_balance b, b_version := b_version b + 1\<rparr>)\<rparr>)"
proof -
  have ok: "balance_ok b" using assms(4) by (simp add: row_ok_def)
  have "repo_unlock_pessimistic b (locked_balance b) = Inr (b\<lparr>total_balance := total_balance b, locked_balance := 0,
      available_balance := available_balance b + locked_balance b, b_version := b_version b + 1\<rparr>)"
    using unlock_op.runs [OF ok, of "locked_balance b"] assms(3) by simp
  moreover have "row_ok (a_user_id payload, p_quote_asset pair)
      (b\<lparr>locked_balance := 0, available_balance := available_balance b + locked_balance b, b_version := b_version b + 1\<rparr>)"
    using assms(4) by (auto simp: row_ok_def balance_ok_def)
  ultimately have "unlock_pessimistic b (locked_balance b) (w_balances w) = (Inr (), (w_balances w)((a_user_id payload, p_quote_asset pair) \<mapsto>
      b\<lparr>locked_balance := 0, available_balance := available_balance b + locked_balance b, b_version := b_version b + 1\<rparr>))"
    by (simp add: unlock_pessimistic_def flush_row_def modP_def store_row)
  then show ?thesis using assms(1-3)
    by (simp add: refund_market_buy_leftover_def transactionP_def get_by_symbol_def get_for_update_def bindP_def getP_def balP_def)
qed

lemma refund_conserves:
  assumes "refund_market_buy_leftover payload w = (Inr (), w1)" and "ledger_ok (w_balances w)"
  shows "ledger_ok (w_balances w1) \<and> asset_total c (w_balances w1) = asset_total c (w_balances w)"
proof (cases "find (\<lambda>p. p_symbol p = a_symbol payload) (w_pairs w)")
  case None
  then show ?thesis using assms
    by (simp add: refund_market_buy_leftover_def transactionP_def get_by_symbol_def bindP_def getP_def retP_def)
next
  case (Some pair)
  let ?k = "(a_user_id payload, p_quote_asset pair)"
  show ?thesis
  proof (cases "\<exists>b. w_balances w ?k = Some b \<and> 0 < locked_balance b")
    case False
    then have "w1 = w" using assms(1) Some
      by (auto simp: refund_market_buy_leftover_def transactionP_def get_by_symbol_def get_for_update_def bindP_def getP_def retP_def balP_def
          split: option.splits)
    then show ?thesis using assms(2) by simp
  next
    case True
    then obtain b where b: "w_balances w ?k = Some b" "0 < locked_balance b" by auto
    have row: "row_ok ?k b" using ledger_okD [OF assms(2) b(1)] .
    note r = refund_runs [OF Some b row]
    let ?t = "(w_balances w)(?k \<mapsto> b\<lparr>locked_balance := 0, available_balance := available_balance b + locked_balance b, b_version := b_version b + 1\<rparr>)"
    have w1: "w_balances w1 = ?t" using r assms(1) by auto
    have "row_ok ?k (b\<lparr>locked_balance := 0, available_balance := available_balance b + locked_balance b, b_version := b_version b + 1\<rparr>)"
      using row by (auto simp: row_ok_def balance_ok_def)
    then have "ledger_ok ?t" by (rule ledger_ok_upd [OF assms(2)])
    moreover have "finite (dom (w_balances w))" using assms(2) by (simp add: ledger_ok_def)
    then have "asset_total c ?t = asset_total c (w_balances w)" using b(1) unfolding asset_total_def by (subst dict_sum_upd [where u = b]) auto
    ultimately show ?thesis using w1 by simp
  qed
qed

text \<open>
  C32. The refund after a buy order unlocks everything the user has locked in the quote asset, not what was left of this
  order's lock: the locks of the user's other open orders are released too, and settling any amount for them then fails.
\<close>

theorem refund_releases_other_locks:
  assumes "find (\<lambda>p. p_symbol p = a_symbol payload) (w_pairs w) = Some pair"
    and "w_balances w (a_user_id payload, p_quote_asset pair) = Some b" and "ledger_ok (w_balances w)" and "0 < locked_balance b"
  shows "\<exists>w1 b1. refund_market_buy_leftover payload w = (Inr (), w1) \<and> w_balances w1 (a_user_id payload, p_quote_asset pair) = Some b1 \<and>
    locked_balance b1 = 0 \<and> available_balance b1 = available_balance b + locked_balance b \<and>
    (\<forall>x>0. \<not> is_ok (fst (row_step settle_pessimistic (a_user_id payload, p_quote_asset pair) x (w_balances w1))))"
  unfolding refund_runs [OF assms(1,2,4) ledger_okD [OF assms(3,2)]]
  by (simp add: row_step_def settle_pessimistic_def repo_settle_pessimistic_def flush_row_def prog_defs)

theorem refund_releases_other_locks_witness:
  "(let payload = build_order_action_payload ''place'' 2 ''BTC/USDT'' 1 ''buy'' ''market'' None None (Some 2) False None None None None None in
     \<exists>w1 b1. refund_market_buy_leftover payload crossed = (Inr (), w1) \<and> w_balances w1 (1, ''USDT'') = Some b1 \<and>
       locked_balance b1 = 0 \<and> available_balance b1 = 1000)"
proof -
  let ?p = "build_order_action_payload ''place'' 2 ''BTC/USDT'' 1 ''buy'' ''market'' None None (Some 2) False None None None None None"
  have f: "find (\<lambda>p. p_symbol p = a_symbol ?p) (w_pairs crossed) = Some btc_usdt"
    by (simp add: crossed_def market_facts build_order_action_payload_def)
  have k: "a_user_id ?p = 1" "p_quote_asset btc_usdt = ''USDT''" by (simp_all add: build_order_action_payload_def btc_usdt_def)
  have b: "w_balances crossed (1, ''USDT'') = Some (funds 1 ''USDT'' 300 700)" by (simp add: crossed_simps two_users_def)
  from refund_releases_other_locks [OF f, unfolded k, OF b] two_users_ok show ?thesis
    by (auto simp: crossed_simps funds_def)
qed

subsection \<open>Rejected and acknowledged actions\<close>




subsection \<open>Conservation end to end\<close>

lemma insert_resting_frame: "(\<And>w t. I w \<Longrightarrow> I (w\<lparr>w_redis := t\<rparr>)) \<Longrightarrow> preserves I (insert_resting_taker R payload remaining)"
  unfolding insert_resting_taker_def by (intro preserves_intros preserves_redP)

lemma settle_leftover_conserves:
  assumes "settle_leftover R payload remaining w = (Inr (), w1)" and "ledger_ok (w_balances w)"
  shows "ledger_ok (w_balances w1) \<and> asset_total c (w_balances w1) = asset_total c (w_balances w)"
proof (cases "rests payload remaining")
  case True
  with assms(1) have r: "insert_resting_taker R payload remaining w = (Inr (), w1)" by (simp add: settle_leftover_def)
  have "w_balances w1 = w_balances w" by (rule frameD [OF insert_resting_frame r]) simp
  then show ?thesis using assms(2) by simp
next
  case False
  show ?thesis
  proof (cases "refunds payload remaining")
    case True
    with False assms(1) have "refund_market_buy_leftover payload w = (Inr (), w1)" by (simp add: settle_leftover_def)
    from refund_conserves [OF this assms(2)] show ?thesis .
  qed (use assms False in \<open>simp add: settle_leftover_def retP_def\<close>)
qed

text \<open>The decimals a trade of the engine denotes lie on the grid of the database columns.\<close>

definition on_grid_trade :: "trade_result \<Rightarrow> bool" where
  "on_grid_trade t \<longleftrightarrow> dec18 (dec_of_float (tr_quantity t)) \<and> dec18 (dec_of_float (tr_price t) * dec_of_float (tr_quantity t))"

lemma trade_dict_simps [simp]: "d_maker_order_id (trade_dict_to_domain t symbol) = tr_maker t"
  "d_quantity (trade_dict_to_domain t symbol) = dec_of_float (tr_quantity t)"
  "d_price (trade_dict_to_domain t symbol) = dec_of_float (tr_price t)"
  by (simp_all add: trade_dict_to_domain_def Let_def)

lemma persist_trades_steps:
  assumes "persist_trades R payload trades w = (Inr found, w1)" and "find (\<lambda>p. p_symbol p = a_symbol payload) (w_pairs w) = Some pair"
  obtains es side rows where "map fst es = map (\<lambda>t. trade_dict_to_domain t (a_symbol payload)) trades"
    and "persist_trade_batch R es (a_user_id payload) (a_order_id payload) side (a_symbol payload) (p_base_asset pair) (p_quote_asset pair) w = (Inr rows, w1)"
    and "OrderSide (a_side payload) = Inr side" and "found"
proof -
  from assms(1) have "bindP (get_by_symbol (a_symbol payload)) (\<lambda>found. case found of
       None \<Rightarrow> retP False
     | Some pair \<Rightarrow>
         bindP (enrich_trades R (a_symbol payload) trades) (\<lambda>enriched_trades.
         bindP (liftP (OrderSide (a_side payload))) (\<lambda>taker_side.
         bindP (liftP (OrderType (a_type payload))) (\<lambda>taker_type.
         bindP (persist_trade_batch R enriched_trades (a_user_id payload) (a_order_id payload) taker_side (a_symbol payload)
             (p_base_asset pair) (p_quote_asset pair)) (\<lambda>_. retP True))))) w = (Inr found, w1)"
    unfolding persist_trades_def transactionP_def by (auto split: prod.splits sum.splits)
  with assms(2) obtain es w2 side rows where e: "enrich_trades R (a_symbol payload) trades w = (Inr es, w2)"
    and b: "persist_trade_batch R es (a_user_id payload) (a_order_id payload) side (a_symbol payload) (p_base_asset pair) (p_quote_asset pair) w2 = (Inr rows, w1)"
    and s: "OrderSide (a_side payload) = Inr side" "found"
    by (auto simp: get_by_symbol_def run_steps)
  from enrich_result [OF e] b s that show thesis by blast
qed

lemma enriched_all:
  assumes "map fst es = map (\<lambda>t. trade_dict_to_domain t symbol) trades" and "\<forall>t\<in>set trades. P (trade_dict_to_domain t symbol)"
  shows "\<forall>t\<in>set es. P (fst t)"
proof -
  have "fst ` set es = (\<lambda>t. trade_dict_to_domain t symbol) ` set trades" using assms(1) by (metis set_map)
  then show ?thesis using assms(2) by (metis (no_types, lifting) image_iff)
qed



lemma handle_place_runs:
  assumes "fst (redP (get_opposite_orders_for_match R (a_symbol payload) (a_side payload) 1000) w) = Inr makers"
    and "load_makers makers (reset e) = Inr e1"
    and "build_corder (a_order_id payload) (a_side payload) (a_type payload) (a_price payload) (a_quantity payload)
         (a_is_iceberg payload) (a_visible_qty payload) (a_hidden_qty payload) = Inr corder"
    and "match_active_order corder e1 = ((trades, outcome_int, remaining), e2)"
    and "outcome_to_str outcome_int = Inr outcome_str" and "\<not> is_outcome_reject outcome_int"
    and "apply_match R payload trades remaining w = (Inr (), w1)"
  shows "handle_place R e payload w = (Inr (Placed (a_order_id payload) outcome_str trades remaining False), w1)"
proof -
  have "redP (get_opposite_orders_for_match R (a_symbol payload) (a_side payload) 1000) w = (Inr makers, w)"
    using assms(1) readsD [OF reads_redP [OF reads_get_opposite]] by (metis prod.collapse)
  with assms(2-7) show ?thesis
    by (simp add: handle_place_def bindP_run [of _ w makers w] bindP_def liftP_def Let_def seqP_def retP_def)
qed

text \<open>The example exchange with the sell order of user 2 in the book, and a buy order of user 1 for 2 at 100.\<close>

definition resting_sell :: mem_state where
  "resting_sell = empty_redis\<lparr>m_zsets := (\<lambda>k. if k = ''ob:BTC/USDT:asks'' then [(''1'', 1000000000001)] else []),
     m_hashes := (\<lambda>k. if k = ''order:1'' then [(''order_id'', HNum 1), (''user_id'', HNum 2), (''side'', HStr ''sell''),
       (''quantity'', HNum 5), (''visible_quantity'', HNum 5), (''hidden_quantity'', HStr ''''), (''is_iceberg'', HStr ''0'')] else [])\<rparr>"

definition booked :: "mem_state world" where
  "booked = crossed\<lparr>w_redis := resting_sell\<rparr>"

definition buy_action :: "string \<Rightarrow> rat option \<Rightarrow> rat \<Rightarrow> order_action" where
  "buy_action tp price q =
     build_order_action_payload ''place'' 2 ''BTC/USDT'' 1 ''buy'' tp price None (Some q) False None None None None None"

definition ask_5 :: book_order where
  "ask_5 = \<lparr>bo_order_id = 1, bo_side = ''sell'', bo_price = 100, bo_quantity = 5, bo_visible_quantity = 5,
     bo_hidden_quantity = 0, bo_is_iceberg = False, bo_seq = 1\<rparr>"

definition trade_2 :: trade_result where
  "trade_2 = \<lparr>tr_taker = 2, tr_maker = 1, tr_price = 100, tr_quantity = 2, tr_side = 0\<rparr>"

lemma booked_simps: "w_balances booked = two_users" "w_pairs booked = [btc_usdt]" "w_orders booked = w_orders crossed"
  "w_redis booked = resting_sell"
  by (simp_all add: booked_def crossed_def market_def)

lemma buy_action_simps: "a_symbol (buy_action tp p q) = ''BTC/USDT''" "a_side (buy_action tp p q) = ''buy''"
  "a_order_id (buy_action tp p q) = 2" "a_user_id (buy_action tp p q) = 1" "a_type (buy_action tp p q) = tp"
  "a_action (buy_action tp p q) = ''place''"
  by (simp_all add: buy_action_def build_order_action_payload_def)

lemma booked_makers: "fst (redP (get_opposite_orders_for_match mem_redis ''BTC/USDT'' ''buy'' 1000) booked) = Inr [ask_5]"
  by code_simp

text \<open>The matching of the buy order, step by step.\<close>

lemma booked_match:
  obtains e1 e2 corder where "load_makers [ask_5] (reset new_engine) = Inr e1"
    and "build_corder 2 ''buy'' ''ioc'' (Some 100) 2 False None None = Inr corder"
    and "match_active_order corder e1 = (([trade_2], 0, 0), e2)"
proof -
  have "(case (load_makers [ask_5] (reset new_engine), build_corder 2 ''buy'' ''ioc'' (Some 100) 2 False None None) of
      (Inr e1, Inr corder) \<Rightarrow> fst (match_active_order corder e1) = ([trade_2], 0, 0) | _ \<Rightarrow> False)" by code_simp
  then show thesis using that by (auto split: sum.splits) (metis prod.collapse)
qed

lemma booked_place:
  obtains res w1 where "handle_place mem_redis new_engine (buy_action ''ioc'' (Some 100) 2) booked = (Inr res, w1)"
    and "pr_trades res = [trade_2]"
proof -
  let ?p = "buy_action ''ioc'' (Some 100) 2"
  obtain e1 e2 corder where m: "load_makers [ask_5] (reset new_engine) = Inr e1"
    "build_corder 2 ''buy'' ''ioc'' (Some 100) 2 False None None = Inr corder" "match_active_order corder e1 = (([trade_2], 0, 0), e2)"
    by (rule booked_match)
  have o: "outcome_to_str 0 = Inr ''ok''" "\<not> is_outcome_reject 0" by code_simp+
  have "is_ok (fst (apply_match mem_redis ?p [trade_2] 0 booked))" by code_simp
  then obtain w1 where a: "apply_match mem_redis ?p [trade_2] 0 booked = (Inr (), w1)" by (rule is_ok_runE) auto
  have "handle_place mem_redis new_engine ?p booked = (Inr (Placed (a_order_id ?p) ''ok'' [trade_2] 0 False), w1)"
    by (rule handle_place_runs [OF _ _ _ _ _ _ a, where makers = "[ask_5]"])
      (use m booked_makers o in \<open>simp_all add: buy_action_def build_order_action_payload_def\<close>)
  then show thesis using that by auto
qed



subsection \<open>The loop takes every item once, in order\<close>

lemma preserves_redP_view: "preserves J m \<Longrightarrow> preserves (\<lambda>w. J (w_redis w)) (redP m)"
  by (simp add: preserves_def redP_def case_prod_beta)

lemma preserves_cmd: "(\<And>s. I s \<Longrightarrow> I (snd (f s))) \<Longrightarrow> preserves I (cmdP f)"
  by (simp add: preserves_def cmdP_def case_prod_beta)

lemma preserves_balP_frame: "(\<And>w t. I w \<Longrightarrow> I (w\<lparr>w_balances := t\<rparr>)) \<Longrightarrow> preserves I (balP m)"
  by (simp add: preserves_def balP_def case_prod_beta)

lemma queue_not_hash: "order_hash_key i \<noteq> ORDERS_QUEUE" "order_hash_key i \<noteq> DEADLETTER_QUEUE"
  by (simp_all add: order_hash_key_def ORDERS_QUEUE_def DEADLETTER_QUEUE_def)

context redis_server
begin

text \<open>Items are only added in front of what is queued.\<close>

definition behind :: "queue_item list \<Rightarrow> 's \<Rightarrow> bool" where
  "behind xs s \<longleftrightarrow> (\<exists>ys. lists (view s) ORDERS_QUEUE = ys @ xs)"

lemma behind_commands:
  "behind xs s \<Longrightarrow> behind xs (r_hset R k kvs s)" "behind xs s \<Longrightarrow> behind xs (r_zadd R k m x s)"
  "behind xs s \<Longrightarrow> behind xs (snd (r_zrem R k m s))" "behind xs s \<Longrightarrow> behind xs (snd (r_incr R k s))"
  "behind xs s \<Longrightarrow> behind xs (r_sadd R k m s)" "behind xs s \<Longrightarrow> behind xs (r_srem R k m s)"
  "behind xs s \<Longrightarrow> behind xs (snd (r_del R (order_hash_key i) s))"
  "behind xs s \<Longrightarrow> behind xs (r_lpush R ORDERS_QUEUE q s)"
  by (auto simp: behind_def view_after forget_def queue_not_hash [symmetric] queue_not_hash)

lemmas read_rules = reads_preserves [OF reads_redP [OF reads_get_hash]] reads_preserves [OF reads_redP [OF reads_get_opposite]]
  reads_preserves [OF reads_redP [OF reads_snapshot]]

lemmas behind_rules = preserves_intros read_rules preserves_mod preserves_cmd behind_commands preserves_redP_view preserves_balP_frame
  preserves_update_orders

lemma behind_persist: "preserves (\<lambda>w. behind xs (w_redis w)) (persist_trade_batch R ts u i side symbol base quote)"
  unfolding persist_trade_batch_def settle_maker_def settle_taker_def update_redis_maker_def activate_sltp_children_def
    list_children_by_parent_def set_order_def order_get_for_update_def remove_resting_order_def delete_order_hash_def
    remove_open_order_def update_order_hash_fields_def enqueue_order_action_def
  by (intro behind_rules add_trades_frame | simp)+

lemma behind_enrich: "preserves (\<lambda>w. behind xs (w_redis w)) (enrich_trades R symbol ts)"
  by (induction ts) (auto intro!: behind_rules)

lemma behind_leftover: "preserves (\<lambda>w. behind xs (w_redis w)) (settle_leftover R payload remaining)"
  unfolding settle_leftover_def insert_resting_taker_def refund_market_buy_leftover_def store_order_hash_def add_resting_order_def
    next_seq_def add_open_order_def get_by_symbol_def
  by (intro behind_rules preserves_transaction | simp)+

lemma behind_process: "preserves (\<lambda>w. behind xs (w_redis w)) (process_action R e payload)"
  unfolding process_action_def handle_cancel_def handle_modify_def handle_place_def apply_match_def persist_trades_def
    publish_orderbook_delta_def get_by_symbol_def
  by (intro behind_rules preserves_transaction behind_persist behind_enrich behind_leftover | simp)+

end


context redis_server
begin

lemma pop_orders:
  assumes "lists (view (w_redis w)) ORDERS_QUEUE = xs @ [item]"
  obtains s where "redP (brpop_order_action R) w = (Inr (Some item), w\<lparr>w_redis := s\<rparr>)"
    and "view s = (view (w_redis w))\<lparr>lists := (lists (view (w_redis w)))(ORDERS_QUEUE := xs)\<rparr>"
proof -
  have "fst (r_rpop R ORDERS_QUEUE (w_redis w)) = Some item" using assms by (simp add: rpop_item)
  moreover have "view (snd (r_rpop R ORDERS_QUEUE (w_redis w))) = (view (w_redis w))\<lparr>lists := (lists (view (w_redis w)))(ORDERS_QUEUE := xs)\<rparr>"
    using assms by (simp add: rpop)
  ultimately show thesis using that by (simp add: brpop_order_action_def redP_def cmdP_def case_prod_beta)
qed

lemma worker_step_runs:
  assumes "lists (view (w_redis w)) ORDERS_QUEUE = xs @ [item]"
  obtains s r w2 w1 where "view s = (view (w_redis w))\<lparr>lists := (lists (view (w_redis w)))(ORDERS_QUEUE := xs)\<rparr>"
    and "process_item R e item (w\<lparr>w_redis := s\<rparr>) = (r, w2)"
    and "worker_step R e w = (Inr (Some item), w1)"
    and "w1 = (case r of Inr _ \<Rightarrow> w2 | Inl err \<Rightarrow> w2\<lparr>w_redis := r_lpush R DEADLETTER_QUEUE (DeadLetter ORDERS_QUEUE item err) (w_redis w2)\<rparr>)"
    and "behind xs (w_redis w1)"
proof -
  from assms obtain s where pop: "redP (brpop_order_action R) w = (Inr (Some item), w\<lparr>w_redis := s\<rparr>)"
    and s: "view s = (view (w_redis w))\<lparr>lists := (lists (view (w_redis w)))(ORDERS_QUEUE := xs)\<rparr>" by (rule pop_orders)
  obtain r w2 where r: "process_item R e item (w\<lparr>w_redis := s\<rparr>) = (r, w2)" by (cases "process_item R e item (w\<lparr>w_redis := s\<rparr>)")
  let ?w1 = "case r of Inr _ \<Rightarrow> w2 | Inl err \<Rightarrow> w2\<lparr>w_redis := r_lpush R DEADLETTER_QUEUE (DeadLetter ORDERS_QUEUE item err) (w_redis w2)\<rparr>"
  have run: "worker_step R e w = (Inr (Some item), ?w1)"
    using pop r unfolding worker_step_def
    by (cases r) (simp_all add: bindP_run seqP_def bindP_def tryP_def redP_def enqueue_deadletter_def modP_def retP_def)
  have "preserves (\<lambda>w. behind xs (w_redis w)) (process_item R e item)"
    unfolding process_item_def by (cases item) (auto intro!: preserves_intros behind_process)
  then have "behind xs (w_redis w2)" using s r preservesD [of "\<lambda>w. behind xs (w_redis w)" "process_item R e item" "w\<lparr>w_redis := s\<rparr>"]
    by (simp add: behind_def)
  then have "behind xs (w_redis ?w1)"
    by (auto simp: behind_def lpush ORDERS_QUEUE_def DEADLETTER_QUEUE_def split: sum.split)
  with s r run that show thesis by blast
qed

lemma run_worker_drains:
  "behind xs (w_redis w) \<Longrightarrow> \<exists>w1. run_worker R e (length xs) w = (Inr (rev xs), w1)"
proof (induction xs arbitrary: w rule: rev_induct)
  case Nil
  then show ?case by (simp add: retP_def)
next
  case (snoc item xs)
  from snoc.prems obtain ys where "lists (view (w_redis w)) ORDERS_QUEUE = (ys @ xs) @ [item]" by (auto simp: behind_def)
  from this obtain w1 where s: "worker_step R e w = (Inr (Some item), w1)" and b: "behind (ys @ xs) (w_redis w1)"
    by (rule worker_step_runs)
  from b have "behind xs (w_redis w1)" unfolding behind_def by (metis append.assoc)
  from snoc.IH [OF this] obtain w2 where "run_worker R e (length xs) w1 = (Inr (rev xs), w2)" by blast
  with s show ?case by (simp add: bindP_run bindP_def retP_def)
qed

end

text \<open>
  One round of the worker takes exactly the oldest item from the queue and never fails: the item is processed
  on the state without it, and when the processing raises, the item and the exception are put on the
  dead-letter queue on top of whatever state the processing left.
\<close>

theorem worker_step_takes_one:
  assumes "redis_server R view" and "lists (view (w_redis w)) ORDERS_QUEUE = xs @ [item]"
  shows "\<exists>s r w2 w1. lists (view s) = (lists (view (w_redis w)))(ORDERS_QUEUE := xs) \<and>
    process_item R e item (w\<lparr>w_redis := s\<rparr>) = (r, w2) \<and> worker_step R e w = (Inr (Some item), w1) \<and>
    (case r of Inr _ \<Rightarrow> w1 = w2
     | Inl err \<Rightarrow> w_balances w1 = w_balances w2 \<and> w_orders w1 = w_orders w2 \<and>
         lists (view (w_redis w1)) DEADLETTER_QUEUE = DeadLetter ORDERS_QUEUE item err # lists (view (w_redis w2)) DEADLETTER_QUEUE)"
proof -
  obtain s r w2 w1 where s: "view s = (view (w_redis w))\<lparr>lists := (lists (view (w_redis w)))(ORDERS_QUEUE := xs)\<rparr>"
    and p: "process_item R e item (w\<lparr>w_redis := s\<rparr>) = (r, w2)" and "worker_step R e w = (Inr (Some item), w1)"
    and w1: "w1 = (case r of Inr _ \<Rightarrow> w2 | Inl err \<Rightarrow> w2\<lparr>w_redis := r_lpush R DEADLETTER_QUEUE (DeadLetter ORDERS_QUEUE item err) (w_redis w2)\<rparr>)"
    by (rule redis_server.worker_step_runs [OF assms])
  moreover have "lists (view s) = (lists (view (w_redis w)))(ORDERS_QUEUE := xs)" using s by simp
  moreover have "case r of Inr _ \<Rightarrow> w1 = w2
     | Inl err \<Rightarrow> w_balances w1 = w_balances w2 \<and> w_orders w1 = w_orders w2 \<and>
         lists (view (w_redis w1)) DEADLETTER_QUEUE = DeadLetter ORDERS_QUEUE item err # lists (view (w_redis w2)) DEADLETTER_QUEUE"
    using w1 by (simp add: redis_server.lpush [OF assms(1)] split: sum.split)
  ultimately show ?thesis by blast
qed

text \<open>
  C14. The worker drains the queue: after as many rounds as there are items it has taken each of them once, oldest
  first, whatever their processing did and whatever was queued meanwhile.
\<close>

theorem worker_drains_queue:
  assumes "redis_server R view" and "lists (view (w_redis w)) ORDERS_QUEUE = xs"
  shows "\<exists>w1. run_worker R e (length xs) w = (Inr (rev xs), w1)"
proof -
  have "redis_server.behind view xs (w_redis w)" using assms by (simp add: redis_server.behind_def)
  then show ?thesis by (rule redis_server.run_worker_drains [OF assms(1)])
qed

definition two_queued :: "mem_state world" where
  "two_queued = crossed\<lparr>w_redis := empty_redis\<lparr>m_lists := (\<lambda>k. if k = ORDERS_QUEUE
     then [Action (buy_action ''market'' None 2), TradeBatch []] else [])\<rparr>\<rparr>"

lemma two_queued_lists: "lists (mem_view (w_redis two_queued)) ORDERS_QUEUE = [Action (buy_action ''market'' None 2), TradeBatch []]"
  "lists (mem_view (w_redis two_queued)) DEADLETTER_QUEUE = []"
  by (simp_all add: two_queued_def mem_view_def ORDERS_QUEUE_def DEADLETTER_QUEUE_def)

theorem worker_step_takes_one_witness:
  "\<exists>w1. worker_step mem_redis new_engine two_queued = (Inr (Some (TradeBatch [])), w1) \<and>
     lists (mem_view (w_redis w1)) DEADLETTER_QUEUE = [DeadLetter ORDERS_QUEUE (TradeBatch []) (KeyError ''action'')]"
proof -
  have "lists (mem_view (w_redis two_queued)) ORDERS_QUEUE = [Action (buy_action ''market'' None 2)] @ [TradeBatch []]"
    by (simp add: two_queued_lists)
  from worker_step_takes_one [OF mem.redis_server_axioms this, of new_engine] two_queued_lists(2) show ?thesis
    by (auto simp: process_item_def raiseP_def ORDERS_QUEUE_def DEADLETTER_QUEUE_def)
qed

theorem worker_drains_queue_witness:
  "\<exists>w1. run_worker mem_redis new_engine 2 two_queued = (Inr [TradeBatch [], Action (buy_action ''market'' None 2)], w1)"
  using worker_drains_queue [OF mem.redis_server_axioms two_queued_lists(1), of new_engine] by (simp add: numeral_2_eq_2)


subsection \<open>What rests in the book\<close>

lemma h_update_get: "h_update kvs h f = (case map_of (rev kvs) f of None \<Rightarrow> h f | Some v \<Rightarrow> Some v)"
  by (induction kvs arbitrary: h) (auto simp: h_update_def map_add_def split: option.split)

context redis_server
begin

text \<open>The action queue is as it was and no book has gained an entry.\<close>

definition shrunk :: "queue_item list \<Rightarrow> (string \<Rightarrow> (string \<times> rat) set) \<Rightarrow> 's \<Rightarrow> bool" where
  "shrunk q z s \<longleftrightarrow> lists (view s) ORDERS_QUEUE = q \<and> (\<forall>k. set (zsets (view s) k) \<subseteq> z k)"

lemma shrunk_commands:
  "shrunk q z s \<Longrightarrow> shrunk q z (r_hset R k kvs s)" "shrunk q z s \<Longrightarrow> shrunk q z (snd (r_zrem R k m s))"
  "shrunk q z s \<Longrightarrow> shrunk q z (r_sadd R k m s)" "shrunk q z s \<Longrightarrow> shrunk q z (r_srem R k m s)"
  "shrunk q z s \<Longrightarrow> shrunk q z (snd (r_del R (order_hash_key i) s))"
  by (auto simp: shrunk_def view_after forget_def z_remove_def queue_not_hash [symmetric] queue_not_hash split: if_splits)

lemma swap_shrunk: "preserves (shrunk q z) (swap_in_redis R u old new)"
  unfolding swap_in_redis_def remove_resting_order_def delete_order_hash_def remove_open_order_def add_open_order_def store_order_hash_def
  by (intro preserves_intros preserves_mod preserves_cmd shrunk_commands)

lemma resting_hash:
  assumes "insert_resting_taker R payload remaining w = (Inr (), w1)"
  shows "hashes (view (w_redis w1)) (order_hash_key (a_order_id payload)) ''quantity'' = Some (HNum (dec_of_float (a_quantity payload)))"
    and "\<not> a_is_iceberg payload \<Longrightarrow>
      hashes (view (w_redis w1)) (order_hash_key (a_order_id payload)) ''visible_quantity'' = Some (HNum (dec_of_float remaining))"
proof -
  let ?i = "a_order_id payload" and ?md = "resting_metadata payload remaining"
  have st: "store_order_hash R ?i ?md = modP (r_hset R (order_hash_key ?i) ?md)"
    by (simp add: store_order_hash_def ORDER_HASH_FIELDS_def resting_metadata_def List.map_filter_def Let_def)
  have keep: "preserves (\<lambda>w. hashes (view (w_redis w)) = h) (seqP (redP (add_resting_order R ?i symbol side p [])) (redP (add_open_order R u sy j)))"
    for h symbol side p u sy j
    unfolding add_resting_order_def next_seq_def add_open_order_def
    by (intro preserves_intros preserves_redP_view preserves_mod preserves_cmd | simp add: view_after)+
  from assms st obtain w2 where w2: "w2 = w\<lparr>w_redis := r_hset R (order_hash_key ?i) ?md (w_redis w)\<rparr>"
    and r: "seqP (redP (add_resting_order R ?i (a_symbol payload) (a_side payload)
        (case truthy (a_price payload) of None \<Rightarrow> 0 | Some p \<Rightarrow> dec_of_float p) []))
     (redP (add_open_order R (a_user_id payload) (a_symbol payload) ?i)) w2 = (Inr (), w1)"
    unfolding insert_resting_taker_def seqP_Inr [of "redP (store_order_hash R ?i ?md)"] by (auto simp: redP_def modP_def)
  have "hashes (view (w_redis w1)) = hashes (view (w_redis w2))" by (rule frameD [OF keep r])
  then have h: "hashes (view (w_redis w1)) (order_hash_key ?i) = h_update ?md (hashes (view (w_redis w)) (order_hash_key ?i))"
    by (simp add: w2 hset)
  show "hashes (view (w_redis w1)) (order_hash_key ?i) ''quantity'' = Some (HNum (dec_of_float (a_quantity payload)))"
    by (simp add: h h_update_get resting_metadata_def)
  show "hashes (view (w_redis w1)) (order_hash_key ?i) ''visible_quantity'' = Some (HNum (dec_of_float remaining))" if "\<not> a_is_iceberg payload"
    using that by (simp add: h h_update_get resting_metadata_def)
qed

end

lemma modify_order_steps:
  assumes "modify_order R env u i price q w = (Inr new, w1)"
  obtains old w2 w3 where "o_id old = i" and "w_redis w2 = w_redis w" and "redP (swap_in_redis R u old new) w2 = (Inr (), w3)"
    and "redP (enqueue_order_action R (modify_payload u old new)) w3 = (Inr (), w1)"
proof -
  from assms obtain old pair w2 w3 w4 where o: "order_at w i = Some old"
    and m: "move_lock env u old pair price q w = (Inr (), w2)" and r: "replace_row u old price q w2 = (Inr new, w3)"
    and s: "redP (swap_in_redis R u old new) w3 = (Inr (), w4)" and e: "redP (enqueue_order_action R (modify_payload u old new)) w4 = (Inr (), w1)"
    unfolding modify_order_def
    by (auto simp: run_steps order_get_for_update_def get_by_symbol_def split: option.splits if_splits)
  have "w_redis w2 = w_redis w"
    by (rule frameD [where m = "move_lock env u old pair price q", OF _ m])
      (auto simp: move_lock_def Let_def intro!: preserves_intros preserves_balP_frame split: exn.split)
  moreover have "w_redis w3 = w_redis w2" using r
    by (auto simp: replace_row_def run_steps update_status_def update_orders_def set_order_def add_order_def Let_def)
  ultimately show thesis using that [OF order_at_id [OF o] _ s e] by simp
qed

text \<open>
  C35. A modified order never reaches the book: replacing an order removes the old one, adds no entry to any book and
  queues one action for the new one, and processing that action does nothing. The new row stays open with its funds
  locked, but no incoming order can meet it.
\<close>

theorem modified_order_never_rests:
  assumes "redis_server R view" and "modify_order R env u i price q w = (Inr new, w1)"
  shows "(\<exists>payload. lists (view (w_redis w1)) ORDERS_QUEUE = Action payload # lists (view (w_redis w)) ORDERS_QUEUE \<and>
      (\<forall>e w2. process_action R e (from_dict payload) w2 = (Inr (Acknowledged ''modify'' (o_id new) ''ok''), w2))) \<and>
    (\<forall>k. set (zsets (view (w_redis w1)) k) \<subseteq> set (zsets (view (w_redis w)) k))"
proof -
  obtain old w2 w3 where "w_redis w2 = w_redis w" and s: "redP (swap_in_redis R u old new) w2 = (Inr (), w3)"
    and e: "redP (enqueue_order_action R (modify_payload u old new)) w3 = (Inr (), w1)"
    by (rule modify_order_steps [OF assms(2)])
  let ?J = "redis_server.shrunk view (lists (view (w_redis w)) ORDERS_QUEUE) (\<lambda>k. set (zsets (view (w_redis w)) k))"
  have "?J (w_redis w2)" using \<open>w_redis w2 = w_redis w\<close> by (simp add: redis_server.shrunk_def [OF assms(1)])
  with preservesD [OF preserves_redP_view [OF redis_server.swap_shrunk [OF assms(1)]], of _ _ w2 u old new] s
  have "?J (w_redis w3)" by simp
  moreover have "w1 = w3\<lparr>w_redis := r_lpush R ORDERS_QUEUE (Action (modify_payload u old new)) (w_redis w3)\<rparr>"
    using e by (simp add: redP_def enqueue_order_action_def modP_def)
  moreover have "process_action R e (from_dict (modify_payload u old new)) w2 = (Inr (Acknowledged ''modify'' (o_id new) ''ok''), w2)" for e w2
    by (simp add: process_action_def handle_modify_def from_dict_def modify_payload_def build_order_action_payload_def retP_def)
  ultimately show ?thesis by (simp add: redis_server.shrunk_def [OF assms(1)] redis_server.lpush [OF assms(1)])
qed

text \<open>Once the locks are moved, nothing fails.\<close>

lemma modify_order_succeeds:
  assumes "redis_server R view" and "order_at w i = Some old" and "o_user_id old = u" and "is_active old" and "o_type old \<in> {LIMIT, POST_ONLY, ICEBERG}"
    and "find (\<lambda>p. p_symbol p = o_symbol old) (w_pairs w) = Some pair" and "is_ok (fst (move_lock env u old pair price q w))"
  obtains new w1 where "modify_order R env u i price q w = (Inr new, w1)"
proof -
  obtain w2 where m: "move_lock env u old pair price q w = (Inr (), w2)" using is_ok_runE [OF assms(7)] by auto
  obtain new w3 where r: "replace_row u old price q w2 = (Inr new, w3)"
    by (simp add: replace_row_def update_status_def update_orders_def set_order_def add_order_def Let_def prog_defs)
  have "\<exists>s1. swap_in_redis R u old new s = (Inr (), s1)" for s
    by (simp add: swap_in_redis_def remove_resting_order_def delete_order_hash_def remove_open_order_def add_open_order_def
        store_order_hash_def side_key_value prog_defs liftP_def cmdP_def case_prod_beta Let_def)
  then obtain s1 where "redP (swap_in_redis R u old new) w3 = (Inr (), w3\<lparr>w_redis := s1\<rparr>)" by (metis redP_run)
  with assms(2-6) m r have "is_ok (fst (modify_order R env u i price q w))"
    by (auto simp: modify_order_def order_get_for_update_def get_by_symbol_def bindP_def seqP_def getP_def redP_def [of "modP f" for f]
        enqueue_order_action_def modP_def [of f x for f x] retP_def)
  then show thesis using that by (rule is_ok_runE)
qed

theorem modified_order_never_rests_witness:
  "\<exists>new w1. modify_order mem_redis quiet 1 2 90 3 crossed = (Inr new, w1) \<and>
     (\<forall>k. set (zsets (mem_view (w_redis w1)) k) \<subseteq> set (zsets (mem_view (w_redis crossed)) k)) \<and>
     length (lists (mem_view (w_redis w1)) ORDERS_QUEUE) = 1"
proof -
  let ?old = "limit_row 2 1 BUY 100 3"
  have "is_ok (fst (move_lock quiet 1 ?old btc_usdt 90 3 crossed))" by code_simp
  moreover have "order_at crossed 2 = Some ?old" "is_active ?old" "o_user_id ?old = 1" "o_type ?old = LIMIT"
    "find (\<lambda>p. p_symbol p = o_symbol ?old) (w_pairs crossed) = Some btc_usdt"
    by (simp_all add: crossed_def market_def limit_row_def is_active_def btc_usdt_def)
  ultimately obtain new w1 where m: "modify_order mem_redis quiet 1 2 90 3 crossed = (Inr new, w1)"
    using modify_order_succeeds [OF mem.redis_server_axioms, where w = crossed and i = 2 and old = ?old and u = 1 and pair = btc_usdt and env = quiet and price = 90 and q = 3] by auto
  have "lists (mem_view (w_redis crossed)) ORDERS_QUEUE = []" by (simp add: crossed_simps empty_redis_def mem_view_def)
  with modified_order_never_rests [OF mem.redis_server_axioms m] m show ?thesis by auto
qed

text \<open>
  C36. A partly filled order rests with its whole quantity: the hash written for it keeps the quantity it came
  with, and that, not what remains, is the quantity an incoming order of the other side is matched against; only
  the shown volume is what remains.
\<close>

theorem resting_taker_keeps_full_quantity:
  assumes "redis_server R view" and "insert_resting_taker R payload remaining w = (Inr (), w1)" and "\<not> a_is_iceberg payload"
    and "rnd (a_quantity payload) = a_quantity payload" and "rnd remaining = remaining"
    and "decode_order (str_int (a_order_id payload), score) (r_hgetall R (order_hash_key (a_order_id payload)) (w_redis w1)) = Inr mo"
  shows "bo_quantity mo = a_quantity payload \<and> bo_visible_quantity mo = remaining"
proof -
  note h = redis_server.resting_hash [OF assms(1,2)]
  have "map_of (r_hgetall R (order_hash_key (a_order_id payload)) (w_redis w1)) ''quantity'' = Some (HNum (dec_of_float (a_quantity payload)))"
    "map_of (r_hgetall R (order_hash_key (a_order_id payload)) (w_redis w1)) ''visible_quantity'' = Some (HNum (dec_of_float remaining))"
    using h assms(3) by (simp_all add: redis_server.hgetall [OF assms(1)])
  with assms(6) show ?thesis
    by (auto simp: decode_order_def shown_quantity_def h_float_def h_or_def h_truthy_def rnd_dec_of_float assms(4,5)
        bind_result_Inr split: prod.splits)
qed

theorem resting_taker_keeps_full_quantity_witness:
  "\<exists>w1 mo. insert_resting_taker mem_redis (buy_action ''limit'' (Some 100) 5) 2 crossed = (Inr (), w1) \<and>
     decode_order (''2'', 1000000000001) (r_hgetall mem_redis (order_hash_key 2) (w_redis w1)) = Inr mo \<and>
     bo_quantity mo = 5 \<and> bo_visible_quantity mo = 2"
proof -
  let ?p = "buy_action ''limit'' (Some 100) 5"
  let ?r = "insert_resting_taker mem_redis ?p 2 crossed"
  have "is_ok (fst ?r)" by code_simp
  then obtain w1 where r: "?r = (Inr (), w1)" by (rule is_ok_runE) auto
  have "is_ok (decode_order (''2'', 1000000000001) (r_hgetall mem_redis (order_hash_key 2) (w_redis (snd ?r))))" by code_simp
  then obtain mo where mo: "decode_order (''2'', 1000000000001) (r_hgetall mem_redis (order_hash_key 2) (w_redis w1)) = Inr mo"
    using r by (auto simp: is_ok_iff)
  have i: "a_order_id ?p = 2" "str_int 2 = ''2''" "\<not> a_is_iceberg ?p" "a_quantity ?p = 5" "rnd 5 = 5" "rnd 2 = 2" by code_simp+
  from resting_taker_keeps_full_quantity [OF mem.redis_server_axioms r, of 1000000000001 mo] mo i r show ?thesis by auto
qed

end
