(* ===== verification/Connections.thy ===== *)
theory Connections
  imports Worker
begin

section \<open>Connections to Redis\<close>

text \<open>
  The connections the processes hold: the client shared by a process (\<open>redis_client/client.py\<close>) and the dedicated connection of the matching
  worker (\<open>start\<close>, \<open>_init_brpop_connection\<close>, \<open>_wait_for_redis\<close> and \<open>stop\<close> of \<open>matching/worker.py\<close>). Pools and connections are
  numbered in the order they are made. Whether closing one raises, when a connection drops and when the server answers
  are inputs.
\<close>

subsection \<open>The shared client\<close>

record clients =
  redis_client :: "nat option"
  redis_pool :: "nat option"
  next_pool :: nat
  open_pools :: "nat list"

definition no_clients :: clients where
  "no_clients = \<lparr>redis_client = None, redis_pool = None, next_pool = 0, open_pools = []\<rparr>"

definition build_pool :: "clients \<Rightarrow> nat \<times> clients" where
  "build_pool c = (next_pool c, c\<lparr>next_pool := next_pool c + 1, open_pools := open_pools c @ [next_pool c]\<rparr>)"

text \<open>A client is named by its pool.\<close>

definition get_redis :: "clients \<Rightarrow> nat \<times> clients" where
  "get_redis c = (case redis_client c of
     Some client \<Rightarrow> (client, c)
   | None \<Rightarrow> (case build_pool c of (pool, c1) \<Rightarrow> (pool, c1\<lparr>redis_pool := Some pool, redis_client := Some pool\<rparr>)))"

text \<open>The result is whether it returns normally.\<close>

definition close_redis :: "bool \<Rightarrow> bool \<Rightarrow> clients \<Rightarrow> bool \<times> clients" where
  "close_redis aclose_ok disconnect_ok c =
     (if redis_client c \<noteq> None \<and> \<not> aclose_ok then (False, c)
      else let c1 = c\<lparr>redis_client := None\<rparr> in
        case redis_pool c1 of
          None \<Rightarrow> (True, c1)
        | Some pool \<Rightarrow> if \<not> disconnect_ok then (False, c1)
            else (True, c1\<lparr>redis_pool := None, open_pools := removeAll pool (open_pools c1)\<rparr>))"

datatype redis_error = CannotConnect

definition redis_startup :: "bool \<Rightarrow> clients \<Rightarrow> (redis_error + nat) \<times> clients" where
  "redis_startup ping_ok c = (case get_redis c of (client, c1) \<Rightarrow> (if ping_ok then Inr client else Inl CannotConnect, c1))"

datatype client_call = GetRedis | CloseRedis bool bool

fun client_step :: "client_call \<Rightarrow> clients \<Rightarrow> clients" where
  "client_step GetRedis c = snd (get_redis c)"
| "client_step (CloseRedis a d) c = snd (close_redis a d c)"

definition clients_ok :: "clients \<Rightarrow> bool" where
  "clients_ok c \<longleftrightarrow> redis_pool c = redis_client c \<and> open_pools c = (case redis_client c of None \<Rightarrow> [] | Some p \<Rightarrow> [p])"

lemma client_step_ok: "clients_ok c \<Longrightarrow> call \<noteq> CloseRedis True False \<Longrightarrow> call \<noteq> CloseRedis False False \<Longrightarrow> clients_ok (client_step call c)"
  by (cases call) (auto simp: clients_ok_def get_redis_def build_pool_def close_redis_def Let_def split: option.splits if_splits)

text \<open>
  A process has one client: as long as disconnecting a pool never raises, whatever the calls were, at most one pool is
  open, asking again gives the same client, and closing leaves no pool open.
\<close>

theorem one_shared_client:
  assumes "list_all (\<lambda>call. \<forall>a. call \<noteq> CloseRedis a False) calls"
  shows "let c = fold client_step calls no_clients; (client, c1) = get_redis c in
    open_pools c1 = [client] \<and> get_redis c1 = (client, c1) \<and> fst (close_redis True True c1) \<and> open_pools (snd (close_redis True True c1)) = []"
proof -
  have "clients_ok c \<Longrightarrow> clients_ok (fold client_step calls c)" for c
    using assms by (induction calls arbitrary: c) (auto simp: client_step_ok)
  moreover have "clients_ok no_clients" by (simp add: clients_ok_def no_clients_def)
  ultimately have "clients_ok (fold client_step calls no_clients)" by blast
  then show ?thesis
    by (auto simp: clients_ok_def get_redis_def build_pool_def close_redis_def Let_def split: option.splits)
qed

text \<open>When disconnecting raises, the next client gets a new pool and the old one is never closed.\<close>

theorem failed_disconnect_leaks:
  "open_pools (fold client_step [GetRedis, CloseRedis True False, GetRedis, CloseRedis True True] no_clients) = [0]"
  by (simp add: no_clients_def get_redis_def build_pool_def close_redis_def)

subsection \<open>Waiting for the server\<close>

datatype ping = Pong | NoPong | PingError

text \<open>
  \<open>pings n\<close> is what the server does at attempt \<open>n\<close>. The result is whether the server answered, and the number of
  intervals slept.
\<close>

fun wait_attempts :: "bool \<Rightarrow> (nat \<Rightarrow> ping) \<Rightarrow> nat \<Rightarrow> nat \<Rightarrow> bool \<times> nat" where
  "wait_attempts conn pings attempt 0 = (False, 0)"
| "wait_attempts conn pings attempt (Suc left) =
     (if conn \<and> pings attempt = Pong then (True, 0)
      else case wait_attempts conn pings (attempt + 1) left of (ok, slept) \<Rightarrow> (ok, slept + 1))"

definition wait_for_redis :: "bool \<Rightarrow> (nat \<Rightarrow> ping) \<Rightarrow> nat \<Rightarrow> bool \<times> nat" where
  "wait_for_redis conn pings max_attempts = wait_attempts conn pings 1 max_attempts"

lemma wait_attempts_first:
  "wait_attempts True pings a n = (case find (\<lambda>i. pings i = Pong) [a..<a + n] of Some i \<Rightarrow> (True, i - a) | None \<Rightarrow> (False, n))"
proof (induction n arbitrary: a)
  case 0
  then show ?case by simp
next
  case (Suc n)
  have "i \<ge> Suc a" if "find (\<lambda>i. pings i = Pong) [Suc a..<Suc a + n] = Some i" for i
    using that by (metis (no_types, lifting) find_Some_iff atLeastLessThan_iff nth_mem set_upt)
  moreover have "[a..<a + Suc n] = a # [Suc a..<Suc a + n]" by (simp add: upt_conv_Cons)
  ultimately show ?case using Suc [of "Suc a"] by (auto simp: Suc_diff_le simp del: upt_Suc split: option.split)
qed

text \<open>
  Waiting always ends, after at most \<open>max_attempts\<close> intervals: at the first attempt the server answers, if it does within
  them, and else the worker goes on without an answer.
\<close>

theorem wait_for_redis_ends:
  "wait_for_redis True pings max_attempts =
     (case find (\<lambda>i. pings i = Pong) [1..<max_attempts + 1] of Some i \<Rightarrow> (True, i - 1) | None \<Rightarrow> (False, max_attempts))"
  unfolding wait_for_redis_def wait_attempts_first by (simp only: add.commute)

subsection \<open>The connection of the worker\<close>

datatype phase = Checking | Popping | Ended

record brpop =
  bp_running :: bool
  bp_phase :: phase
  bp_conn :: "nat option"
  bp_next :: nat
  bp_open :: "nat list"

definition new_worker :: brpop where
  "new_worker = \<lparr>bp_running = False, bp_phase = Ended, bp_conn = None, bp_next = 0, bp_open = []\<rparr>"

text \<open>\<open>closes\<close> says whether closing the old connection succeeds; when it raises, the exception is swallowed.\<close>

definition close_brpop :: "bool \<Rightarrow> brpop \<Rightarrow> brpop" where
  "close_brpop closes k = (case bp_conn k of
     None \<Rightarrow> k
   | Some c \<Rightarrow> if closes then k\<lparr>bp_open := removeAll c (bp_open k)\<rparr> else k)"

definition init_brpop_connection :: "bool \<Rightarrow> brpop \<Rightarrow> brpop" where
  "init_brpop_connection closes k = (let k1 = close_brpop closes k in
     k1\<lparr>bp_conn := Some (bp_next k1), bp_next := bp_next k1 + 1, bp_open := bp_open k1 @ [bp_next k1]\<rparr>)"

definition worker_stop :: "bool \<Rightarrow> brpop \<Rightarrow> brpop" where
  "worker_stop closes k = (close_brpop closes (k\<lparr>bp_running := False\<rparr>))\<lparr>bp_conn := None\<rparr>"

text \<open>What \<open>start\<close> does before its loop.\<close>

definition worker_start :: "bool \<Rightarrow> (nat \<Rightarrow> ping) \<Rightarrow> brpop \<Rightarrow> (bool \<times> nat) \<times> brpop" where
  "worker_start closes pings k = (let k1 = init_brpop_connection closes (k\<lparr>bp_running := True\<rparr>) in
     (wait_for_redis (bp_conn k1 \<noteq> None) pings 30, k1\<lparr>bp_phase := Checking\<rparr>))"

text \<open>
  The loop, cut at its awaits: the condition is checked and the blocking pop starts; the pop returns and the action is
  processed; the connection drops while popping, or while the popped action is processed, which then ends in whatever
  state \<open>interrupted\<close> describes; the task is cancelled; \<open>stop\<close> is called by another task.
\<close>

datatype 's loop_event =
    Check
  | PopReturns
  | PopDrops bool
  | ProcessDrops bool "'s world \<Rightarrow> 's world"
  | Cancelled
  | StopCalled bool

definition reconnect :: "bool \<Rightarrow> brpop \<Rightarrow> brpop" where
  "reconnect closes k = (init_brpop_connection closes k)\<lparr>bp_phase := Checking\<rparr>"

fun loop_step :: "'s redis_ops \<Rightarrow> engine \<Rightarrow> 's loop_event \<Rightarrow> brpop \<times> 's world \<Rightarrow> brpop \<times> 's world" where
  "loop_step R e Check (k, w) =
     (if bp_phase k \<noteq> Checking then (k, w) else (k\<lparr>bp_phase := (if bp_running k then Popping else Ended)\<rparr>, w))"
| "loop_step R e PopReturns (k, w) =
     (if bp_phase k \<noteq> Popping then (k, w) else (k\<lparr>bp_phase := Checking\<rparr>, snd (worker_step R e w)))"
| "loop_step R e (PopDrops closes) (k, w) = (if bp_phase k \<noteq> Popping then (k, w) else (reconnect closes k, w))"
| "loop_step R e (ProcessDrops closes interrupted) (k, w) =
     (if bp_phase k \<noteq> Popping then (k, w)
      else case redP (brpop_order_action R) w of
        (Inr (Some item), w1) \<Rightarrow> (reconnect closes k, interrupted w1)
      | (_, w1) \<Rightarrow> (k\<lparr>bp_phase := Checking\<rparr>, w1))"
| "loop_step R e Cancelled (k, w) = (k\<lparr>bp_phase := Ended\<rparr>, w)"
| "loop_step R e (StopCalled closes) (k, w) = (worker_stop closes k, w)"

fun closes_ok :: "'s loop_event \<Rightarrow> bool" where
  "closes_ok (PopDrops c) \<longleftrightarrow> c"
| "closes_ok (ProcessDrops c f) \<longleftrightarrow> c"
| "closes_ok (StopCalled c) \<longleftrightarrow> c"
| "closes_ok _ \<longleftrightarrow> True"

definition brpop_ok :: "brpop \<Rightarrow> bool" where
  "brpop_ok k \<longleftrightarrow> bp_open k = (case bp_conn k of None \<Rightarrow> [] | Some c \<Rightarrow> [c])"

lemma brpop_ops_ok: "brpop_ok k \<Longrightarrow> brpop_ok (init_brpop_connection True k)" "brpop_ok k \<Longrightarrow> brpop_ok (worker_stop True k)"
  "brpop_ok (k\<lparr>bp_phase := p\<rparr>) = brpop_ok k" "brpop_ok (k\<lparr>bp_running := b\<rparr>) = brpop_ok k"
  by (auto simp: brpop_ok_def init_brpop_connection_def close_brpop_def worker_stop_def Let_def split: option.splits)

lemma loop_step_ok: "brpop_ok (fst kw) \<Longrightarrow> closes_ok ev \<Longrightarrow> brpop_ok (fst (loop_step R e ev kw))"
  by (cases ev; cases kw) (auto simp: brpop_ops_ok reconnect_def split: prod.split sum.split option.split)

lemma loop_ok: "brpop_ok (fst kw) \<Longrightarrow> list_all closes_ok evs \<Longrightarrow> brpop_ok (fst (fold (loop_step R e) evs kw))"
  by (induction evs arbitrary: kw) (simp_all add: loop_step_ok)

text \<open>
  The worker never holds more than the one connection it pops from, however often it has to reconnect, provided
  closing succeeds.
\<close>

theorem one_brpop_connection:
  assumes "list_all closes_ok evs" and "fold (loop_step R e) evs (snd (worker_start True pings new_worker), w) = (k, w1)"
  shows "bp_open k = (case bp_conn k of None \<Rightarrow> [] | Some c \<Rightarrow> [c])"
proof -
  have "brpop_ok (snd (worker_start True pings new_worker))"
    by (simp add: worker_start_def new_worker_def Let_def init_brpop_connection_def close_brpop_def brpop_ok_def)
  from loop_ok [where kw = "(snd (worker_start True pings new_worker), w)", OF _ assms(1), of R e] this assms(2) show ?thesis
    by (simp add: brpop_ok_def)
qed

text \<open>
  But when \<open>stop\<close> is called while the pop is blocked, and the pop fails because its connection was closed, the loop first
  opens a new connection and only then sees that it should end; that connection is never closed.
\<close>

theorem stop_leaves_connection:
  "\<exists>k. fold (loop_step R e) [Check, StopCalled True, PopDrops True, Check] (snd (worker_start True pings new_worker), w) = (k, w) \<and>
    bp_phase k = Ended \<and> \<not> bp_running k \<and> bp_open k \<noteq> []"
  by (simp add: worker_start_def new_worker_def Let_def init_brpop_connection_def close_brpop_def reconnect_def worker_stop_def)

text \<open>
  A connection that drops while the worker waits costs nothing: after any number of such failures the state of the
  system is the same, the loop is ready for the next round and has a fresh connection.
\<close>

theorem pop_failures_harmless:
  assumes "bp_phase k = Checking" and "bp_running k"
  shows "\<exists>k1. fold (loop_step R e) (concat (replicate n [Check, PopDrops True])) (k, w) = (k1, w) \<and> bp_phase k1 = Checking \<and> bp_running k1 \<and>
    (0 < n \<longrightarrow> bp_conn k1 = Some (bp_next k + n - 1))"
  using assms
proof (induction n arbitrary: k)
  case 0
  then show ?case by simp
next
  case (Suc n)
  let ?k = "reconnect True (k\<lparr>bp_phase := Popping\<rparr>)"
  have k: "bp_phase ?k = Checking" "bp_running ?k" "bp_next ?k = bp_next k + 1" "bp_conn ?k = Some (bp_next k)"
    using Suc.prems by (simp_all add: reconnect_def init_brpop_connection_def close_brpop_def Let_def split: option.split)
  from Suc.IH [OF k(1,2)] obtain k1 where "fold (loop_step R e) (concat (replicate n [Check, PopDrops True])) (?k, w) = (k1, w)"
    "bp_phase k1 = Checking" "bp_running k1" "0 < n \<longrightarrow> bp_conn k1 = Some (bp_next ?k + n - 1)" by blast
  then show ?case using Suc.prems k by (cases n) auto
qed

text \<open>
  C34. A connection that drops while an action is processed loses the action: it is gone from the queue and not put on the
  dead-letter queue, because the exception is taken for a failure of the pop.
\<close>

theorem connection_error_drops_action:
  assumes "redis_server R view" and "lists (view (w_redis w)) ORDERS_QUEUE = xs @ [item]" and "bp_phase k = Popping"
    and "\<And>w. lists (view (w_redis (interrupted w))) = lists (view (w_redis w))"
  shows "\<exists>w1. loop_step R e (ProcessDrops closes interrupted) (k, w) = (reconnect closes k, w1) \<and>
    lists (view (w_redis w1)) = (lists (view (w_redis w)))(ORDERS_QUEUE := xs)"
proof -
  obtain s where s: "redP (brpop_order_action R) w = (Inr (Some item), w\<lparr>w_redis := s\<rparr>)"
    "view s = (view (w_redis w))\<lparr>lists := (lists (view (w_redis w)))(ORDERS_QUEUE := xs)\<rparr>"
    by (rule redis_server.pop_orders [OF assms(1,2)])
  then show ?thesis using assms(3,4) by simp
qed

theorem one_shared_client_witness:
  "let (client, c1) = get_redis (fold client_step [GetRedis, CloseRedis True True, GetRedis] no_clients) in client = 1 \<and> open_pools c1 = [1]"
  using one_shared_client [of "[GetRedis, CloseRedis True True, GetRedis]"]
  by (simp add: no_clients_def get_redis_def build_pool_def close_redis_def)

theorem connection_error_drops_action_witness:
  "\<exists>k w1. loop_step mem_redis new_engine (ProcessDrops True id) (new_worker\<lparr>bp_phase := Popping\<rparr>, two_queued) = (k, w1) \<and>
     lists (mem_view (w_redis w1)) ORDERS_QUEUE = [Action (buy_action ''market'' None 2)] \<and> lists (mem_view (w_redis w1)) DEADLETTER_QUEUE = []"
proof -
  have "lists (mem_view (w_redis two_queued)) ORDERS_QUEUE = [Action (buy_action ''market'' None 2)] @ [TradeBatch []]"
    by (simp add: two_queued_lists)
  from connection_error_drops_action [OF mem.redis_server_axioms this, of "new_worker\<lparr>bp_phase := Popping\<rparr>" id new_engine True] two_queued_lists(2)
  show ?thesis by (auto simp: ORDERS_QUEUE_def DEADLETTER_QUEUE_def)
qed

end
