(* ===== verification/Pubsub.thy ===== *)
theory Pubsub
  imports Auth
begin

section \<open>Channels and messages\<close>

text \<open>
  \<open>redis_client/pubsub.py\<close>: the names of the channels and the messages of the publishers, and the emulator of
  \<open>api/admin/emulator.py\<close> that publishes synthetic prints. A message is the dictionary that is serialised, in insertion
  order; a publisher is the pair of channel and message it hands to Redis. Serialisation is left out.
\<close>

datatype json = JNull | JBool bool | JStr string | JInt int | JNum rat | JArr "json list" | JObj "(string \<times> json) list"

type_synonym message = "(string \<times> json) list"

text \<open>Python dictionaries: a repeated key keeps its place and takes the new value.\<close>

fun dict_put :: "'k \<Rightarrow> 'v \<Rightarrow> ('k \<times> 'v) list \<Rightarrow> ('k \<times> 'v) list" where
  "dict_put k v [] = [(k, v)]"
| "dict_put k v ((j, u) # d) = (if j = k then (k, v) # d else (j, u) # dict_put k v d)"

definition dict_del :: "'k \<Rightarrow> ('k \<times> 'v) list \<Rightarrow> ('k \<times> 'v) list" where
  "dict_del k d = filter (\<lambda>p. fst p \<noteq> k) d"

lemma map_of_dict_put: "map_of (dict_put k v d) = (map_of d)(k \<mapsto> v)"
  by (induction d) auto

lemma keys_dict_put: "fst ` set (dict_put k v d) = insert k (fst ` set d)"
  by (induction k v d rule: dict_put.induct) (simp_all add: insert_commute)

lemma distinct_dict_put: "distinct (map fst d) \<Longrightarrow> distinct (map fst (dict_put k v d))"
  by (induction k v d rule: dict_put.induct) (simp_all add: keys_dict_put, blast)

lemma map_of_dict_del: "map_of (dict_del k d) j = (if j = k then None else map_of d j)"
  by (induction d) (auto simp: dict_del_def)

lemma distinct_dict_del: "distinct (map fst d) \<Longrightarrow> distinct (map fst (dict_del k d))"
  by (simp add: dict_del_def distinct_map_filter)

subsection \<open>Channels\<close>

definition orderbook_channel :: "string \<Rightarrow> string" where
  "orderbook_channel symbol = ''pub:orderbook:'' @ symbol"

definition trades_channel :: "string \<Rightarrow> string" where
  "trades_channel symbol = ''pub:trades:'' @ symbol"

definition orders_channel :: "int \<Rightarrow> string" where
  "orders_channel user_id = ''pub:orders:'' @ str_int user_id"

definition balances_channel :: "int \<Rightarrow> string" where
  "balances_channel user_id = ''pub:balances:'' @ str_int user_id"

definition bulk_channel :: "int \<Rightarrow> string" where
  "bulk_channel user_id = ''pub:bulk:'' @ str_int user_id"

definition public_channels :: "string \<Rightarrow> string list" where
  "public_channels symbol = [orderbook_channel symbol, trades_channel symbol]"

definition private_channels :: "int \<Rightarrow> string list" where
  "private_channels user_id = [orders_channel user_id, balances_channel user_id, bulk_channel user_id]"

lemmas channel_defs = orderbook_channel_def trades_channel_def orders_channel_def balances_channel_def bulk_channel_def

subsection \<open>Messages\<close>

definition envelope :: "int \<Rightarrow> string \<Rightarrow> message \<Rightarrow> message" where
  "envelope now event_type data =
     fold (\<lambda>(k, v). dict_put k v) data [(''event'', JStr event_type), (''ts'', JInt (int_of_float (dmul (unix_time now) 1000)))]"

definition optional :: "string \<Rightarrow> ('a \<Rightarrow> json) \<Rightarrow> 'a option \<Rightarrow> message" where
  "optional k f v = (case v of None \<Rightarrow> [] | Some x \<Rightarrow> [(k, f x)])"

definition levels_json :: "(rat \<times> rat) list \<Rightarrow> json" where
  "levels_json ls = JArr (map (\<lambda>(p, q). JArr [JNum p, JNum q]) ls)"

definition publish_orderbook_snapshot ::
  "int \<Rightarrow> string \<Rightarrow> (rat \<times> rat) list \<Rightarrow> (rat \<times> rat) list \<Rightarrow> rat option \<Rightarrow> string \<times> message" where
  "publish_orderbook_snapshot now symbol bids asks last_trade_price = (orderbook_channel symbol, envelope now ''orderbook_snapshot''
     [(''symbol'', JStr symbol), (''bids'', levels_json bids), (''asks'', levels_json asks),
      (''last_trade_price'', case last_trade_price of None \<Rightarrow> JNull | Some p \<Rightarrow> JNum p)])"

definition publish_orderbook_update :: "int \<Rightarrow> string \<Rightarrow> (string \<times> rat \<times> rat) list \<Rightarrow> string \<times> message" where
  "publish_orderbook_update now symbol changes = (orderbook_channel symbol, envelope now ''orderbook_update''
     [(''symbol'', JStr symbol), (''changes'', JArr (map (\<lambda>(side, price, qty).
        JObj [(''side'', JStr side), (''price'', JNum price), (''qty'', JNum qty)]) changes))])"

definition publish_trade ::
  "int \<Rightarrow> string \<Rightarrow> int \<Rightarrow> rat \<Rightarrow> rat \<Rightarrow> string \<Rightarrow> int option \<Rightarrow> int option \<Rightarrow> string \<times> message" where
  "publish_trade now symbol trade_id price quantity side taker_order_id maker_order_id = (trades_channel symbol, envelope now ''trade''
     ([(''symbol'', JStr symbol), (''trade_id'', JInt trade_id), (''price'', JNum price), (''quantity'', JNum quantity),
       (''side'', JStr side)] @ optional ''taker_order_id'' JInt taker_order_id @ optional ''maker_order_id'' JInt maker_order_id))"

record order_update =
  ou_event :: string
  ou_order_id :: int
  ou_symbol :: string
  ou_side :: string
  ou_type :: string
  ou_status :: string
  ou_price :: "rat option"
  ou_quantity :: "rat option"
  ou_filled_quantity :: "rat option"
  ou_remaining_quantity :: "rat option"
  ou_avg_fill_price :: "rat option"
  ou_last_trade_qty :: "rat option"
  ou_last_trade_price :: "rat option"
  ou_client_order_id :: "string option"
  ou_bulk_id :: "string option"

definition publish_order_update :: "int \<Rightarrow> int \<Rightarrow> order_update \<Rightarrow> string \<times> message" where
  "publish_order_update now user_id u = (orders_channel user_id, envelope now ''order''
     ([(''order_id'', JInt (ou_order_id u)), (''symbol'', JStr (ou_symbol u)), (''side'', JStr (ou_side u)), (''type'', JStr (ou_type u)),
       (''status'', JStr (ou_status u)), (''status_event'', JStr (ou_event u))] @
      optional ''price'' JNum (ou_price u) @ optional ''quantity'' JNum (ou_quantity u) @
      optional ''filled_quantity'' JNum (ou_filled_quantity u) @ optional ''remaining_quantity'' JNum (ou_remaining_quantity u) @
      optional ''avg_fill_price'' JNum (ou_avg_fill_price u) @ optional ''last_trade_qty'' JNum (ou_last_trade_qty u) @
      optional ''last_trade_price'' JNum (ou_last_trade_price u) @ optional ''client_order_id'' JStr (ou_client_order_id u) @
      optional ''bulk_id'' JStr (ou_bulk_id u)))"

definition publish_balance_update ::
  "int \<Rightarrow> int \<Rightarrow> string \<Rightarrow> rat \<Rightarrow> rat \<Rightarrow> rat \<Rightarrow> rat option \<Rightarrow> string option \<Rightarrow> int option \<Rightarrow> string \<times> message" where
  "publish_balance_update now user_id asset all locked available change reason order_id = (balances_channel user_id, envelope now ''balance''
     ([(''asset'', JStr asset), (''total'', JNum all), (''locked'', JNum locked), (''available'', JNum available)] @
      optional ''change'' JNum change @ optional ''reason'' JStr reason @ optional ''order_id'' JInt order_id))"

definition publish_bulk_result :: "int \<Rightarrow> int \<Rightarrow> string \<Rightarrow> string \<Rightarrow> int \<Rightarrow> int \<Rightarrow> json list option \<Rightarrow> string \<times> message" where
  "publish_bulk_result now user_id bulk_id action n succeeded failed = (bulk_channel user_id, envelope now ''bulk_result''
     [(''bulk_id'', JStr bulk_id), (''action'', JStr action), (''total'', JInt n), (''succeeded'', JInt succeeded),
      (''failed'', JArr (case failed of None \<Rightarrow> [] | Some fs \<Rightarrow> fs))])"

definition publish_sl_tp_activated :: "int \<Rightarrow> int \<Rightarrow> int \<Rightarrow> int option \<Rightarrow> int option \<Rightarrow> string \<times> message" where
  "publish_sl_tp_activated now user_id parent_order_id sl_order_id tp_order_id = (orders_channel user_id, envelope now ''sl_tp_activated''
     ([(''parent_order_id'', JInt parent_order_id)] @ optional ''sl_order_id'' JInt sl_order_id @ optional ''tp_order_id'' JInt tp_order_id))"

subsection \<open>The emulator\<close>

text \<open>One draw of the random walk: the shock, the quantity and whether the print is a buy.\<close>

fun run_random_walk :: "int \<Rightarrow> string \<Rightarrow> rat \<Rightarrow> (rat \<times> rat \<times> bool) list \<Rightarrow> (string \<times> message) list" where
  "run_random_walk now symbol price [] = []"
| "run_random_walk now symbol price ((shock, qty, buy) # draws) =
     (let price1 = max (rnd (1 / 100)) (dmul price (dadd 1 shock)) in
      publish_trade now symbol (-1) price1 qty (if buy then ''buy'' else ''sell'') None None # run_random_walk now symbol price1 draws)"

definition inject_trade :: "int \<Rightarrow> string \<Rightarrow> rat \<Rightarrow> rat \<Rightarrow> string \<Rightarrow> string \<times> message" where
  "inject_trade now symbol price quantity side = publish_trade now symbol (-1) (rnd price) (rnd quantity) side None None"

subsection \<open>Properties of the channels and messages\<close>

lemma private_channels_disjoint:
  "set (private_channels u) \<inter> set (private_channels v) \<noteq> {} \<longleftrightarrow> u = v"
  by (auto simp: private_channels_def channel_defs)

lemma public_private_disjoint: "set (public_channels s) \<inter> set (private_channels u) = {}"
  by (auto simp: public_channels_def private_channels_def channel_defs)

lemma envelope_keeps:
  assumes "k \<notin> fst ` set data"
  shows "map_of (envelope now ev data) k =
    (if k = ''event'' then Some (JStr ev) else if k = ''ts'' then Some (JInt (int_of_float (dmul (unix_time now) 1000))) else None)"
proof -
  have "map_of (fold (\<lambda>(k, v). dict_put k v) data d) k = map_of d k" for d
    using assms by (induction data arbitrary: d) (auto simp: map_of_dict_put)
  then show ?thesis by (simp add: envelope_def)
qed

end
