(* ===== verification/Ws.thy ===== *)
theory Ws
  imports Pubsub
begin

section \<open>The WebSocket gateway\<close>

text \<open>
  \<open>ws/manager.py\<close>, \<open>ws/private.py\<close> and \<open>ws/public.py\<close>. The manager keeps two dictionaries of connection sets; a set
  is a list without repetitions. Background tasks that listen to Redis are recorded with what they listen to: one per
  started symbol, one per private connection, and the own subscription of each public connection. \<open>alive\<close> says on
  which connections a send succeeds. The log \<open>g_sent\<close> has every message forwarded from a channel, with its channel.
\<close>

type_synonym socket = nat

record gateway =
  g_public :: "(string \<times> socket list) list"
  g_private :: "(int \<times> socket list) list"
  g_running :: bool
  g_public_tasks :: "string list"
  g_private_tasks :: "(socket \<times> int) list"
  g_clients :: "(socket \<times> string) list"
  g_sent :: "(socket \<times> string \<times> message) list"

definition new_gateway :: gateway where
  "new_gateway = \<lparr>g_public = [], g_private = [], g_running = False, g_public_tasks = [], g_private_tasks = [], g_clients = [], g_sent = []\<rparr>"

subsection \<open>Registries\<close>

definition conns_of :: "'k \<Rightarrow> ('k \<times> socket list) list \<Rightarrow> socket list" where
  "conns_of k reg = (case map_of reg k of None \<Rightarrow> [] | Some cs \<Rightarrow> cs)"

definition reg_add :: "'k \<Rightarrow> socket \<Rightarrow> ('k \<times> socket list) list \<Rightarrow> ('k \<times> socket list) list" where
  "reg_add k ws reg = (let cs = conns_of k reg in dict_put k (if ws \<in> set cs then cs else cs @ [ws]) reg)"

definition reg_discard :: "'k \<Rightarrow> socket \<Rightarrow> ('k \<times> socket list) list \<Rightarrow> ('k \<times> socket list) list" where
  "reg_discard k ws reg = (case map_of reg k of
     None \<Rightarrow> reg
   | Some cs \<Rightarrow> (let rest = filter (\<lambda>x. x \<noteq> ws) cs in if rest = [] then dict_del k reg else dict_put k rest reg))"

definition connect_public :: "socket \<Rightarrow> string \<Rightarrow> gateway \<Rightarrow> gateway" where
  "connect_public ws symbol g = g\<lparr>g_public := reg_add symbol ws (g_public g)\<rparr>"

definition disconnect_public :: "socket \<Rightarrow> string \<Rightarrow> gateway \<Rightarrow> gateway" where
  "disconnect_public ws symbol g = g\<lparr>g_public := reg_discard symbol ws (g_public g)\<rparr>"

definition connect_private :: "socket \<Rightarrow> int \<Rightarrow> gateway \<Rightarrow> gateway" where
  "connect_private ws user_id g = g\<lparr>g_private := reg_add user_id ws (g_private g)\<rparr>"

definition disconnect_private :: "socket \<Rightarrow> int \<Rightarrow> gateway \<Rightarrow> gateway" where
  "disconnect_private ws user_id g = g\<lparr>g_private := reg_discard user_id ws (g_private g)\<rparr>"

subsection \<open>Broadcasting\<close>

definition send_all :: "(socket \<Rightarrow> bool) \<Rightarrow> socket list \<Rightarrow> string \<Rightarrow> message \<Rightarrow> gateway \<Rightarrow> gateway" where
  "send_all alive conns channel msg g = g\<lparr>g_sent := g_sent g @ map (\<lambda>ws. (ws, channel, msg)) (filter alive conns)\<rparr>"

definition broadcast_public :: "(socket \<Rightarrow> bool) \<Rightarrow> string \<Rightarrow> string \<Rightarrow> message \<Rightarrow> gateway \<Rightarrow> gateway" where
  "broadcast_public alive symbol channel msg g = (let conns = conns_of symbol (g_public g); dead = filter (\<lambda>ws. \<not> alive ws) conns in
     fold (\<lambda>ws. disconnect_public ws symbol) dead (send_all alive conns channel msg g))"

definition broadcast_private :: "(socket \<Rightarrow> bool) \<Rightarrow> int \<Rightarrow> string \<Rightarrow> message \<Rightarrow> gateway \<Rightarrow> gateway" where
  "broadcast_private alive user_id channel msg g = (let conns = conns_of user_id (g_private g); dead = filter (\<lambda>ws. \<not> alive ws) conns in
     fold (\<lambda>ws. disconnect_private ws user_id) dead (send_all alive conns channel msg g))"

text \<open>
  What a message on a channel sets off: every listening task forwards it. The tasks run in some order; here the
  symbol tasks first, then the private ones, then the connections with their own subscription.
\<close>

definition public_subscribers :: "(socket \<Rightarrow> bool) \<Rightarrow> string \<Rightarrow> message \<Rightarrow> gateway \<Rightarrow> gateway" where
  "public_subscribers alive channel msg g =
     fold (\<lambda>symbol. if channel \<in> set (public_channels symbol) then broadcast_public alive symbol channel msg else id) (g_public_tasks g) g"

definition private_subscribers :: "(socket \<Rightarrow> bool) \<Rightarrow> string \<Rightarrow> message \<Rightarrow> gateway \<Rightarrow> gateway" where
  "private_subscribers alive channel msg g =
     fold (\<lambda>(ws, user_id). if channel \<in> set (private_channels user_id) then broadcast_private alive user_id channel msg else id)
       (g_private_tasks g) g"

definition client_subscriptions :: "(socket \<Rightarrow> bool) \<Rightarrow> string \<Rightarrow> message \<Rightarrow> gateway \<Rightarrow> gateway" where
  "client_subscriptions alive channel msg g =
     send_all alive (map fst (filter (\<lambda>(ws, symbol). channel \<in> set (public_channels symbol)) (g_clients g))) channel msg g"

definition deliver :: "(socket \<Rightarrow> bool) \<Rightarrow> string \<Rightarrow> message \<Rightarrow> gateway \<Rightarrow> gateway" where
  "deliver alive channel msg g =
     client_subscriptions alive channel msg (private_subscribers alive channel msg (public_subscribers alive channel msg g))"

subsection \<open>Tasks and handlers\<close>

definition start_subscribers :: "string list \<Rightarrow> gateway \<Rightarrow> gateway" where
  "start_subscribers symbols g = (if g_running g then g else g\<lparr>g_running := True, g_public_tasks := g_public_tasks g @ symbols\<rparr>)"

definition stop_subscribers :: "gateway \<Rightarrow> gateway" where
  "stop_subscribers g = g\<lparr>g_running := False, g_public_tasks := []\<rparr>"

text \<open>The loop of a private task runs while the manager does.\<close>

definition subscribe_private_channel :: "socket \<Rightarrow> int \<Rightarrow> gateway \<Rightarrow> gateway" where
  "subscribe_private_channel ws user_id g = (if g_running g then g\<lparr>g_private_tasks := g_private_tasks g @ [(ws, user_id)]\<rparr> else g)"

text \<open>
  After a successful handshake: the connection is registered, the greeting is sent and the task is started; when the
  greeting cannot be sent the handler ends there, with the connection still registered.
\<close>

definition open_private :: "(socket \<Rightarrow> bool) \<Rightarrow> socket \<Rightarrow> int \<Rightarrow> gateway \<Rightarrow> gateway" where
  "open_private alive ws user_id g = (let g1 = connect_private ws user_id g in
     if alive ws then subscribe_private_channel ws user_id g1 else g1)"

definition close_private :: "socket \<Rightarrow> int \<Rightarrow> gateway \<Rightarrow> gateway" where
  "close_private ws user_id g = (disconnect_private ws user_id g)
     \<lparr>g_private_tasks := filter (\<lambda>t. t \<noteq> (ws, user_id)) (g_private_tasks g)\<rparr>"

definition open_public :: "socket \<Rightarrow> string \<Rightarrow> gateway \<Rightarrow> gateway" where
  "open_public ws symbol g = (connect_public ws symbol g)\<lparr>g_clients := g_clients g @ [(ws, symbol)]\<rparr>"

definition close_public :: "socket \<Rightarrow> string \<Rightarrow> gateway \<Rightarrow> gateway" where
  "close_public ws symbol g = (disconnect_public ws symbol g)\<lparr>g_clients := filter (\<lambda>t. t \<noteq> (ws, symbol)) (g_clients g)\<rparr>"

definition get_stats :: "gateway \<Rightarrow> (string \<times> nat) list \<times> (int \<times> nat) list \<times> nat \<times> nat" where
  "get_stats g = (map (\<lambda>(k, cs). (k, length cs)) (g_public g), map (\<lambda>(k, cs). (k, length cs)) (g_private g),
     sum_list (map (\<lambda>(k, cs). length cs) (g_public g)), sum_list (map (\<lambda>(k, cs). length cs) (g_private g)))"

subsection \<open>The private handshake\<close>

definition check_ws_key :: "crypto \<Rightarrow> string \<Rightarrow> int \<Rightarrow> string \<Rightarrow> ('s, int) world_prog" where
  "check_ws_key C api_key ts signature =
     bindP (get_by_api_key api_key) (\<lambda>row. case row of
       None \<Rightarrow> raiseP MissingApiKeyError
     | Some k \<Rightarrow> if k_is_revoked k then raiseP MissingApiKeyError
       else bindP (getP w_now) (\<lambda>clock.
         bindP (liftP (verify_ws_signature C clock (k_secret_hash k) api_key ts signature None)) (\<lambda>valid.
         if \<not> valid then raiseP InvalidSignatureError else retP (k_user_id k))))"

definition try_header_auth :: "crypto \<Rightarrow> request \<Rightarrow> ('s, int option) world_prog" where
  "try_header_auth C rq =
     (if header (rq_x_api_key rq) = [] \<or> header (rq_x_timestamp rq) = [] \<or> header (rq_x_signature rq) = [] then retP None
      else case py_int (header (rq_x_timestamp rq)) of
        Inl e \<Rightarrow> raiseP ExpiredTimestampError
      | Inr ts \<Rightarrow> bindP (check_ws_key C (header (rq_x_api_key rq)) ts (header (rq_x_signature rq))) (\<lambda>u. retP (Some u)))"

text \<open>The first message of a client that sent no headers; absent fields are \<open>None\<close>.\<close>

record auth_message =
  am_action :: "string option"
  am_api_key :: "string option"
  am_timestamp :: json
  am_signature :: "string option"

text \<open>\<open>int(v)\<close> of a JSON value, and whether the value is falsy.\<close>

fun json_int :: "json \<Rightarrow> (exn, int) result" where
  "json_int (JInt i) = Inr i"
| "json_int (JNum x) = Inr (int_of_float x)"
| "json_int (JStr s) = py_int s"
| "json_int (JBool b) = Inr (if b then 1 else 0)"
| "json_int _ = Inl TypeError"

fun json_falsy :: "json \<Rightarrow> bool" where
  "json_falsy JNull \<longleftrightarrow> True"
| "json_falsy (JBool b) \<longleftrightarrow> \<not> b"
| "json_falsy (JStr s) \<longleftrightarrow> s = []"
| "json_falsy (JInt i) \<longleftrightarrow> i = 0"
| "json_falsy (JNum x) \<longleftrightarrow> x = 0"
| "json_falsy (JArr xs) \<longleftrightarrow> xs = []"
| "json_falsy (JObj d) \<longleftrightarrow> d = []"

definition wait_for_auth_message :: "crypto \<Rightarrow> auth_message \<Rightarrow> ('s, int) world_prog" where
  "wait_for_auth_message C msg =
     (if am_action msg \<noteq> Some ''auth'' then raiseP (ValueError ''Expected auth message'')
      else if header (am_api_key msg) = [] \<or> json_falsy (am_timestamp msg) \<or> header (am_signature msg) = []
      then raiseP (ValueError ''Missing api_key/timestamp/signature in auth message'')
      else case json_int (am_timestamp msg) of
        Inl e \<Rightarrow> raiseP ExpiredTimestampError
      | Inr ts \<Rightarrow> check_ws_key C (header (am_api_key msg)) ts (header (am_signature msg)))"

datatype handshake = Accepted int | AuthTimeout | AuthFailed

text \<open>The message is \<open>None\<close> when none arrives within five seconds.\<close>

definition private_handshake :: "crypto \<Rightarrow> request \<Rightarrow> auth_message option \<Rightarrow> ('s, handshake) world_prog" where
  "private_handshake C rq msg =
     bindP (try_header_auth C rq) (\<lambda>found. case found of
       Some u \<Rightarrow> retP (Accepted u)
     | None \<Rightarrow> (case msg of
         None \<Rightarrow> retP AuthTimeout
       | Some m \<Rightarrow> tryP (bindP (wait_for_auth_message C m) (\<lambda>u. retP (Accepted u))) (\<lambda>e. retP AuthFailed)))"

subsection \<open>The gateway as a state machine\<close>

datatype gw_event =
    OpenPublic socket string
  | ClosePublic socket string
  | OpenPrivate socket int
  | ClosePrivate socket int
  | Publish string message
  | Start "string list"
  | Stop

fun gw_step :: "(socket \<Rightarrow> bool) \<Rightarrow> gw_event \<Rightarrow> gateway \<Rightarrow> gateway" where
  "gw_step alive (OpenPublic ws symbol) = open_public ws symbol"
| "gw_step alive (ClosePublic ws symbol) = close_public ws symbol"
| "gw_step alive (OpenPrivate ws u) = open_private alive ws u"
| "gw_step alive (ClosePrivate ws u) = close_private ws u"
| "gw_step alive (Publish channel msg) = deliver alive channel msg"
| "gw_step alive (Start symbols) = start_subscribers symbols"
| "gw_step alive Stop = stop_subscribers"

text \<open>
  \<open>auth ws\<close> is the user as whom the handshake of a connection on the private route succeeded, and \<open>None\<close> for a
  connection on the public route.
\<close>

fun permitted :: "(socket \<Rightarrow> int option) \<Rightarrow> gw_event \<Rightarrow> bool" where
  "permitted auth (OpenPublic ws symbol) \<longleftrightarrow> auth ws = None"
| "permitted auth (OpenPrivate ws u) \<longleftrightarrow> auth ws = Some u"
| "permitted auth _ \<longleftrightarrow> True"

inductive reachable :: "(socket \<Rightarrow> int option) \<Rightarrow> gateway \<Rightarrow> bool" for auth where
  start: "reachable auth new_gateway"
| step: "reachable auth g \<Longrightarrow> permitted auth e \<Longrightarrow> reachable auth (gw_step alive e g)"

definition registry_ok :: "('k \<Rightarrow> socket \<Rightarrow> bool) \<Rightarrow> ('k \<times> socket list) list \<Rightarrow> bool" where
  "registry_ok P reg \<longleftrightarrow> distinct (map fst reg) \<and>
     (\<forall>k cs. map_of reg k = Some cs \<longrightarrow> cs \<noteq> [] \<and> distinct cs \<and> (\<forall>ws\<in>set cs. P k ws))"

definition gateway_ok :: "(socket \<Rightarrow> int option) \<Rightarrow> gateway \<Rightarrow> bool" where
  "gateway_ok auth g \<longleftrightarrow> registry_ok (\<lambda>symbol ws. auth ws = None) (g_public g) \<and> registry_ok (\<lambda>u ws. auth ws = Some u) (g_private g) \<and>
     (\<forall>(ws, u)\<in>set (g_private_tasks g). auth ws = Some u) \<and> (\<forall>(ws, symbol)\<in>set (g_clients g). auth ws = None) \<and>
     (\<forall>(ws, channel, msg)\<in>set (g_sent g). \<forall>u. channel \<in> set (private_channels u) \<longrightarrow> auth ws = Some u)"

lemma conns_step: "conns_of u ((k, cs) # reg) = (if u = k then cs else conns_of u reg)"
  by (simp add: conns_of_def)

lemma conns_ok: "registry_ok P reg \<Longrightarrow> ws \<in> set (conns_of k reg) \<Longrightarrow> P k ws"
  by (auto simp: registry_ok_def conns_of_def split: option.splits)

lemma registry_entries: "registry_ok P reg \<Longrightarrow> distinct (map fst reg) \<and> list_all (\<lambda>(k, cs). cs \<noteq> [] \<and> distinct cs) reg"
  by (fastforce simp: registry_ok_def list_all_iff)

lemma registry_put:
  assumes "registry_ok P reg" "cs \<noteq> []" "distinct cs" "\<forall>ws\<in>set cs. P k ws"
  shows "registry_ok P (dict_put k cs reg)"
  using assms by (auto simp: registry_ok_def distinct_dict_put map_of_dict_put simp del: map_of_eq_Some_iff split: if_splits)

lemma conns_distinct: "registry_ok P reg \<Longrightarrow> distinct (conns_of k reg)"
  by (auto simp: registry_ok_def conns_of_def simp del: map_of_eq_Some_iff split: option.split)

lemma registry_add: "registry_ok P reg \<Longrightarrow> P k ws \<Longrightarrow> registry_ok P (reg_add k ws reg)"
  unfolding reg_add_def Let_def by (rule registry_put) (auto simp: conns_distinct dest: conns_ok)

lemma registry_discard:
  assumes "registry_ok P reg"
  shows "registry_ok P (reg_discard k ws reg)"
proof (cases "map_of reg k")
  case None
  then show ?thesis using assms by (simp add: reg_discard_def)
next
  case (Some cs)
  then have cs: "distinct cs" "\<forall>ws\<in>set cs. P k ws" using assms by (auto simp: registry_ok_def simp del: map_of_eq_Some_iff)
  have del: "registry_ok P (dict_del k reg)"
    using assms by (auto simp: registry_ok_def distinct_dict_del map_of_dict_del simp del: map_of_eq_Some_iff split: if_splits)
  show ?thesis using Some cs del by (auto simp: reg_discard_def Let_def intro!: registry_put assms)
qed

lemma gateway_disconnect:
  "gateway_ok auth g \<Longrightarrow> gateway_ok auth (disconnect_public ws symbol g)"
  "gateway_ok auth g \<Longrightarrow> gateway_ok auth (disconnect_private ws u g)"
  by (simp_all add: gateway_ok_def disconnect_public_def disconnect_private_def registry_discard)

lemma gateway_send:
  "gateway_ok auth g \<Longrightarrow> (\<And>ws u. ws \<in> set conns \<Longrightarrow> channel \<in> set (private_channels u) \<Longrightarrow> auth ws = Some u) \<Longrightarrow>
    gateway_ok auth (send_all alive conns channel msg g)"
  by (auto simp: gateway_ok_def send_all_def)

lemma fold_keeps: "(\<And>x s. x \<in> set xs \<Longrightarrow> P s \<Longrightarrow> P (f x s)) \<Longrightarrow> P s \<Longrightarrow> P (fold f xs s)"
  by (induction xs arbitrary: s) auto

lemma gateway_drop:
  "gateway_ok auth g \<Longrightarrow> gateway_ok auth (fold (\<lambda>ws. disconnect_public ws symbol) dead g)"
  "gateway_ok auth g \<Longrightarrow> gateway_ok auth (fold (\<lambda>ws. disconnect_private ws u) dead g)"
  by (induction dead arbitrary: g) (simp_all add: gateway_disconnect)

lemma gateway_broadcast:
  assumes "gateway_ok auth g"
  shows "channel \<in> set (public_channels symbol) \<Longrightarrow> gateway_ok auth (broadcast_public alive symbol channel msg g)"
    and "channel \<in> set (private_channels u) \<Longrightarrow> gateway_ok auth (broadcast_private alive u channel msg g)"
proof -
  have no_private: "channel \<notin> set (private_channels u)" if "channel \<in> set (public_channels symbol)" for u
    using that public_private_disjoint [of symbol u] by auto
  show "gateway_ok auth (broadcast_public alive symbol channel msg g)" if "channel \<in> set (public_channels symbol)"
    unfolding broadcast_public_def Let_def
    by (intro gateway_drop gateway_send assms) (simp add: no_private [OF that])
  have conns: "auth ws = Some v" if "channel \<in> set (private_channels u)" "ws \<in> set (conns_of u (g_private g))" "channel \<in> set (private_channels v)" for ws v
  proof -
    have "v = u" using that(1,3) private_channels_disjoint [of v u] by auto
    then show ?thesis using conns_ok [of \<open>\<lambda>u ws. auth ws = Some u\<close>, OF _ that(2)] assms by (simp add: gateway_ok_def)
  qed
  show "gateway_ok auth (broadcast_private alive u channel msg g)" if "channel \<in> set (private_channels u)"
    unfolding broadcast_private_def Let_def
    by (intro gateway_drop gateway_send assms) (rule conns [OF that])
qed

lemma gateway_deliver: "gateway_ok auth g \<Longrightarrow> gateway_ok auth (deliver alive channel msg g)"
proof -
  assume g: "gateway_ok auth g"
  have pub: "gateway_ok auth (public_subscribers alive channel msg g)" (is "gateway_ok auth ?g1")
    unfolding public_subscribers_def by (rule fold_keeps) (auto intro: gateway_broadcast g)
  have priv: "gateway_ok auth (private_subscribers alive channel msg ?g1)" (is "gateway_ok auth ?g2")
    unfolding private_subscribers_def by (rule fold_keeps) (auto intro: gateway_broadcast pub split: prod.split)
  show ?thesis
    unfolding deliver_def client_subscriptions_def
    using public_private_disjoint by (intro gateway_send priv) fastforce
qed

lemma gateway_step: "gateway_ok auth g \<Longrightarrow> permitted auth e \<Longrightarrow> gateway_ok auth (gw_step alive e g)"
proof (cases e)
  case (Publish channel msg)
  then show "gateway_ok auth g \<Longrightarrow> ?thesis" by (simp add: gateway_deliver)
qed (auto simp: gateway_ok_def open_public_def close_public_def open_private_def close_private_def connect_public_def disconnect_public_def
    connect_private_def disconnect_private_def subscribe_private_channel_def start_subscribers_def stop_subscribers_def Let_def
    registry_add registry_discard)

lemma gateway_reachable: "reachable auth g \<Longrightarrow> gateway_ok auth g"
proof (induction rule: reachable.induct)
  case start
  show ?case by (simp add: gateway_ok_def new_gateway_def registry_ok_def)
next
  case (step g e alive)
  then show ?case by (simp add: gateway_step)
qed

text \<open>
  C10. Private events stay private: whatever connections open, close and die, and whatever is published, a message
  from a channel of a user is forwarded only to connections whose handshake succeeded as that user.
\<close>

theorem private_events_confined:
  assumes "reachable auth g" and "(ws, channel, msg) \<in> set (g_sent g)" and "channel \<in> set (private_channels u)"
  shows "auth ws = Some u"
  using gateway_reachable [OF assms(1)] assms(2,3) by (auto simp: gateway_ok_def)

lemma registered_count:
  assumes "distinct (map fst reg)" "\<forall>(k, cs)\<in>set reg. distinct cs"
  shows "finite {(k, ws). ws \<in> set (conns_of k reg)} \<and> sum_list (map (\<lambda>(k, cs). length cs) reg) = card {(k, ws). ws \<in> set (conns_of k reg)}"
  using assms
proof (induction reg)
  case Nil
  then show ?case by (simp add: conns_of_def)
next
  case (Cons p reg)
  let ?S = "\<lambda>reg. {(k, ws). ws \<in> set (conns_of k reg)}"
  obtain k cs where p: "p = (k, cs)" by (cases p)
  have "map_of reg k = None" using Cons.prems(1) by (simp add: p map_of_eq_None_iff)
  then have k: "conns_of k reg = []" by (simp add: conns_of_def)
  have split: "?S (p # reg) = {k} \<times> set cs \<union> ?S reg"
  proof (intro set_eqI, clarify)
    fix u ws
    show "(u, ws) \<in> ?S (p # reg) \<longleftrightarrow> (u, ws) \<in> {k} \<times> set cs \<union> ?S reg"
      using k by (cases "u = k") (simp_all add: p conns_step)
  qed
  have "{k} \<times> set cs \<inter> ?S reg = {}" using k by auto
  then show ?case unfolding split using Cons by (simp add: p card_Un_disjoint distinct_card card_cartesian_product)
qed

text \<open>
  The registries stay clean: no symbol or user is kept with an empty set of connections, no connection is in a set
  twice, and the totals of \<open>get_stats\<close> are the numbers of registered connections.
\<close>

theorem registries_clean:
  assumes "reachable auth g"
  shows "distinct (map fst (g_public g)) \<and> distinct (map fst (g_private g)) \<and>
    list_all (\<lambda>(k, cs). cs \<noteq> [] \<and> distinct cs) (g_public g) \<and> list_all (\<lambda>(k, cs). cs \<noteq> [] \<and> distinct cs) (g_private g) \<and>
    snd (snd (snd (get_stats g))) = card {(u, ws). ws \<in> set (conns_of u (g_private g))}"
proof -
  have ok: "registry_ok (\<lambda>symbol ws. auth ws = None) (g_public g)" "registry_ok (\<lambda>u ws. auth ws = Some u) (g_private g)"
    using gateway_reachable [OF assms] by (simp_all add: gateway_ok_def)
  note entries = ok [THEN registry_entries]
  have "snd (snd (snd (get_stats g))) = sum_list (map (\<lambda>(k, cs). length cs) (g_private g))" by (simp add: get_stats_def)
  moreover have "\<forall>(k, cs)\<in>set (g_private g). distinct cs" using entries(2) by (auto simp: list_all_iff)
  ultimately show ?thesis using entries registered_count [of "g_private g"] by simp
qed

subsection \<open>How often an event is delivered\<close>

lemma conns_discard: "conns_of k (reg_discard k ws reg) = filter (\<lambda>x. x \<noteq> ws) (conns_of k reg)"
  by (auto simp: reg_discard_def conns_of_def Let_def map_of_dict_put map_of_dict_del split: option.split)

lemma drop_private:
  "g_sent (fold (\<lambda>ws. disconnect_private ws u) dead g) = g_sent g \<and>
   conns_of u (g_private (fold (\<lambda>ws. disconnect_private ws u) dead g)) = filter (\<lambda>x. x \<notin> set dead) (conns_of u (g_private g)) \<and>
   g_clients (fold (\<lambda>ws. disconnect_private ws u) dead g) = g_clients g"
  by (induction dead arbitrary: g) (auto simp: disconnect_private_def conns_discard intro: filter_cong)

lemma drop_public:
  "g_sent (fold (\<lambda>ws. disconnect_public ws s) dead g) = g_sent g \<and>
   conns_of s (g_public (fold (\<lambda>ws. disconnect_public ws s) dead g)) = filter (\<lambda>x. x \<notin> set dead) (conns_of s (g_public g)) \<and>
   g_clients (fold (\<lambda>ws. disconnect_public ws s) dead g) = g_clients g"
  by (induction dead arbitrary: g) (auto simp: disconnect_public_def conns_discard intro: filter_cong)

lemma filter_alive: "filter (\<lambda>x. x \<notin> set (filter (\<lambda>x. \<not> alive x) xs)) xs = filter alive xs"
  by (auto intro: filter_cong)

lemma broadcast_private_run:
  "g_sent (broadcast_private alive u channel msg g) = g_sent g @ map (\<lambda>ws. (ws, channel, msg)) (filter alive (conns_of u (g_private g)))"
  "conns_of u (g_private (broadcast_private alive u channel msg g)) = filter alive (conns_of u (g_private g))"
  "g_clients (broadcast_private alive u channel msg g) = g_clients g"
  by (simp_all add: broadcast_private_def Let_def drop_private send_all_def filter_alive del: set_filter)

lemma broadcast_public_run:
  "g_sent (broadcast_public alive s channel msg g) = g_sent g @ map (\<lambda>ws. (ws, channel, msg)) (filter alive (conns_of s (g_public g)))"
  "conns_of s (g_public (broadcast_public alive s channel msg g)) = filter alive (conns_of s (g_public g))"
  "g_clients (broadcast_public alive s channel msg g) = g_clients g"
  by (simp_all add: broadcast_public_def Let_def drop_public send_all_def filter_alive del: set_filter)

lemma count_once:
  "distinct conns \<Longrightarrow> ws \<in> set conns \<Longrightarrow> alive ws \<Longrightarrow> count_list (map (\<lambda>x. (x, channel, msg)) (filter alive conns)) (ws, channel, msg) = 1"
  by (induction conns) (auto simp: count_list_0_iff)

lemma fold_idle: "\<forall>x\<in>set xs. f x = id \<Longrightarrow> fold f xs g = g"
  by (induction xs) auto

lemma private_fold_count:
  assumes "channel \<in> set (private_channels u)" "alive ws"
  shows "distinct (conns_of u (g_private g)) \<Longrightarrow> ws \<in> set (conns_of u (g_private g)) \<Longrightarrow>
    count_list (g_sent (fold (\<lambda>(s, v). if channel \<in> set (private_channels v) then broadcast_private alive v channel msg else id) tasks g)) (ws, channel, msg) =
    count_list (g_sent g) (ws, channel, msg) + length (filter (\<lambda>t. snd t = u) tasks) \<and>
    g_clients (fold (\<lambda>(s, v). if channel \<in> set (private_channels v) then broadcast_private alive v channel msg else id) tasks g) = g_clients g"
proof (induction tasks arbitrary: g)
  case Nil
  then show ?case by simp
next
  case (Cons t tasks)
  obtain s v where t: "t = (s, v)" by (cases t)
  show ?case
  proof (cases "v = u")
    case True
    have "distinct (conns_of u (g_private (broadcast_private alive u channel msg g)))" "ws \<in> set (conns_of u (g_private (broadcast_private alive u channel msg g)))"
      using Cons.prems assms(2) by (simp_all add: broadcast_private_run)
    from Cons.IH [OF this] show ?thesis
      using assms(1) Cons.prems by (simp add: t True broadcast_private_run count_once assms(2))
  next
    case False
    then have "channel \<notin> set (private_channels v)" using assms(1) private_channels_disjoint [of v u] by auto
    then show ?thesis using Cons False by (simp add: t)
  qed
qed

lemma public_channels_inj: "channel \<in> set (public_channels s) \<Longrightarrow> channel \<in> set (public_channels v) \<longleftrightarrow> v = s"
  by (auto simp: public_channels_def channel_defs)

lemma public_fold_count:
  assumes "channel \<in> set (public_channels s)" "alive ws"
  shows "distinct (conns_of s (g_public g)) \<Longrightarrow> ws \<in> set (conns_of s (g_public g)) \<Longrightarrow>
    count_list (g_sent (fold (\<lambda>v. if channel \<in> set (public_channels v) then broadcast_public alive v channel msg else id) tasks g)) (ws, channel, msg) =
    count_list (g_sent g) (ws, channel, msg) + count_list tasks s \<and>
    g_clients (fold (\<lambda>v. if channel \<in> set (public_channels v) then broadcast_public alive v channel msg else id) tasks g) = g_clients g"
proof (induction tasks arbitrary: g)
  case Nil
  then show ?case by simp
next
  case (Cons v tasks)
  show ?case
  proof (cases "v = s")
    case True
    have "distinct (conns_of s (g_public (broadcast_public alive s channel msg g)))" "ws \<in> set (conns_of s (g_public (broadcast_public alive s channel msg g)))"
      using Cons.prems assms(2) by (simp_all add: broadcast_public_run)
    from Cons.IH [OF this] show ?thesis
      using assms(1) Cons.prems by (simp add: True broadcast_public_run count_once assms(2))
  next
    case False
    then show ?thesis using Cons by (simp add: public_channels_inj [OF assms(1)])
  qed
qed

lemma reachable_conns:
  assumes "reachable auth g"
  shows "distinct (conns_of s (g_public g))" "distinct (conns_of u (g_private g))"
  using gateway_reachable [OF assms] by (auto simp: gateway_ok_def dest: conns_distinct)

text \<open>
  An event of a user reaches a live registered connection of the user once for every running private task of the
  user. A task is started for every connection and forwards to all of them, so a user with two open sessions gets every event
  twice in each.
\<close>

theorem private_delivery_count:
  assumes "reachable auth g" and "channel \<in> set (private_channels u)" and "ws \<in> set (conns_of u (g_private g))" and "alive ws"
  shows "count_list (g_sent (deliver alive channel msg g)) (ws, channel, msg) =
    count_list (g_sent g) (ws, channel, msg) + length (filter (\<lambda>t. snd t = u) (g_private_tasks g))"
proof -
  have no: "channel \<notin> set (public_channels s)" for s using assms(2) public_private_disjoint [of s u] by auto
  have "public_subscribers alive channel msg g = g" unfolding public_subscribers_def by (rule fold_idle) (simp add: no)
  then show ?thesis
    using private_fold_count [of channel u alive ws g msg "g_private_tasks g"] reachable_conns(2) [OF assms(1), of u] assms
    by (simp add: deliver_def private_subscribers_def client_subscriptions_def send_all_def no)
qed

text \<open>
  A market event reaches a live connection that follows its symbol once by the connection's own subscription, and
  once more for every task started for the symbol: on the symbols known at startup every event arrives twice.
\<close>

theorem public_delivery_count:
  assumes "reachable auth g" and "channel \<in> set (public_channels s)" and "ws \<in> set (conns_of s (g_public g))" and "alive ws"
  shows "count_list (g_sent (deliver alive channel msg g)) (ws, channel, msg) =
    count_list (g_sent g) (ws, channel, msg) + count_list (g_public_tasks g) s + count_list (g_clients g) (ws, s)"
proof -
  let ?g1 = "public_subscribers alive channel msg g"
  have no: "channel \<notin> set (private_channels u)" for u using assms(2) public_private_disjoint [of s u] by auto
  have priv: "private_subscribers alive channel msg ?g1 = ?g1" unfolding private_subscribers_def by (rule fold_idle) (auto simp: no)
  have own: "count_list (map (\<lambda>x. (x, channel, msg)) (filter alive (map fst (filter (\<lambda>(ws, v). v = s) cs)))) (ws, channel, msg) = count_list cs (ws, s)" for cs
    using assms(4) by (induction cs) auto
  show ?thesis
    using public_fold_count [of channel s alive ws g msg "g_public_tasks g"] reachable_conns(1) [OF assms(1), of s] assms own [of "g_clients g"]
    by (simp add: deliver_def priv client_subscriptions_def send_all_def public_channels_inj [OF assms(2)]) (simp add: public_subscribers_def public_channels_inj [OF assms(2)])
qed

subsection \<open>Who is let in\<close>

text \<open>The key, time and signature a client offers: its headers when it sends all three, its first message otherwise.\<close>

definition offered :: "request \<Rightarrow> auth_message option \<Rightarrow> (string \<times> int \<times> string) option" where
  "offered rq msg =
     (if header (rq_x_api_key rq) \<noteq> [] \<and> header (rq_x_timestamp rq) \<noteq> [] \<and> header (rq_x_signature rq) \<noteq> []
      then (case py_int (header (rq_x_timestamp rq)) of Inl e \<Rightarrow> None | Inr ts \<Rightarrow> Some (header (rq_x_api_key rq), ts, header (rq_x_signature rq)))
      else (case msg of None \<Rightarrow> None | Some m \<Rightarrow>
        if am_action m = Some ''auth'' \<and> header (am_api_key m) \<noteq> [] \<and> \<not> json_falsy (am_timestamp m) \<and> header (am_signature m) \<noteq> []
        then (case json_int (am_timestamp m) of Inl e \<Rightarrow> None | Inr ts \<Rightarrow> Some (header (am_api_key m), ts, header (am_signature m)))
        else None))"

definition ws_signed_by :: "crypto \<Rightarrow> int \<Rightarrow> api_key \<Rightarrow> string \<times> int \<times> string \<Rightarrow> bool" where
  "ws_signed_by C clock k = (\<lambda>(api_key, ts, sig). k_api_key k = api_key \<and> \<bar>int_of_float (unix_time clock) - ts\<bar> \<le> 30 \<and> is_ascii sig \<and>
     sig = compute_ws_signature C (k_secret_hash k) api_key ts)"

lemma verify_ws_signature_True:
  "verify_ws_signature C clock secret api_key ts sig None = Inr True \<longleftrightarrow>
    \<bar>int_of_float (unix_time clock) - ts\<bar> \<le> 30 \<and> is_ascii sig \<and> sig = compute_ws_signature C secret api_key ts"
  by (auto simp: verify_ws_signature_def compare_digest_True Let_def get_settings_def not_less)

lemma check_ws_key_run:
  "accounts_ok w \<Longrightarrow> check_ws_key C a ts sig w =
    (case find (\<lambda>k. k_api_key k = a) (w_api_keys w) of
       None \<Rightarrow> Inl MissingApiKeyError
     | Some k \<Rightarrow> if k_is_revoked k then Inl MissingApiKeyError
       else case verify_ws_signature C (w_now w) (k_secret_hash k) a ts sig None of
         Inl e \<Rightarrow> Inl e
       | Inr valid \<Rightarrow> if \<not> valid then Inl InvalidSignatureError else Inr (k_user_id k), w)"
  by (auto simp: check_ws_key_def prog_defs liftP_def get_by_api_key_run split: option.split sum.split)

lemma check_ws_key_iff:
  assumes "accounts_ok w"
  shows "check_ws_key C a ts sig w = (Inr u, w1) \<longleftrightarrow>
    w1 = w \<and> (\<exists>k\<in>set (w_api_keys w). \<not> k_is_revoked k \<and> k_user_id k = u \<and> ws_signed_by C (w_now w) k (a, ts, sig))"
proof (cases "find (\<lambda>k. k_api_key k = a) (w_api_keys w)")
  case None
  moreover from None have "k_api_key k \<noteq> a" if "k \<in> set (w_api_keys w)" for k using that by (auto simp: find_None_iff)
  ultimately show ?thesis by (auto simp: check_ws_key_run [OF assms] ws_signed_by_def)
next
  case (Some k)
  then have k: "k \<in> set (w_api_keys w)" "k_api_key k = a" by (auto simp: find_Some_iff)
  have only: "j = k" if "j \<in> set (w_api_keys w)" "k_api_key j = a" for j
    using find_key_Some [OF accounts_okD(4) [OF assms] that] Some by simp
  have "check_ws_key C a ts sig w = (Inr u, w1) \<longleftrightarrow> w1 = w \<and> \<not> k_is_revoked k \<and> k_user_id k = u \<and>
      verify_ws_signature C (w_now w) (k_secret_hash k) a ts sig None = Inr True"
    by (auto simp: check_ws_key_run [OF assms] Some split: sum.splits if_splits)
  moreover have "verify_ws_signature C (w_now w) (k_secret_hash k) a ts sig None = Inr True \<longleftrightarrow> ws_signed_by C (w_now w) k (a, ts, sig)"
    using k(2) by (simp add: verify_ws_signature_True ws_signed_by_def)
  moreover have "k_api_key j = a" if "ws_signed_by C (w_now w) j (a, ts, sig)" for j using that by (simp add: ws_signed_by_def)
  ultimately show ?thesis using k(1) only by blast
qed

lemma check_ws_key_unchanged:
  assumes "accounts_ok w"
  obtains r where "check_ws_key C a ts sig w = (r, w)"
  using check_ws_key_run [OF assms] by blast

text \<open>
  C31. The private route lets a client in as a user exactly when the credentials it offers are signed with an
  unrevoked key of the user within the replay window; no database state changes either way. The permissions of the key
  play no part.
\<close>

theorem private_handshake_exact:
  assumes "accounts_ok w"
  shows "private_handshake C rq msg w = (Inr (Accepted u), w1) \<longleftrightarrow>
    w1 = w \<and> (\<exists>cred. offered rq msg = Some cred \<and>
      (\<exists>k\<in>set (w_api_keys w). \<not> k_is_revoked k \<and> k_user_id k = u \<and> ws_signed_by C (w_now w) k cred))"
proof (cases "offered rq msg")
  case None
  then show ?thesis
    by (auto simp: private_handshake_def try_header_auth_def wait_for_auth_message_def offered_def prog_defs tryP_def
        split: if_splits option.splits sum.splits)
next
  case (Some cred)
  obtain a ts sig where cred: "cred = (a, ts, sig)" by (cases cred)
  obtain r where r: "check_ws_key C a ts sig w = (r, w)" by (rule check_ws_key_unchanged [OF assms])
  have "private_handshake C rq msg w = (Inr (Accepted u), w1) \<longleftrightarrow> check_ws_key C a ts sig w = (Inr u, w1)"
    using Some r
    by (auto simp: private_handshake_def try_header_auth_def wait_for_auth_message_def offered_def cred prog_defs tryP_def
        split: if_splits option.splits sum.splits)
  then show ?thesis by (simp add: check_ws_key_iff [OF assms] Some cred)
qed

subsection \<open>Examples\<close>

text \<open>Connections 1 and 2 belong to user 7, connection 3 is public; one order event and one trade are published.\<close>

definition demo_auth :: "socket \<Rightarrow> int option" where
  "demo_auth ws = (if ws \<in> {1, 2} then Some 7 else None)"

definition demo_events :: "gw_event list" where
  "demo_events = [Start [''BTC''], OpenPrivate 1 7, OpenPrivate 2 7, OpenPublic 3 ''BTC'']"

lemma reachable_run: "reachable auth g \<Longrightarrow> list_all (permitted auth) es \<Longrightarrow> reachable auth (fold (gw_step alive) es g)"
  by (induction es arbitrary: g) (auto intro: reachable.step)

lemma demo_reachable: "reachable demo_auth (fold (gw_step alive) demo_events new_gateway)"
  by (rule reachable_run [OF reachable.start]) (simp add: demo_events_def demo_auth_def)

lemmas gateway_eval = demo_events_def new_gateway_def start_subscribers_def open_private_def open_public_def connect_private_def
  connect_public_def subscribe_private_channel_def reg_add_def conns_of_def Let_def

lemma demo_state:
  "fold (gw_step (\<lambda>ws. True)) demo_events new_gateway =
    \<lparr>g_public = [(''BTC'', [3])], g_private = [(7, [1, 2])], g_running = True, g_public_tasks = [''BTC''],
     g_private_tasks = [(1, 7), (2, 7)], g_clients = [(3, ''BTC'')], g_sent = []\<rparr>"
  by (simp add: gateway_eval)

theorem private_delivery_count_witness:
  "let g = fold (gw_step (\<lambda>ws. True)) demo_events new_gateway in
   count_list (g_sent (deliver (\<lambda>ws. True) (orders_channel 7) [] g)) (1, orders_channel 7, []) = 2"
  using private_delivery_count [OF demo_reachable, of "orders_channel 7" 7 1 "\<lambda>ws. True" "\<lambda>ws. True" "[]"]
  by (simp add: demo_state private_channels_def conns_of_def)

theorem public_delivery_count_witness:
  "let g = fold (gw_step (\<lambda>ws. True)) demo_events new_gateway in
   count_list (g_sent (deliver (\<lambda>ws. True) (trades_channel ''BTC'') [] g)) (3, trades_channel ''BTC'', []) = 2"
  using public_delivery_count [OF demo_reachable, of "trades_channel ''BTC''" "''BTC''" 3 "\<lambda>ws. True" "\<lambda>ws. True" "[]"]
  by (simp add: demo_state public_channels_def conns_of_def)

lemma demo_published:
  "reachable demo_auth (deliver (\<lambda>ws. True) (orders_channel 7) [] (fold (gw_step (\<lambda>ws. True)) demo_events new_gateway))"
  using reachable.step [OF demo_reachable, of "Publish (orders_channel 7) []" "\<lambda>ws. True" "\<lambda>ws. True"] by simp

theorem private_events_confined_witness:
  "let g = deliver (\<lambda>ws. True) (orders_channel 7) [] (fold (gw_step (\<lambda>ws. True)) demo_events new_gateway) in
   (2, orders_channel 7, []) \<in> set (g_sent g) \<and> demo_auth 2 = Some 7"
proof -
  let ?g = "deliver (\<lambda>ws. True) (orders_channel 7) [] (fold (gw_step (\<lambda>ws. True)) demo_events new_gateway)"
  have sent: "(2, orders_channel 7, []) \<in> set (g_sent ?g)"
    by (simp add: demo_state deliver_def public_subscribers_def private_subscribers_def client_subscriptions_def send_all_def
        broadcast_private_run broadcast_private_def disconnect_private_def Let_def public_channels_def private_channels_def channel_defs conns_of_def)
  then show ?thesis using private_events_confined [OF demo_published sent, of 7] by (simp add: private_channels_def Let_def)
qed

theorem registries_clean_witness:
  "let g = fold (gw_step (\<lambda>ws. True)) demo_events new_gateway in
   snd (snd (snd (get_stats g))) = 2 \<and> card {(u, ws). ws \<in> set (conns_of u (g_private g))} = 2"
  using registries_clean [OF demo_reachable, of "\<lambda>ws. True"] by (simp add: demo_state get_stats_def)

definition demo_ws_request :: request where
  "demo_ws_request = \<lparr>rq_method = ''GET'', rq_path = ''/ws/private'', rq_query = [], rq_body = None, rq_x_api_key = Some ''k1'',
     rq_x_timestamp = Some ''0'', rq_x_signature = Some (compute_ws_signature demo_crypto ''hsecret'' ''k1'' 0), rq_authorization = None\<rparr>"

theorem private_handshake_exact_witness:
  "let w = accounts [demo_key 1 2 ''k1''] in accounts_ok w \<and> private_handshake demo_crypto demo_ws_request None w = (Inr (Accepted 2), w)"
proof -
  let ?w = "accounts [demo_key 1 2 ''k1'']"
  have "offered demo_ws_request None = Some (''k1'', 0, compute_ws_signature demo_crypto ''hsecret'' ''k1'' 0)"
    "ws_signed_by demo_crypto (w_now ?w) (demo_key 1 2 ''k1'') (''k1'', 0, compute_ws_signature demo_crypto ''hsecret'' ''k1'' 0)"
    by code_simp+
  then have "private_handshake demo_crypto demo_ws_request None ?w = (Inr (Accepted 2), ?w)"
    unfolding private_handshake_exact [OF accounts_ok_accounts(2)] by (auto simp: accounts_def demo_key_def)
  then show ?thesis using accounts_ok_accounts(2) by (simp add: Let_def)
qed

end
