(* ===== verification/Lifecycle.thy ===== *)
theory Lifecycle
  imports Stop_Monitor Admin Ws
begin

section \<open>Start-up, monitoring and shutdown\<close>

text \<open>
  The life of the processes around the services: the tasks of \<open>StopMonitorService\<close> (\<open>start\<close>, \<open>_periodic_refresh\<close>, \<open>stop\<close>, the body of
  \<open>_monitor_symbol\<close>), the hooks of \<open>main.py\<close> and \<open>iter_messages\<close> of \<open>redis_client/pubsub.py\<close>. A task is the symbol it watches; a turn of the refresh
  loop and the arrival of a message are steps. Reconnecting is in the theory \<open>Subscribers\<close>.
\<close>

record monitor =
  mo_tasks :: "string list"
  mo_running :: bool
  mo_refreshing :: bool

definition new_monitor :: monitor where
  "new_monitor = \<lparr>mo_tasks = [], mo_running = False, mo_refreshing = False\<rparr>"

type_synonym ('s, 'a) monitor_prog = "(monitor \<times> 's world, exn, 'a) prog"

definition worldP :: "('s, 'a) world_prog \<Rightarrow> ('s, 'a) monitor_prog" where
  "worldP m = (\<lambda>(mo, w). case m w of (r, w1) \<Rightarrow> (r, (mo, w1)))"

definition spawn :: "string \<Rightarrow> monitor \<Rightarrow> monitor" where
  "spawn symbol mo = (if symbol \<in> set (mo_tasks mo) then mo else mo\<lparr>mo_tasks := mo_tasks mo @ [symbol]\<rparr>)"

definition monitor_start :: "'s redis_ops \<Rightarrow> interference \<Rightarrow> string list \<Rightarrow> ('s, unit) monitor_prog" where
  "monitor_start R env symbols =
     seqP (modP (\<lambda>(mo, w). (fold spawn symbols (mo\<lparr>mo_running := True\<rparr>), w)))
    (seqP (worldP (rescan_pending_stops R env symbols))
     (modP (\<lambda>(mo, w). (mo\<lparr>mo_refreshing := True\<rparr>, w))))"

definition watch_pair :: "'s redis_ops \<Rightarrow> interference \<Rightarrow> trading_pair \<Rightarrow> ('s, unit) monitor_prog" where
  "watch_pair R env pair =
     bindP (getP (\<lambda>(mo, w). p_symbol pair \<in> set (mo_tasks mo))) (\<lambda>known.
     if known then retP ()
     else seqP (modP (\<lambda>(mo, w). (spawn (p_symbol pair) mo, w))) (worldP (rescan_pending_stops R env [p_symbol pair])))"

definition periodic_refresh :: "'s redis_ops \<Rightarrow> interference \<Rightarrow> ('s, unit) monitor_prog" where
  "periodic_refresh R env =
     bindP (getP (\<lambda>(mo, w). mo_refreshing mo \<and> mo_running mo)) (\<lambda>on.
     if \<not> on then retP ()
     else tryP (bindP (worldP list_active) (\<lambda>pairs. forP pairs (watch_pair R env))) (\<lambda>e. retP ()))"

definition monitor_stop :: "monitor \<Rightarrow> monitor" where
  "monitor_stop mo = mo\<lparr>mo_running := False, mo_refreshing := False, mo_tasks := []\<rparr>"

subsection \<open>Messages\<close>

text \<open>
  What arrives from a subscription: the type of the notification and its data, with \<open>loads\<close> as the JSON decoder.
  A price that is no number (no publisher sends one) is not parsed.
\<close>

definition iter_messages :: "(string \<Rightarrow> message option) \<Rightarrow> bool \<Rightarrow> (string \<times> string) list \<Rightarrow> message list" where
  "iter_messages loads ignore_subscribe raws =
     map (\<lambda>(type, data). case loads data of None \<Rightarrow> [(''_raw'', JStr data)] | Some msg \<Rightarrow> msg)
       (filter (\<lambda>(type, data). type \<in> {''message'', ''pmessage''} \<or> \<not> ignore_subscribe) raws)"

fun decimal_of :: "json \<Rightarrow> (exn, rat) result" where
  "decimal_of (JNum x) = Inr (dec_of_float x)"
| "decimal_of (JInt i) = Inr (of_int i)"
| "decimal_of _ = Inl (ValueError ''InvalidOperation'')"

definition monitor_message :: "'s redis_ops \<Rightarrow> interference \<Rightarrow> string \<Rightarrow> message \<Rightarrow> ('s, unit) monitor_prog" where
  "monitor_message R env symbol msg =
     bindP (getP (\<lambda>(mo, w). mo_running mo)) (\<lambda>running.
     if \<not> running then retP ()
     else if map_of msg ''event'' \<noteq> Some (JStr ''trade'') then retP ()
     else tryP (case map_of msg ''price'' of
         None \<Rightarrow> raiseP (KeyError ''price'')
       | Some v \<Rightarrow> bindP (liftP (decimal_of v)) (\<lambda>price. worldP (process_trade_print R env symbol price))) (\<lambda>e. retP ()))"

subsection \<open>The application\<close>

record 's site =
  st_gateway :: gateway
  st_monitor :: monitor
  st_world :: "'s world"

definition startup :: "'s redis_ops \<Rightarrow> interference \<Rightarrow> 's world \<Rightarrow> 's site" where
  "startup R env w =
     (let w1 = snd (seed_database w);
          symbols = (case fst (list_active w1) of Inl e \<Rightarrow> [] | Inr pairs \<Rightarrow> map p_symbol pairs) in
      if symbols = [] then \<lparr>st_gateway = new_gateway, st_monitor = new_monitor, st_world = w1\<rparr>
      else case snd (monitor_start R env symbols (new_monitor, w1)) of (mo, w2) \<Rightarrow>
        \<lparr>st_gateway = start_subscribers symbols new_gateway, st_monitor = mo, st_world = w2\<rparr>)"

definition shutdown :: "'s site \<Rightarrow> 's site" where
  "shutdown st = st\<lparr>st_monitor := monitor_stop (st_monitor st), st_gateway := stop_subscribers (st_gateway st)\<rparr>"

definition site_refresh :: "'s redis_ops \<Rightarrow> interference \<Rightarrow> 's site \<Rightarrow> 's site" where
  "site_refresh R env st = (case snd (periodic_refresh R env (st_monitor st, st_world st)) of (mo, w) \<Rightarrow>
     st\<lparr>st_monitor := mo, st_world := w\<rparr>)"

text \<open>A message published in Redis reaches the tasks of the gateway and those of the monitor that listen to its channel.\<close>

definition monitor_tasks :: "'s redis_ops \<Rightarrow> interference \<Rightarrow> string \<Rightarrow> message \<Rightarrow> ('s, unit) monitor_prog" where
  "monitor_tasks R env channel msg =
     bindP (getP (\<lambda>(mo, w). filter (\<lambda>symbol. channel = trades_channel symbol) (mo_tasks mo))) (\<lambda>symbols.
     forP symbols (\<lambda>symbol. monitor_message R env symbol msg))"

definition site_publish :: "'s redis_ops \<Rightarrow> interference \<Rightarrow> (socket \<Rightarrow> bool) \<Rightarrow> string \<times> message \<Rightarrow> 's site \<Rightarrow> 's site" where
  "site_publish R env alive = (\<lambda>(channel, msg) st.
     case snd (monitor_tasks R env channel msg (st_monitor st, st_world st)) of (mo, w) \<Rightarrow>
       st\<lparr>st_gateway := deliver alive channel msg (st_gateway st), st_monitor := mo, st_world := w\<rparr>)"

subsection \<open>Every active pair is watched\<close>

datatype site_event = Refresh | Published "string \<times> message" | Account account_cmd

fun site_step :: "'s redis_ops \<Rightarrow> interference \<Rightarrow> crypto \<Rightarrow> (socket \<Rightarrow> bool) \<Rightarrow> site_event \<Rightarrow> 's site \<Rightarrow> 's site" where
  "site_step R env C alive Refresh st = site_refresh R env st"
| "site_step R env C alive (Published m) st = site_publish R env alive m st"
| "site_step R env C alive (Account cmd) st = st\<lparr>st_world := run_account C cmd (st_world st)\<rparr>"

definition active_symbols :: "'s world \<Rightarrow> string list" where
  "active_symbols w = map p_symbol (sort_key p_symbol (filter p_is_active (w_pairs w)))"

lemma list_active_run: "list_active w = (Inr (sort_key p_symbol (filter p_is_active (w_pairs w))), w)"
  by (simp add: list_active_def getP_def)

lemma forP_ok: "(\<And>x w. fst (f x w) = Inr ()) \<Longrightarrow> fst (forP xs f w) = Inr ()"
  by (induction xs arbitrary: w) (auto simp: seqP_def bindP_def retP_def split: prod.split sum.split, metis fst_conv sum.distinct(1))

lemma trigger_all_ok: "fst (trigger_all R env tr ids w) = Inr ()"
  unfolding trigger_all_def by (rule forP_ok) (auto simp: prog_defs split: prod.split sum.split)

lemma rescan_ok: "fst (rescan_pending_stops R env symbols w) = Inr ()"
  unfolding rescan_pending_stops_def
  by (rule forP_ok) (auto simp: get_last_price_def list_pending_stops_by_symbol_def prog_defs trigger_all_ok split: list.split)

lemma rescan_run: "rescan_pending_stops R env symbols w = (Inr (), snd (rescan_pending_stops R env symbols w))"
  using rescan_ok [of R env symbols w] by (metis prod.collapse)

lemma spawn_simps: "mo_running (spawn s mo) = mo_running mo" "mo_refreshing (spawn s mo) = mo_refreshing mo"
  "set (mo_tasks (spawn s mo)) = insert s (set (mo_tasks mo))" "distinct (mo_tasks (spawn s mo)) \<longleftrightarrow> distinct (mo_tasks mo)"
  by (auto simp: spawn_def)

lemma spawn_all: "mo_running (fold spawn ss mo) = mo_running mo" "mo_refreshing (fold spawn ss mo) = mo_refreshing mo"
  "set (mo_tasks (fold spawn ss mo)) = set ss \<union> set (mo_tasks mo)" "distinct (mo_tasks (fold spawn ss mo)) \<longleftrightarrow> distinct (mo_tasks mo)"
  by (induction ss arbitrary: mo) (auto simp: spawn_simps)

lemma count_one: "distinct xs \<Longrightarrow> x \<in> set xs \<Longrightarrow> count_list xs x = 1"
  by (induction xs) auto

definition watching :: "monitor \<Rightarrow> bool" where
  "watching mo \<longleftrightarrow> mo_running mo \<and> mo_refreshing mo \<and> distinct (mo_tasks mo)"

lemma watch_pair_run:
  "\<exists>w1. watch_pair R env p (mo, w) = (Inr (), (spawn (p_symbol p) mo, w1))"
  using rescan_run [of R env "[p_symbol p]" w] by (auto simp: watch_pair_def prog_defs worldP_def spawn_def split: prod.split)

lemma watch_pairs_run: "\<exists>w1. forP ps (watch_pair R env) (mo, w) = (Inr (), (fold spawn (map p_symbol ps) mo, w1))"
proof (induction ps arbitrary: mo w)
  case Nil
  then show ?case by (simp add: retP_def)
next
  case (Cons p ps)
  obtain w1 where "watch_pair R env p (mo, w) = (Inr (), (spawn (p_symbol p) mo, w1))" using watch_pair_run by blast
  then show ?case using Cons [of "spawn (p_symbol p) mo" w1] by (simp add: seqP_def bindP_def)
qed

lemma refresh_run:
  assumes "mo_running mo" and "mo_refreshing mo"
  shows "\<exists>w1. periodic_refresh R env (mo, w) = (Inr (), (fold spawn (active_symbols w) mo, w1))"
  using watch_pairs_run [of "sort_key p_symbol (filter p_is_active (w_pairs w))" R env mo w] assms
  by (auto simp: periodic_refresh_def worldP_def list_active_run active_symbols_def prog_defs)

lemma refresh_off: "\<not> (mo_running mo \<and> mo_refreshing mo) \<Longrightarrow> periodic_refresh R env (mo, w) = (Inr (), (mo, w))"
  by (auto simp: periodic_refresh_def prog_defs)

text \<open>Messages never change the tasks.\<close>

lemma message_keeps: "preserves (\<lambda>(mo, w). mo = mo0) (monitor_message R env symbol msg)"
  unfolding monitor_message_def
  by (intro preserves_intros) (auto simp: preserves_def worldP_def liftP_def bindP_def split: prod.splits sum.splits)

lemma tasks_keep: "preserves (\<lambda>(mo, w). mo = mo0) (monitor_tasks R env channel msg)"
  unfolding monitor_tasks_def by (intro preserves_intros message_keeps)

lemma site_step_monitor:
  "st_monitor (site_step R env C alive ev st) =
    (case ev of Refresh \<Rightarrow> if mo_running (st_monitor st) \<and> mo_refreshing (st_monitor st)
       then fold spawn (active_symbols (st_world st)) (st_monitor st) else st_monitor st
     | _ \<Rightarrow> st_monitor st)"
proof (cases ev)
  case Refresh
  show ?thesis
  proof (cases "mo_running (st_monitor st) \<and> mo_refreshing (st_monitor st)")
    case True
    then obtain w1 where "periodic_refresh R env (st_monitor st, st_world st) = (Inr (), (fold spawn (active_symbols (st_world st)) (st_monitor st), w1))"
      using refresh_run by blast
    then show ?thesis using Refresh True by (simp add: site_refresh_def)
  next
    case False
    then show ?thesis using Refresh by (auto simp: site_refresh_def refresh_off)
  qed
next
  case (Published m)
  then show ?thesis
    using preservesD [OF tasks_keep [of "st_monitor st" R env "fst m" "snd m"], of "(st_monitor st, st_world st)"]
    by (auto simp: site_publish_def split: prod.splits)
next
  case (Account cmd)
  then show ?thesis by simp
qed

lemma watching_step: "watching (st_monitor st) \<Longrightarrow> watching (st_monitor (site_step R env C alive ev st))"
  by (auto simp: watching_def site_step_monitor spawn_all split: site_event.split)

lemma watching_steps: "watching (st_monitor st) \<Longrightarrow> watching (st_monitor (fold (site_step R env C alive) evs st))"
  by (induction evs arbitrary: st) (auto intro: watching_step)

lemma startup_run:
  assumes "active_symbols (snd (seed_database w)) \<noteq> []"
  shows "watching (st_monitor (startup R env w)) \<and>
    set (mo_tasks (st_monitor (startup R env w))) = set (active_symbols (snd (seed_database w))) \<and>
    g_public_tasks (st_gateway (startup R env w)) = active_symbols (snd (seed_database w))"
  using assms rescan_run [of R env "active_symbols (snd (seed_database w))" "snd (seed_database w)"]
  by (auto simp: startup_def list_active_run active_symbols_def Let_def monitor_start_def prog_defs worldP_def watching_def spawn_all
      new_monitor_def start_subscribers_def new_gateway_def split: prod.splits)

text \<open>
  Stops are watched on every pair: when a pair is active at start-up, then whatever messages, refreshes and account
  commands come later, the next turn of the refresh loop leaves every pair that is active by then with exactly one task.
\<close>

theorem refresh_watches_every_pair:
  assumes "active_symbols (snd (seed_database w)) \<noteq> []" and "st = fold (site_step R env C alive) evs (startup R env w)"
    and "p \<in> set (w_pairs (st_world st))" and "p_is_active p"
  shows "count_list (mo_tasks (st_monitor (site_refresh R env st))) (p_symbol p) = 1"
proof -
  have w: "watching (st_monitor st)" using startup_run [OF assms(1)] watching_steps assms(2) by blast
  have "st_monitor (site_refresh R env st) = fold spawn (active_symbols (st_world st)) (st_monitor st)"
    using site_step_monitor [of R env C alive Refresh st] w by (simp add: watching_def)
  moreover have "p_symbol p \<in> set (active_symbols (st_world st))" using assms(3,4) by (simp add: active_symbols_def)
  ultimately show ?thesis using w by (intro count_one) (simp_all add: watching_def spawn_all)
qed

text \<open>
  Without an active pair at start-up the monitor is never started: no later pair is watched, although the
  refresh loop is meant to discover pairs created by the admin.
\<close>

theorem empty_start_never_watches:
  assumes "active_symbols (snd (seed_database w)) = []"
  shows "st_monitor (fold (site_step R env C alive) evs (startup R env w)) = new_monitor"
proof -
  have "st_monitor st = new_monitor \<Longrightarrow> st_monitor (fold (site_step R env C alive) evs st) = new_monitor" for st
    by (induction evs arbitrary: st) (simp_all add: site_step_monitor new_monitor_def split: site_event.split)
  then show ?thesis using assms by (simp add: startup_def list_active_run active_symbols_def Let_def)
qed

subsection \<open>From a published trade to a fired stop\<close>

lemma trade_message:
  "fst (publish_trade now symbol i price qty side tk mk) = trades_channel symbol"
  "map_of (snd (publish_trade now symbol i price qty side tk mk)) ''event'' = Some (JStr ''trade'')"
  "map_of (snd (publish_trade now symbol i price qty side tk mk)) ''price'' = Some (JNum price)"
  by (cases tk; cases mk; simp add: publish_trade_def envelope_def optional_def)+

lemma trades_channel_inj: "trades_channel a = trades_channel b \<longleftrightarrow> a = b"
  by (simp add: trades_channel_def)

lemma publish_reaches_monitor:
  assumes "mo_running (st_monitor st)" and "symbol \<in> set (mo_tasks (st_monitor st))" and "distinct (mo_tasks (st_monitor st))"
  shows "st_world (site_publish R env alive (publish_trade now symbol i price qty side tk mk) st) =
    snd (process_trade_print R env symbol (dec_of_float price) (st_world st))"
proof -
  let ?m = "publish_trade now symbol i price qty side tk mk"
  have "filter (\<lambda>s. symbol = s) (mo_tasks (st_monitor st)) = [symbol]"
    using filter_uniq [of id "mo_tasks (st_monitor st)" symbol] assms(2,3) by (simp add: eq_commute [of symbol])
  then have "snd (monitor_tasks R env (fst ?m) (snd ?m) (st_monitor st, st_world st)) =
      (st_monitor st, snd (process_trade_print R env symbol (dec_of_float price) (st_world st)))"
    using assms(1)
    by (simp add: monitor_tasks_def monitor_message_def trade_message trades_channel_inj prog_defs liftP_def worldP_def split: prod.split sum.split)
  then show ?thesis by (simp add: site_publish_def case_prod_beta)
qed

text \<open>
  C38. Any trade message fires the waiting sell stops of its symbol: once a watched symbol has a pending sell stop whose
  quantity is available, a message of \<open>publish_trade\<close>, at any price and also one injected by the emulator, makes the stop an order
  in the worker's queue, whether or not the price has reached the stop price.
\<close>

theorem any_print_fires_stop:
  assumes "redis_server R view" and "mo_running (st_monitor st)" and "o_symbol order \<in> set (mo_tasks (st_monitor st))"
    and "distinct (mo_tasks (st_monitor st))" and "keys_fresh (st_world st)" and "order_at (st_world st) i = Some order" and "o_status order = PENDING"
    and "find (\<lambda>p. p_symbol p = o_symbol order) (w_pairs (st_world st)) = Some pair" and "o_side order = SELL" and "0 < o_quantity order"
    and "w_balances (st_world st) (o_user_id order, p_base_asset pair) = Some b" and "o_quantity order \<le> available_balance b"
    and "zsets (view (w_redis (st_world st))) (stops_key (o_symbol order)) = [(str_int i, score)]" and "0 \<le> score"
    and "zsets (view (w_redis (st_world st))) (trailing_key (o_symbol order)) = []"
  shows "let w1 = st_world (site_publish R quiet alive (publish_trade now (o_symbol order) t price qty side tk mk) st) in
    map_option o_status (order_at w1 i) = Some FILLED \<and>
    lists (view (w_redis w1)) ORDERS_QUEUE =
      Action (stop_payload order ((stop_child order)\<lparr>o_id := w_next_order (st_world st)\<rparr>)) # lists (view (w_redis (st_world st))) ORDERS_QUEUE"
  using any_print_fires_sell_stop [OF assms(1,5-15), of "dec_of_float price"]
  by (auto simp: publish_reaches_monitor [OF assms(2-4)] Let_def)

subsection \<open>Examples\<close>

definition armed_site :: "mem_state site" where
  "armed_site = \<lparr>st_gateway = new_gateway, st_monitor = \<lparr>mo_tasks = [''BTC/USDT''], mo_running = True, mo_refreshing = True\<rparr>, st_world = armed\<rparr>"

theorem any_print_fires_stop_witness:
  "let w1 = st_world (site_publish mem_redis quiet (\<lambda>ws. True) (inject_trade 0 ''BTC/USDT'' 100 1 ''buy'') armed_site) in
   o_stop_price stop_row = Some 90 \<and> map_option o_status (order_at w1 1) = Some FILLED"
proof -
  have q: "0 < o_quantity stop_row" "o_quantity stop_row \<le> available_balance (funds 2 ''BTC'' 0 5)" by (simp_all add: armed_facts)
  have "str_int 1 = ''1''" by code_simp
  then have z: "zsets (mem_view (w_redis armed)) (stops_key (o_symbol stop_row)) = [(str_int 1, 90000000)]"
    "zsets (mem_view (w_redis armed)) (trailing_key (o_symbol stop_row)) = []"
    by (simp_all add: armed_def market_def mem_view_def mz_def z_ok_def armed_facts stop_keys empty_redis_def)
  have b: "w_balances armed (o_user_id stop_row, p_base_asset btc_usdt) = Some (funds 2 ''BTC'' 0 5)"
    using armed_facts(6) by (simp add: armed_facts(11))
  have s: "st_world armed_site = armed" "mo_running (st_monitor armed_site)" "o_symbol stop_row \<in> set (mo_tasks (st_monitor armed_site))"
    "distinct (mo_tasks (st_monitor armed_site))" by (simp_all add: armed_site_def armed_facts)
  have "o_stop_price stop_row = Some 90" by (simp add: stop_row_def)
  with any_print_fires_stop [of mem_redis mem_view armed_site stop_row, OF mem.redis_server_axioms s(2-4), unfolded s(1),
      OF armed_facts(1-4,8) q(1) b q(2) z(1) _ z(2)]
  show ?thesis by (simp add: inject_trade_def armed_facts(9) Let_def)
qed

end
