(* ===== verification/Subscribers.thy ===== *)
theory Subscribers
  imports Lifecycle
begin

section \<open>Subscriber tasks and their connections\<close>

text \<open>
  The loops that listen to Redis: \<open>_public_subscriber\<close> and \<open>_private_subscriber\<close> of \<open>ws/manager.py\<close> and \<open>_monitor_symbol\<close> of the stop monitor, with
  \<open>subscribe\<close> and \<open>unsubscribe\<close> of \<open>redis_client/pubsub.py\<close>. All three subscribe on a dedicated connection, handle the messages that arrive, and
  start over when something fails. Here a loop is cut at its awaits: a subscription is tried, a message arrives, the
  connection fails, the task is cancelled. The theories of the gateway and the monitor speak of the messages that arrive.
\<close>

subsection \<open>Connections\<close>

record link =
  ln_conn :: "nat option"
  ln_next :: nat
  ln_open :: "nat list"
  ln_ended :: bool

definition new_link :: link where
  "new_link = \<lparr>ln_conn = None, ln_next = 0, ln_open = [], ln_ended = False\<rparr>"

text \<open>The dedicated client connects when it subscribes; a failing subscription leaves no connection.\<close>

definition subscribe :: "bool \<Rightarrow> link \<Rightarrow> link" where
  "subscribe ok l = (if ok then l\<lparr>ln_conn := Some (ln_next l), ln_next := ln_next l + 1, ln_open := ln_open l @ [ln_next l]\<rparr> else l)"

text \<open>
  When the command of \<open>unsubscribe\<close> itself raises, the connections are not closed; the callers swallow the exception and forget the
  subscription either way.
\<close>

definition unsubscribe :: "bool \<Rightarrow> link \<Rightarrow> link" where
  "unsubscribe ok l = (case ln_conn l of
     None \<Rightarrow> l
   | Some c \<Rightarrow> (if ok then l\<lparr>ln_open := removeAll c (ln_open l)\<rparr> else l)\<lparr>ln_conn := None\<rparr>)"

subsection \<open>The loop\<close>

datatype 'm task_event = Subscribes bool | Arrives 'm | Fails bool | TaskCancelled bool

text \<open>
  \<open>checks\<close> says whether the loop looks at the running flag before each message; \<open>handle\<close> gives whether it returned normally.
\<close>

fun task_step :: "('s \<Rightarrow> bool) \<Rightarrow> bool \<Rightarrow> ('m \<Rightarrow> 's \<Rightarrow> bool \<times> 's) \<Rightarrow> 'm task_event \<Rightarrow> link \<times> 's \<Rightarrow> link \<times> 's" where
  "task_step running checks handle (Subscribes ok) (l, s) =
     (if ln_ended l \<or> ln_conn l \<noteq> None then (l, s)
      else if \<not> running s then (l\<lparr>ln_ended := True\<rparr>, s)
      else (subscribe ok l, s))"
| "task_step running checks handle (Arrives m) (l, s) =
     (if ln_conn l = None then (l, s)
      else if checks \<and> \<not> running s then (unsubscribe True l, s)
      else case handle m s of (ok, s1) \<Rightarrow> (if ok then l else unsubscribe True l, s1))"
| "task_step running checks handle (Fails ok) (l, s) = (unsubscribe ok l, s)"
| "task_step running checks handle (TaskCancelled ok) (l, s) = ((unsubscribe ok l)\<lparr>ln_ended := True\<rparr>, s)"

definition public_handle :: "(socket \<Rightarrow> bool) \<Rightarrow> string \<Rightarrow> string \<times> message \<Rightarrow> gateway \<Rightarrow> bool \<times> gateway" where
  "public_handle alive symbol = (\<lambda>(channel, msg) g. (True, broadcast_public alive symbol channel msg g))"

definition private_handle :: "(socket \<Rightarrow> bool) \<Rightarrow> int \<Rightarrow> string \<times> message \<Rightarrow> gateway \<Rightarrow> bool \<times> gateway" where
  "private_handle alive user_id = (\<lambda>(channel, msg) g. (True, broadcast_private alive user_id channel msg g))"

definition monitor_body :: "'s redis_ops \<Rightarrow> interference \<Rightarrow> string \<Rightarrow> message \<Rightarrow> ('s, unit) monitor_prog" where
  "monitor_body R env symbol msg =
     (if map_of msg ''event'' \<noteq> Some (JStr ''trade'') then retP ()
      else case map_of msg ''price'' of
         None \<Rightarrow> raiseP (KeyError ''price'')
       | Some v \<Rightarrow> bindP (liftP (decimal_of v)) (\<lambda>price. worldP (process_trade_print R env symbol price)))"

definition monitor_handle :: "'s redis_ops \<Rightarrow> interference \<Rightarrow> string \<Rightarrow> message \<Rightarrow> monitor \<times> 's world \<Rightarrow> bool \<times> monitor \<times> 's world" where
  "monitor_handle R env symbol msg st = (case monitor_body R env symbol msg st of (r, st1) \<Rightarrow> (is_ok r, st1))"

subsection \<open>What every such loop does\<close>

text \<open>Events at which closing succeeds.\<close>

fun tidy :: "'m task_event \<Rightarrow> bool" where
  "tidy (Fails ok) \<longleftrightarrow> ok"
| "tidy (TaskCancelled ok) \<longleftrightarrow> ok"
| "tidy _ \<longleftrightarrow> True"

definition link_ok :: "link \<Rightarrow> bool" where
  "link_ok l \<longleftrightarrow> ln_open l = (case ln_conn l of None \<Rightarrow> [] | Some c \<Rightarrow> [c])"

lemma link_ops_ok: "link_ok l \<Longrightarrow> ln_conn l = None \<Longrightarrow> link_ok (subscribe ok l)" "link_ok l \<Longrightarrow> link_ok (unsubscribe True l)"
  "link_ok (l\<lparr>ln_ended := b\<rparr>) \<longleftrightarrow> link_ok l"
  by (auto simp: link_ok_def subscribe_def unsubscribe_def split: option.splits)

lemma unsubscribe_conn [simp]: "ln_conn (unsubscribe ok l) = None" "ln_ended (unsubscribe ok l) = ln_ended l" "ln_next (unsubscribe ok l) = ln_next l"
  by (auto simp: unsubscribe_def split: option.split)

locale subscriber_task =
  fixes running :: "'s \<Rightarrow> bool" and checks :: bool and handle :: "'m \<Rightarrow> 's \<Rightarrow> bool \<times> 's"
  assumes keeps_running: "running (snd (handle m s)) \<longleftrightarrow> running s"
begin

lemma step_ok: "link_ok (fst ls) \<Longrightarrow> tidy ev \<Longrightarrow> link_ok (fst (task_step running checks handle ev ls))"
  by (cases ev; cases ls) (auto simp: link_ops_ok split: prod.split)

lemma one_connection: "link_ok (fst ls) \<Longrightarrow> list_all tidy evs \<Longrightarrow> link_ok (fst (fold (task_step running checks handle) evs ls))"
  by (induction evs arbitrary: ls) (simp_all add: step_ok)

lemma outage: "ln_conn l = None \<Longrightarrow> fold (task_step running checks handle) (map Arrives ms) (l, s) = (l, s)"
  by (induction ms) simp_all

text \<open>While the connection holds and handling returns, every message is handled, in order.\<close>

lemma connected_handles:
  assumes "ln_conn l \<noteq> None" and "running s" and "\<And>m s. fst (handle m s)"
  shows "fold (task_step running checks handle) (map Arrives ms) (l, s) = (l, fold (\<lambda>m s. snd (handle m s)) ms s)"
  using assms(2)
proof (induction ms arbitrary: s)
  case Nil
  then show ?case by simp
next
  case (Cons m ms)
  obtain s1 where "handle m s = (True, s1)" using assms(3) [of m s] by (cases "handle m s") simp
  moreover from this have "running s1" using keeps_running [of m s] Cons.prems by simp
  ultimately show ?case using Cons assms(1) by auto
qed

text \<open>Once the flag is off, nothing is handled any more, and the next round of the loop is its last.\<close>

lemma halted:
  assumes "checks" and "\<not> running s"
  shows "snd (fold (task_step running checks handle) evs (l, s)) = s"
proof -
  have "snd (task_step running checks handle ev ls) = snd ls" if "\<not> running (snd ls)" for ev ls
    using that assms(1) by (cases ev; cases ls) auto
  then have "snd (fold (task_step running checks handle) evs ls) = snd ls" if "\<not> running (snd ls)" for ls
    using that by (induction evs arbitrary: ls) auto
  from this [of "(l, s)"] assms(2) show ?thesis by simp
qed

lemma outage_recovers:
  assumes "running s" and "\<not> ln_ended l"
  shows "fold (task_step running checks handle) (Fails ok # map Arrives ms @ [Subscribes True]) (l, s) = (subscribe True (unsubscribe ok l), s)"
  using assms outage [of "unsubscribe ok l" ms s] by simp

end

lemma broadcast_running: "g_running (broadcast_public alive symbol channel msg g) = g_running g"
  "g_running (broadcast_private alive u channel msg g) = g_running g"
proof -
  have "g_running (fold (\<lambda>ws. disconnect_public ws symbol) ws g) = g_running g" "g_running (fold (\<lambda>ws. disconnect_private ws u) ws g) = g_running g" for ws g
    by (induction ws arbitrary: g) (simp_all add: disconnect_public_def disconnect_private_def)
  then show "g_running (broadcast_public alive symbol channel msg g) = g_running g"
    "g_running (broadcast_private alive u channel msg g) = g_running g"
    by (simp_all add: broadcast_public_def broadcast_private_def send_all_def Let_def)
qed

interpretation public_task: subscriber_task g_running True "public_handle alive symbol"
  by unfold_locales (simp add: public_handle_def broadcast_running split: prod.split)

interpretation private_task: subscriber_task g_running False "private_handle alive u"
  by unfold_locales (simp add: private_handle_def broadcast_running split: prod.split)

lemma body_keeps: "fst (snd (monitor_body R env symbol msg (mo, w))) = mo"
  by (auto simp: monitor_body_def worldP_def prog_defs liftP_def split: option.split prod.split sum.split)

interpretation monitor_task: subscriber_task "\<lambda>(mo, w). mo_running mo" True "monitor_handle R env symbol"
proof unfold_locales
  fix m and s :: "monitor \<times> 'a world"
  obtain mo w where "s = (mo, w)" by (cases s)
  then show "(\<lambda>(mo, w). mo_running mo) (snd (monitor_handle R env symbol m s)) = (\<lambda>(mo, w). mo_running mo) s"
    using body_keeps [of R env symbol m mo w] by (auto simp: monitor_handle_def split: prod.split)
qed

subsection \<open>The tasks\<close>

text \<open>
  A message that arrives at a connected task of the monitor does what \<open>monitor_message\<close> says; when processing raises, the task also
  drops its subscription.
\<close>

theorem monitor_task_message:
  assumes "ln_conn l \<noteq> None" and "mo_running mo"
  shows "snd (task_step (\<lambda>(mo, w). mo_running mo) True (monitor_handle R env symbol) (Arrives msg) (l, (mo, w))) =
    snd (monitor_message R env symbol msg (mo, w))"
  using assms
  by (auto simp: monitor_handle_def monitor_body_def monitor_message_def tryP_def bindP_def getP_def retP_def raiseP_def
      split: prod.split sum.split option.split)

text \<open>
  A private task connected to Redis forwards every message of its channels to all connections of its user, in the order
  of arrival.
\<close>

theorem private_task_forwards:
  assumes "ln_conn l \<noteq> None" and "g_running g"
  shows "fold (task_step g_running False (private_handle alive u)) (map Arrives ms) (l, g) =
    (l, fold (\<lambda>(channel, msg). broadcast_private alive u channel msg) ms g)"
proof -
  have "(\<lambda>m s. snd (private_handle alive u m s)) = (\<lambda>(channel, msg). broadcast_private alive u channel msg)"
    by (simp add: private_handle_def fun_eq_iff)
  moreover have "fst (private_handle alive u m s)" for m s by (simp add: private_handle_def split: prod.split)
  ultimately show ?thesis using private_task.connected_handles [where alive = alive and u = u, OF assms, of ms] by simp
qed

text \<open>
  Prints published while a task of the monitor is cut off are never processed: after the outage the task listens again, on
  a new connection, with the exchange as it was; pending stops are not looked at again.
\<close>

theorem monitor_outage_misses_prints:
  assumes "mo_running mo" and "\<not> ln_ended l"
  shows "fold (task_step (\<lambda>(mo, w). mo_running mo) True (monitor_handle R env symbol)) (Fails ok # map Arrives prints @ [Subscribes True]) (l, (mo, w)) =
    (subscribe True (unsubscribe ok l), (mo, w))"
  using monitor_task.outage_recovers [of "(mo, w)" l R env symbol ok prints] assms by simp

text \<open>A stopped monitor processes nothing, whatever its tasks still receive.\<close>

theorem stopped_monitor_idle:
  "snd (fold (task_step (\<lambda>(mo, w). mo_running mo) True (monitor_handle R env symbol)) evs (l, (monitor_stop mo, w))) = (monitor_stop mo, w)"
  using monitor_task.halted [of "(monitor_stop mo, w)" R env symbol evs l] by (simp add: monitor_stop_def)

text \<open>Each task has at most one connection, however often it starts over, provided closing succeeds.\<close>

theorem task_one_connection:
  assumes "list_all tidy evs"
  shows "length (ln_open (fst (fold (task_step (\<lambda>(mo, w). mo_running mo) True (monitor_handle R env symbol)) evs (new_link, st)))) \<le> 1"
proof -
  have "link_ok new_link" by (simp add: link_ok_def new_link_def)
  from monitor_task.one_connection [of "(new_link, st)" evs R env symbol] this assms show ?thesis
    by (simp add: link_ok_def split: option.splits)
qed

end
