(* ===== verification/Events.thy ===== *)
theory Events
  imports Lifecycle Worker
begin

section \<open>Events\<close>

text \<open>
  What the services publish. Each constructor of \<open>notice\<close> is a place in the services that calls a publisher, with the objects
  at hand there; \<open>notice_event\<close> is the channel and message it hands to Redis. The publishers are those of the theory
  of \<open>redis_client/pubsub.py\<close>. Publishing does not change what the services store, so the programs of the services leave it out
  and this theory relates the notices to their results.
\<close>

subsection \<open>The places that publish\<close>

datatype notice =
    Placed_notice int order_create_dto "string option" order
  | Canceled_notice int order
  | Modified_notice int order
  | Triggered_notice order
  | Refused_notice order_action string
  | Filled_notice int order
  | Activated_notice order order
  | Balance_notice balance rat string "int option"
  | Bulk_refused_notice int string nat string
  | Bulk_placed_notice int string nat nat
  | Bulk_canceled_notice int string nat nat "(int \<times> string \<times> string) list"
  | Trade_notice string int trade
  | Book_notice string "(rat \<times> rat) list" "(rat \<times> rat) list"

definition update_of :: "string \<Rightarrow> order \<Rightarrow> order_update" where
  "update_of event order = \<lparr>ou_event = event, ou_order_id = o_id order, ou_symbol = o_symbol order, ou_side = side_value (o_side order),
     ou_type = type_value (o_type order), ou_status = status_value (o_status order), ou_price = None, ou_quantity = None,
     ou_filled_quantity = None, ou_remaining_quantity = None, ou_avg_fill_price = None, ou_last_trade_qty = None,
     ou_last_trade_price = None, ou_client_order_id = None, ou_bulk_id = None\<rparr>"

definition placed_update :: "order_create_dto \<Rightarrow> string option \<Rightarrow> order \<Rightarrow> order_update" where
  "placed_update dto client_order_id order = (update_of (if \<not> is_stop_dto dto then ''placed'' else ''pending'') order)
     \<lparr>ou_price := map_option rnd (truthy (o_price order)), ou_quantity := Some (rnd (o_quantity order)),
      ou_client_order_id := client_order_id, ou_bulk_id := o_bulk_id order\<rparr>"

definition canceled_update :: "order \<Rightarrow> order_update" where
  "canceled_update order = (update_of ''canceled'' order)\<lparr>ou_status := status_value CANCELED,
     ou_filled_quantity := Some (rnd (o_filled_quantity order)), ou_remaining_quantity := Some 0\<rparr>"

definition modified_update :: "order \<Rightarrow> order_update" where
  "modified_update order = (update_of ''modified'' order)
     \<lparr>ou_price := map_option rnd (o_price order), ou_quantity := Some (rnd (o_quantity order))\<rparr>"

definition refused_update :: "order_action \<Rightarrow> string \<Rightarrow> order_update" where
  "refused_update payload outcome_str =
     \<lparr>ou_event = (if outcome_str = ''post_only_cross'' then ''rejected'' else ''expired''), ou_order_id = a_order_id payload,
      ou_symbol = a_symbol payload, ou_side = a_side payload, ou_type = a_type payload,
      ou_status = (if outcome_str = ''post_only_cross'' then status_value REJECTED else status_value EXPIRED),
      ou_price = None, ou_quantity = None, ou_filled_quantity = None, ou_remaining_quantity = None, ou_avg_fill_price = None,
      ou_last_trade_qty = None, ou_last_trade_price = None, ou_client_order_id = None, ou_bulk_id = None\<rparr>"

definition filled_update :: "order \<Rightarrow> order_update" where
  "filled_update order = (update_of (if o_status order = FILLED then ''filled'' else ''partially_filled'') order)
     \<lparr>ou_filled_quantity := Some (rnd (o_filled_quantity order)), ou_remaining_quantity := Some (rnd (remaining_quantity order)),
      ou_avg_fill_price := map_option rnd (truthy (avg_fill_price order))\<rparr>"

definition balance_notice :: "int \<Rightarrow> balance \<Rightarrow> rat \<Rightarrow> string \<Rightarrow> int option \<Rightarrow> string \<times> message" where
  "balance_notice now b change reason order_id = publish_balance_update now (b_user_id b) (b_asset b) (rnd (total_balance b))
     (rnd (locked_balance b)) (rnd (available_balance b)) (if change \<noteq> 0 then Some (rnd change) else None) (Some reason) order_id"

definition failure_json :: "int \<Rightarrow> string \<Rightarrow> string \<Rightarrow> json" where
  "failure_json index kind message = JObj [(''index'', JInt index), (''code'', JStr kind), (''message'', JStr message)]"

definition bulk_refused :: "int \<Rightarrow> int \<Rightarrow> string \<Rightarrow> nat \<Rightarrow> string \<Rightarrow> string \<times> message" where
  "bulk_refused now user_id bulk_id n asset = publish_bulk_result now user_id bulk_id ''place'' (int n) 0
     (Some [failure_json 0 ''insufficient_balance'' (''Not enough '' @ asset)])"

definition bulk_placed :: "int \<Rightarrow> int \<Rightarrow> string \<Rightarrow> nat \<Rightarrow> nat \<Rightarrow> string \<times> message" where
  "bulk_placed now user_id bulk_id n placed = publish_bulk_result now user_id bulk_id ''place'' (int n) (int placed) (Some [])"

definition bulk_canceled :: "int \<Rightarrow> int \<Rightarrow> string \<Rightarrow> nat \<Rightarrow> nat \<Rightarrow> (int \<times> string \<times> string) list \<Rightarrow> string \<times> message" where
  "bulk_canceled now user_id bulk_id n canceled failed =
     publish_bulk_result now user_id bulk_id ''cancel'' (int n) (int canceled) (Some (map (\<lambda>(i, kind, message). failure_json i kind message) failed))"

fun notice_event :: "int \<Rightarrow> notice \<Rightarrow> string \<times> message" where
  "notice_event now (Placed_notice user_id dto client_order_id order) = publish_order_update now user_id (placed_update dto client_order_id order)"
| "notice_event now (Canceled_notice user_id order) = publish_order_update now user_id (canceled_update order)"
| "notice_event now (Modified_notice user_id order) = publish_order_update now user_id (modified_update order)"
| "notice_event now (Triggered_notice order) = publish_order_update now (o_user_id order) (update_of ''triggered'' order)"
| "notice_event now (Refused_notice payload outcome_str) = publish_order_update now (a_user_id payload) (refused_update payload outcome_str)"
| "notice_event now (Filled_notice user_id order) = publish_order_update now user_id (filled_update order)"
| "notice_event now (Activated_notice parent child) =
     publish_sl_tp_activated now (o_user_id child) (o_id parent) (o_sl_order_id parent) (o_tp_order_id parent)"
| "notice_event now (Balance_notice b change reason order_id) = balance_notice now b change reason order_id"
| "notice_event now (Bulk_refused_notice user_id bulk_id n asset) = bulk_refused now user_id bulk_id n asset"
| "notice_event now (Bulk_placed_notice user_id bulk_id n placed) = bulk_placed now user_id bulk_id n placed"
| "notice_event now (Bulk_canceled_notice user_id bulk_id n canceled failed) = bulk_canceled now user_id bulk_id n canceled failed"
| "notice_event now (Trade_notice symbol taker_order_id t) = publish_trade now symbol (t_id t) (rnd (t_price t)) (rnd (t_quantity t))
     (side_value (t_side t)) (Some taker_order_id) (Some (t_maker_order_id t))"
| "notice_event now (Book_notice symbol bids asks) = publish_orderbook_snapshot now symbol bids asks None"

text \<open>Whom a notice is about; market data are for everyone.\<close>

fun recipient :: "notice \<Rightarrow> int option" where
  "recipient (Placed_notice user_id dto client_order_id order) = Some user_id"
| "recipient (Canceled_notice user_id order) = Some user_id"
| "recipient (Modified_notice user_id order) = Some user_id"
| "recipient (Triggered_notice order) = Some (o_user_id order)"
| "recipient (Refused_notice payload outcome_str) = Some (a_user_id payload)"
| "recipient (Filled_notice user_id order) = Some user_id"
| "recipient (Activated_notice parent child) = Some (o_user_id child)"
| "recipient (Balance_notice b change reason order_id) = Some (b_user_id b)"
| "recipient (Bulk_refused_notice user_id bulk_id n asset) = Some user_id"
| "recipient (Bulk_placed_notice user_id bulk_id n placed) = Some user_id"
| "recipient (Bulk_canceled_notice user_id bulk_id n canceled failed) = Some user_id"
| "recipient (Trade_notice symbol taker_order_id t) = None"
| "recipient (Book_notice symbol bids asks) = None"

lemmas publisher_defs = publish_order_update_def publish_sl_tp_activated_def publish_balance_update_def publish_bulk_result_def
  publish_trade_def publish_orderbook_snapshot_def balance_notice_def bulk_refused_def bulk_placed_def bulk_canceled_def

lemma notice_private: "recipient n = Some u \<Longrightarrow> fst (notice_event now n) \<in> set (private_channels u)"
  by (cases n) (auto simp: publisher_defs private_channels_def)

lemma notice_public: "recipient n = None \<Longrightarrow> \<exists>symbol. fst (notice_event now n) \<in> set (public_channels symbol)"
  by (cases n) (auto simp: publisher_defs public_channels_def)

text \<open>
  A notice about a user reaches no one else: whatever connections the gateway has, publishing it sends its message to no
  connection but those whose handshake succeeded as that user.
\<close>

theorem notices_confined:
  assumes "reachable auth g" and "recipient n = Some u" and "notice_event now n = (channel, msg)"
    and "(ws, channel, msg) \<in> set (g_sent (deliver alive channel msg g))"
  shows "auth ws = Some u"
proof -
  have "gateway_ok auth (deliver alive channel msg g)" by (rule gateway_deliver [OF gateway_reachable [OF assms(1)]])
  moreover have "channel \<in> set (private_channels u)" using notice_private [OF assms(2), of now] assms(3) by simp
  ultimately show ?thesis using assms(4) by (auto simp: gateway_ok_def)
qed

subsection \<open>The notices of a batch\<close>

text \<open>
  The order objects a batch has in memory when it publishes: the makers with their fills, and the taker with its own on top.
\<close>

definition batch_objects :: "(domain_trade \<times> int) list \<Rightarrow> int \<Rightarrow> 's world \<Rightarrow> int \<Rightarrow> order option" where
  "batch_objects trades taker_order_id w =
     (let makers = (\<lambda>i. case map_of (collect_deltas trades) i of None \<Rightarrow> order_at w i | Some (q, x) \<Rightarrow> map_option (fill_maker q x) (order_at w i)) in
      makers(taker_order_id := map_option (fill_taker (\<Sum>t\<leftarrow>trades. d_quantity (fst t)) (\<Sum>t\<leftarrow>trades. d_price (fst t) * d_quantity (fst t)))
        (makers taker_order_id)))"

definition batch_notices :: "(domain_trade \<times> int) list \<Rightarrow> int \<Rightarrow> int \<Rightarrow> string \<Rightarrow> 's world \<Rightarrow> trade list \<Rightarrow> notice list" where
  "batch_notices trades taker_user_id taker_order_id symbol w rows =
     (if trades = [] then []
      else map (Trade_notice symbol taker_order_id) rows @
        (case batch_objects trades taker_order_id w taker_order_id of None \<Rightarrow> [] | Some to \<Rightarrow> [Filled_notice taker_user_id to]) @
        concat (map (\<lambda>(i, _). case batch_objects trades taker_order_id w i of None \<Rightarrow> [] | Some mo \<Rightarrow> [Filled_notice (o_user_id mo) mo])
          (collect_deltas trades)))"

lemma batch_object_row:
  assumes "persist_trade_batch R trades u i side symbol base quote w = (Inr rows, w1)" and "trades \<noteq> []"
    and "\<forall>t\<in>set trades. d_maker_order_id (fst t) \<noteq> i" and "no_children_in i S w" and "j \<in> S" and "j = i \<or> trades_of j trades \<noteq> []"
  shows "order_at w1 j = map_option store_order (batch_objects trades i w j)"
    and "map_option o_user_id (batch_objects trades i w j) = map_option o_user_id (order_at w j)"
proof -
  have c: "map_of (collect_deltas trades) m = (if trades_of m trades = [] then None
      else Some (\<Sum>t\<leftarrow>trades_of m trades. d_quantity (fst t), \<Sum>t\<leftarrow>trades_of m trades. d_price (fst t) * d_quantity (fst t)))" for m
    using collect_map_of [of trades "[]" m] by (simp add: collect_deltas_def)
  have "trades_of i trades = []" using assms(3) by (auto simp: trades_of_def filter_empty_conv)
  then show "order_at w1 j = map_option store_order (batch_objects trades i w j)"
    using persist_orders [OF assms(1-5)] assms(6) c by (auto simp: batch_objects_def option.map_comp comp_def)
  show "map_option o_user_id (batch_objects trades i w j) = map_option o_user_id (order_at w j)"
    by (auto simp: batch_objects_def option.map_comp comp_def split: option.split)
qed

lemma batch_object_id: "batch_objects trades i w j = Some r \<Longrightarrow> o_id r = j"
proof -
  assume r: "batch_objects trades i w j = Some r"
  have "map_option o_id (batch_objects trades i w j) = map_option o_id (order_at w j)"
    by (auto simp: batch_objects_def option.map_comp comp_def split: option.split)
  then obtain r0 where "order_at w j = Some r0" "o_id r0 = o_id r" using r by (cases "order_at w j") simp_all
  then show ?thesis using order_at_id by metis
qed

lemma keys_collect: "fst ` set (collect_deltas trades) = (\<lambda>t. d_maker_order_id (fst t)) ` set trades"
  using collect_fold(3) [of trades "[]"] by (simp add: collect_deltas_def)

lemma filled_notices:
  assumes "trades \<noteq> []"
  shows "Filled_notice v r \<in> set (batch_notices trades u i symbol w rows) \<longleftrightarrow>
    (v = u \<and> batch_objects trades i w i = Some r) \<or>
    (\<exists>j\<in>(\<lambda>t. d_maker_order_id (fst t)) ` set trades. v = o_user_id r \<and> batch_objects trades i w j = Some r)"
  unfolding keys_collect [symmetric] using assms by (auto simp: batch_notices_def split: option.splits) force+

text \<open>
  C21. The notices of a batch tell the truth: every fill a batch announces is the row that the batch stored, and every stored order
  that took part is announced, the taker's to the taker and a maker's to the owner of the row.
\<close>

theorem batch_notices_match_rows:
  assumes "persist_trade_batch R trades u i side symbol base quote w = (Inr rows, w1)" and "trades \<noteq> []"
    and "\<forall>t\<in>set trades. d_maker_order_id (fst t) \<noteq> i"
    and "no_children_in i (insert i ((\<lambda>t. d_maker_order_id (fst t)) ` set trades)) w"
  shows "(\<forall>v r. Filled_notice v r \<in> set (batch_notices trades u i symbol w rows) \<longrightarrow> order_at w1 (o_id r) = Some (store_order r)) \<and>
    (\<forall>j\<in>insert i ((\<lambda>t. d_maker_order_id (fst t)) ` set trades). \<forall>stored. order_at w1 j = Some stored \<longrightarrow>
      (\<exists>r. Filled_notice (if j = i then u else o_user_id stored) r \<in> set (batch_notices trades u i symbol w rows) \<and> stored = store_order r))"
proof -
  let ?S = "insert i ((\<lambda>t. d_maker_order_id (fst t)) ` set trades)"
  have row: "order_at w1 j = map_option store_order (batch_objects trades i w j)" if "j \<in> ?S" for j
    using that by (intro batch_object_row(1) [OF assms that]) (auto simp: trades_of_def filter_empty_conv)
  have one: "order_at w1 (o_id r) = Some (store_order r)" if "batch_objects trades i w j = Some r" "j \<in> ?S" for j r
    using row [OF that(2)] that(1) batch_object_id [OF that(1)] by simp
  have two: "\<exists>r. Filled_notice (if j = i then u else o_user_id stored) r \<in> set (batch_notices trades u i symbol w rows) \<and> stored = store_order r"
    if j: "j \<in> ?S" and s: "order_at w1 j = Some stored" for j stored
  proof -
    obtain r where r: "batch_objects trades i w j = Some r" "stored = store_order r"
      using row [OF j] s by (cases "batch_objects trades i w j") simp_all
    have "o_user_id stored = o_user_id r" by (simp add: r(2) store_order_def)
    then show ?thesis using r j by (intro exI [of _ r]) (auto simp: filled_notices [OF assms(2)])
  qed
  show ?thesis using one two by (auto simp: filled_notices [OF assms(2)])
qed

text \<open>
  A batch is what makes stops fire: each of its trade notices, published for a symbol the monitor watches, is processed by the
  monitor as a print at the price of the trade as it went through a double.
\<close>

theorem batch_print_reaches_monitor:
  assumes "mo_running (st_monitor st)" and "symbol \<in> set (mo_tasks (st_monitor st))" and "distinct (mo_tasks (st_monitor st))"
  shows "st_world (site_publish R env alive (notice_event now (Trade_notice symbol taker_order_id t)) st) =
    snd (process_trade_print R env symbol (dec_of_float (rnd (t_price t))) (st_world st))"
  using publish_reaches_monitor [OF assms] by simp

text \<open>Market data name orders but no user and no balance.\<close>

theorem public_notices_anonymous:
  assumes "recipient n = None"
  shows "fst ` set (snd (notice_event now n)) \<subseteq> {''event'', ''ts'', ''symbol'', ''trade_id'', ''price'', ''quantity'', ''side'', ''taker_order_id'',
    ''maker_order_id'', ''bids'', ''asks'', ''last_trade_price''}"
  using assms by (cases n) (auto simp: publisher_defs envelope_def optional_def)

subsection \<open>Messages of the gateway itself\<close>

text \<open>
  What \<open>ws/public.py\<close> and \<open>ws/private.py\<close> send on a connection besides forwarded events: the book at the time of connecting, the steps of the
  handshake and the answers to pings. \<open>ts\<close> is the clock of the event loop.
\<close>

definition initial_snapshot :: "int \<Rightarrow> string \<Rightarrow> (rat \<times> rat) list \<Rightarrow> (rat \<times> rat) list \<Rightarrow> message" where
  "initial_snapshot ts symbol bids asks = [(''event'', JStr ''orderbook_snapshot''), (''symbol'', JStr symbol), (''bids'', levels_json bids),
     (''asks'', levels_json asks), (''last_trade_price'', JNull), (''ts'', JInt ts)]"

definition auth_required :: "int \<Rightarrow> message" where
  "auth_required ts = [(''event'', JStr ''auth_required''), (''message'', JStr ''Send auth message within 5 seconds''), (''ts'', JInt ts)]"

definition handshake_answer :: "int \<Rightarrow> string \<Rightarrow> handshake \<Rightarrow> message \<times> int option" where
  "handshake_answer ts error h = (case h of
     Accepted u \<Rightarrow> ([(''event'', JStr ''auth_ok''), (''user_id'', JInt u), (''ts'', JInt ts)], None)
   | AuthTimeout \<Rightarrow> ([(''event'', JStr ''auth_timeout''), (''message'', JStr ''Authentication timed out'')], Some 4001)
   | AuthFailed \<Rightarrow> ([(''event'', JStr ''auth_failed''), (''message'', JStr error)], Some 4003))"

definition client_message :: "int \<Rightarrow> message \<Rightarrow> message option" where
  "client_message ts msg = (if map_of msg ''action'' = Some (JStr ''ping'') then Some [(''event'', JStr ''pong''), (''ts'', JInt ts)] else None)"

text \<open>
  A client that connects is told the book in the form it will be told every change: but for the time, the initial
  message is the one that is published for a book with these levels.
\<close>

theorem initial_snapshot_like_published:
  assumes "k \<noteq> ''ts''"
  shows "map_of (initial_snapshot ts symbol bids asks) k = map_of (snd (notice_event now (Book_notice symbol bids asks))) k"
  using assms by (simp add: initial_snapshot_def publish_orderbook_snapshot_def envelope_def)

subsection \<open>Examples\<close>

theorem notices_confined_witness:
  "let g = fold (gw_step (\<lambda>ws. True)) demo_events new_gateway; n = Bulk_placed_notice 7 ''b'' 2 2; (channel, msg) = notice_event 0 n in
   (2, channel, msg) \<in> set (g_sent (deliver (\<lambda>ws. True) channel msg g)) \<and> demo_auth 2 = Some 7"
proof -
  let ?g = "fold (gw_step (\<lambda>ws. True)) demo_events new_gateway" and ?n = "Bulk_placed_notice 7 ''b'' 2 2"
  obtain channel msg where e: "notice_event 0 ?n = (channel, msg)" by (cases "notice_event 0 ?n")
  then have c: "channel = bulk_channel 7" by (simp add: bulk_placed_def publish_bulk_result_def)
  have sent: "(2, channel, msg) \<in> set (g_sent (deliver (\<lambda>ws. True) channel msg ?g))"
    by (simp add: c demo_state deliver_def public_subscribers_def private_subscribers_def client_subscriptions_def send_all_def
        broadcast_private_run broadcast_private_def disconnect_private_def Let_def public_channels_def private_channels_def channel_defs conns_of_def)
  from notices_confined [OF demo_reachable _ e sent, of 7] sent show ?thesis by (simp add: Let_def e del: notice_event.simps)
qed

theorem batch_notices_match_rows_witness:
  "\<exists>rows w1 r. persist_trade_batch mem_redis [(two_at_100, 2)] 1 2 BUY ''BTC/USDT'' ''BTC'' ''USDT'' crossed = (Inr rows, w1) \<and>
     Filled_notice 2 r \<in> set (batch_notices [(two_at_100, 2)] 1 2 ''BTC/USDT'' crossed rows) \<and> order_at w1 1 = Some (store_order r)"
proof -
  let ?r = "persist_trade_batch mem_redis [(two_at_100, 2)] 1 2 BUY ''BTC/USDT'' ''BTC'' ''USDT'' crossed"
  have "is_ok (fst ?r)" by code_simp
  then obtain rows w1 where r: "?r = (Inr rows, w1)" by (rule is_ok_runE)
  have "map_option o_user_id (order_at (snd ?r) 1) = Some 2" by code_simp
  then obtain stored where s: "order_at w1 1 = Some stored" "o_user_id stored = 2" by (auto simp: r)
  have c: "no_children_in 2 S crossed" for S by (simp add: no_children_in_def crossed_def market_def limit_row_def)
  have t: "\<forall>t\<in>set [(two_at_100, 2::int)]. d_maker_order_id (fst t) \<noteq> 2" by (simp add: two_at_100_def)
  from batch_notices_match_rows [OF r _ t c] s
  obtain ob where "Filled_notice 2 ob \<in> set (batch_notices [(two_at_100, 2)] 1 2 ''BTC/USDT'' crossed rows)" "stored = store_order ob"
    by (fastforce simp: two_at_100_def)
  with r s show ?thesis by blast
qed

end
