(* ===== verification/Payloads.thy ===== *)
theory Payloads
  imports Worker Ws
begin

section \<open>Queue payloads as dictionaries\<close>

text \<open>
  What travels through \<open>queue:orders\<close>: \<open>build_order_action_payload\<close> of \<open>redis_client/queues.py\<close> writes a dictionary that is
  serialised as JSON, and \<open>OrderActionPayload.from_dict\<close> of \<open>matching/worker.py\<close> reads it. The theories of the queue and of the worker use the record
  of its fields instead; here both ends are modelled on the dictionary and shown to meet in that record. A text where a
  number is expected, and something other than text where text is expected, is written by no producer.
\<close>

subsection \<open>Writing\<close>

definition order_action_dict :: "int \<Rightarrow> string \<Rightarrow> int \<Rightarrow> string \<Rightarrow> int \<Rightarrow> string \<Rightarrow> string \<Rightarrow> rat option \<Rightarrow> rat option \<Rightarrow>
    rat option \<Rightarrow> bool \<Rightarrow> rat option \<Rightarrow> rat option \<Rightarrow> int option \<Rightarrow> int option \<Rightarrow> string option \<Rightarrow> message" where
  "order_action_dict now action order_id symbol user_id side tp price stop_price quantity is_ice visible_qty hidden_qty
     parent_order_id replaces_id bulk_id =
     (let nullable = (\<lambda>x. case x of None \<Rightarrow> JNull | Some v \<Rightarrow> JNum v) in
      [(''action'', JStr action), (''order_id'', JInt order_id), (''symbol'', JStr symbol), (''user_id'', JInt user_id), (''side'', JStr side),
       (''type'', JStr tp), (''ts'', JInt (int_of_float (dmul (unix_time now) 1000)))] @
      optional ''price'' JNum price @ optional ''stop_price'' JNum stop_price @
      [(''quantity'', JNum (case quantity of None \<Rightarrow> 0 | Some q \<Rightarrow> q))] @
      (if is_ice then [(''is_iceberg'', JBool True), (''visible_qty'', nullable visible_qty), (''hidden_qty'', nullable hidden_qty)] else []) @
      optional ''parent_order_id'' JInt parent_order_id @ optional ''replaces_id'' JInt replaces_id @ optional ''bulk_id'' JStr bulk_id)"

subsection \<open>Reading\<close>

fun json_float :: "json \<Rightarrow> (exn, rat) result" where
  "json_float (JNum x) = Inr x"
| "json_float (JInt i) = Inr (rnd (of_int i))"
| "json_float (JBool b) = Inr (if b then 1 else 0)"
| "json_float (JStr s) = Inl (ValueError ''could not convert string to float'')"
| "json_float _ = Inl TypeError"

fun json_text :: "json \<Rightarrow> (exn, string) result" where
  "json_text (JStr s) = Inr s"
| "json_text _ = Inl TypeError"

definition required :: "string \<Rightarrow> (json \<Rightarrow> (exn, 'a) result) \<Rightarrow> message \<Rightarrow> (exn, 'a) result" where
  "required k f d = (case map_of d k of None \<Rightarrow> Inl (KeyError k) | Some v \<Rightarrow> f v)"

text \<open>\<open>f(d[k]) if d.get(k) else None\<close>, and the same with \<open>is not None\<close>.\<close>

definition if_truthy :: "string \<Rightarrow> (json \<Rightarrow> (exn, 'a) result) \<Rightarrow> message \<Rightarrow> (exn, 'a option) result" where
  "if_truthy k f d = (case map_of d k of None \<Rightarrow> Inr None | Some v \<Rightarrow> if json_falsy v then Inr None else map_sum id Some (f v))"

definition if_present :: "string \<Rightarrow> (json \<Rightarrow> (exn, 'a) result) \<Rightarrow> message \<Rightarrow> (exn, 'a option) result" where
  "if_present k f d = (case map_of d k of None \<Rightarrow> Inr None | Some v \<Rightarrow> if v = JNull then Inr None else map_sum id Some (f v))"

definition action_of_dict :: "message \<Rightarrow> (exn, order_action) result" where
  "action_of_dict d =
     bind_result (required ''action'' json_text d) (\<lambda>action.
     bind_result (required ''order_id'' json_int d) (\<lambda>order_id.
     bind_result (required ''symbol'' json_text d) (\<lambda>symbol.
     bind_result (required ''user_id'' json_int d) (\<lambda>user_id.
     bind_result (required ''side'' json_text d) (\<lambda>side.
     bind_result (required ''type'' json_text d) (\<lambda>tp.
     bind_result (if_present ''price'' json_float d) (\<lambda>price.
     bind_result (if_truthy ''stop_price'' json_float d) (\<lambda>stop_price.
     bind_result (required ''quantity'' json_float d) (\<lambda>quantity.
     bind_result (if_truthy ''visible_qty'' json_float d) (\<lambda>visible_qty.
     bind_result (if_truthy ''hidden_qty'' json_float d) (\<lambda>hidden_qty.
     bind_result (if_truthy ''parent_order_id'' json_int d) (\<lambda>parent_order_id.
     bind_result (if_truthy ''replaces_id'' json_int d) (\<lambda>replaces_id.
     bind_result (if_present ''bulk_id'' json_text d) (\<lambda>bulk_id.
     Inr \<lparr>a_action = action, a_order_id = order_id, a_symbol = symbol, a_user_id = user_id, a_side = side, a_type = tp, a_price = price,
       a_stop_price = stop_price, a_quantity = quantity,
       a_is_iceberg = (case map_of d ''is_iceberg'' of None \<Rightarrow> False | Some v \<Rightarrow> \<not> json_falsy v),
       a_visible_qty = visible_qty, a_hidden_qty = hidden_qty, a_parent_order_id = parent_order_id, a_replaces_id = replaces_id,
       a_bulk_id = bulk_id\<rparr>))))))))))))))"

subsection \<open>Round trip\<close>

lemma map_of_optional: "map_of (optional k f v @ d) k' = (if k' = k \<and> v \<noteq> None then map_option f v else map_of d k')"
  by (cases v) (auto simp: optional_def)

lemma decode_order_action:
  "action_of_dict (order_action_dict now action order_id symbol user_id side tp price stop_price quantity is_ice visible_qty hidden_qty
     parent_order_id replaces_id bulk_id) =
   Inr (from_dict (build_order_action_payload action order_id symbol user_id side tp price stop_price quantity is_ice visible_qty hidden_qty
     parent_order_id replaces_id bulk_id))"
proof -
  let ?d = "order_action_dict now action order_id symbol user_id side tp price stop_price quantity is_ice visible_qty hidden_qty
     parent_order_id replaces_id bulk_id"
  have d: "map_of ?d ''action'' = Some (JStr action)" "map_of ?d ''order_id'' = Some (JInt order_id)" "map_of ?d ''symbol'' = Some (JStr symbol)"
    "map_of ?d ''user_id'' = Some (JInt user_id)" "map_of ?d ''side'' = Some (JStr side)" "map_of ?d ''type'' = Some (JStr tp)"
    "map_of ?d ''price'' = map_option JNum price" "map_of ?d ''stop_price'' = map_option JNum stop_price"
    "map_of ?d ''quantity'' = Some (JNum (case quantity of None \<Rightarrow> 0 | Some q \<Rightarrow> q))"
    "map_of ?d ''is_iceberg'' = (if is_ice then Some (JBool True) else None)"
    "map_of ?d ''visible_qty'' = (if is_ice then Some (case visible_qty of None \<Rightarrow> JNull | Some v \<Rightarrow> JNum v) else None)"
    "map_of ?d ''hidden_qty'' = (if is_ice then Some (case hidden_qty of None \<Rightarrow> JNull | Some v \<Rightarrow> JNum v) else None)"
    "map_of ?d ''parent_order_id'' = map_option JInt parent_order_id" "map_of ?d ''replaces_id'' = map_option JInt replaces_id"
    "map_of ?d ''bulk_id'' = map_option JStr bulk_id"
    by (simp_all add: order_action_dict_def map_of_optional Let_def) (auto simp: optional_def split: option.split)
  show ?thesis
    unfolding action_of_dict_def required_def if_truthy_def if_present_def d build_order_action_payload_def from_dict_def
    by (auto simp: bind_result_def truthy_def truthy_int_def split: option.split)
qed

text \<open>
  C20. The worker reads what the services wrote: for every action, decoding the dictionary that \<open>build_order_action_payload\<close> writes
  succeeds and gives exactly the payload the worker processes, with falsy stop prices, iceberg quantities and references
  dropped and a missing quantity read as zero.
\<close>

theorem order_action_roundtrip:
  "action_of_dict (order_action_dict now action order_id symbol user_id side tp price stop_price quantity is_ice visible_qty hidden_qty
     parent_order_id replaces_id bulk_id) =
   Inr (from_dict (build_order_action_payload action order_id symbol user_id side tp price stop_price quantity is_ice visible_qty hidden_qty
     parent_order_id replaces_id bulk_id))"
  by (rule decode_order_action)

end
