(* ===== verification/Second_Copy.thy ===== *)
theory Second_Copy
  imports Payloads Lifecycle
begin

section \<open>The second copy of the backend\<close>

text \<open>
  The repository holds a second backend under \<open>src/frontend/backend\<close>. All but seven of its files are those modelled in the
  other theories, byte for byte. The operations that differ are modelled here, under the prefix \<open>copy\<close>, from \<open>services/order_service.py\<close>,
  \<open>services/trade_service.py\<close>, \<open>services/stop_monitor_service.py\<close>, \<open>matching/worker.py\<close> and \<open>redis_client/queues.py\<close> of the copy, and compared with
  those of the backend: each difference is a defect that only the copy has.
\<close>

subsection \<open>Locks of market buys\<close>

definition copy_compute_market_buy_lock :: "'s redis_ops \<Rightarrow> order_create_dto \<Rightarrow> trading_pair \<Rightarrow> ('s, string \<times> rat) world_prog" where
  "copy_compute_market_buy_lock R dto pair =
     bindP (redP (get_best_ask R (dto_symbol dto))) (\<lambda>best_ask. case best_ask of
       None \<Rightarrow> raiseP (OrderValidationError ''Cannot place MARKET BUY: no asks available'')
     | Some (price, _) \<Rightarrow> (let worst_price = dec_of_float price; buffer = worst_price * (101 / 100) in
         retP (p_quote_asset pair, buffer * dto_quantity dto)))"

definition copy_stop_lock :: "'s redis_ops \<Rightarrow> order \<Rightarrow> trading_pair \<Rightarrow> ('s, (string \<times> rat) option) world_prog" where
  "copy_stop_lock R order pair =
     (if o_side order = SELL then retP (Some (p_base_asset pair, o_quantity order))
      else case (child_type order, child_price order) of
        (LIMIT, Some p) \<Rightarrow> retP (Some (p_quote_asset pair, p * o_quantity order))
      | _ \<Rightarrow>
         bindP (redP (get_best_ask R (o_symbol order))) (\<lambda>best_ask. case best_ask of
           None \<Rightarrow> retP None
         | Some (price, _) \<Rightarrow> (let worst_price = dec_of_float price * (101 / 100) in
             retP (Some (p_quote_asset pair, worst_price * o_quantity order)))))"

subsection \<open>Cancel\<close>

text \<open>The unlock of \<open>cancel_order\<close>.\<close>

definition copy_release_locked :: "interference \<Rightarrow> int \<Rightarrow> string \<Rightarrow> rat \<Rightarrow> unit balance_prog" where
  "copy_release_locked env user_id unlock_asset unlock_amount =
     bindP (unlock_optimistic env user_id unlock_asset unlock_amount) (\<lambda>_. retP ())"

subsection \<open>Makers in the book\<close>

definition copy_update_redis_maker :: "'s redis_ops \<Rightarrow> order \<Rightarrow> ('s, unit) world_prog" where
  "copy_update_redis_maker R mo =
     (if o_status mo = FILLED then
        seqP (redP (remove_resting_order R (o_id mo) (o_symbol mo) (side_value (o_side mo))))
       (seqP (redP (delete_order_hash R (o_id mo)))
        (redP (remove_open_order R (o_user_id mo) (o_symbol mo) (o_id mo))))
      else redP (update_order_hash_fields R (o_id mo)
        [(''filled_quantity'', HNum (o_filled_quantity mo)), (''status'', HStr (status_value (o_status mo)))]))"

subsection \<open>Payloads\<close>

definition copy_order_action_dict :: "int \<Rightarrow> string \<Rightarrow> int \<Rightarrow> string \<Rightarrow> int \<Rightarrow> string \<Rightarrow> string \<Rightarrow> rat option \<Rightarrow> rat option \<Rightarrow>
    rat option \<Rightarrow> bool \<Rightarrow> rat option \<Rightarrow> rat option \<Rightarrow> int option \<Rightarrow> int option \<Rightarrow> string option \<Rightarrow> message" where
  "copy_order_action_dict now action order_id symbol user_id side tp price stop_price quantity is_ice visible_qty hidden_qty
     parent_order_id replaces_id bulk_id =
     (let nullable = (\<lambda>x. case x of None \<Rightarrow> JNull | Some v \<Rightarrow> JNum v) in
      [(''action'', JStr action), (''order_id'', JInt order_id), (''symbol'', JStr symbol), (''user_id'', JInt user_id), (''side'', JStr side),
       (''type'', JStr tp), (''ts'', JInt (int_of_float (dmul (unix_time now) 1000)))] @
      optional ''price'' JNum price @ optional ''stop_price'' JNum stop_price @ optional ''quantity'' JNum quantity @
      (if is_ice then [(''is_iceberg'', JBool True), (''visible_qty'', nullable visible_qty), (''hidden_qty'', nullable hidden_qty)] else []) @
      optional ''parent_order_id'' JInt parent_order_id @ optional ''replaces_id'' JInt replaces_id @ optional ''bulk_id'' JStr bulk_id)"

subsection \<open>After a match\<close>

definition copy_settle_leftover :: "'s redis_ops \<Rightarrow> order_action \<Rightarrow> rat \<Rightarrow> ('s, unit) world_prog" where
  "copy_settle_leftover R payload remaining =
     (if rests payload remaining then insert_resting_taker R payload remaining
      else if a_type payload = ''market'' \<and> a_side payload = ''buy'' then refund_market_buy_leftover payload
      else retP ())"

subsection \<open>The stop monitor\<close>

definition copy_monitor_start :: "'s redis_ops \<Rightarrow> interference \<Rightarrow> string list \<Rightarrow> ('s, unit) monitor_prog" where
  "copy_monitor_start R env symbols =
     seqP (modP (\<lambda>(mo, w). (fold spawn symbols (mo\<lparr>mo_running := True\<rparr>), w)))
      (worldP (rescan_pending_stops R env symbols))"

definition copy_monitor_stop :: "monitor \<Rightarrow> monitor" where
  "copy_monitor_stop mo = mo\<lparr>mo_running := False, mo_tasks := []\<rparr>"

subsection \<open>What the differences mean\<close>

text \<open>
  The lock of a market buy. Both versions read the same book and change nothing; the backend locks what walking the asks
  costs and a tenth of a percent more, the copy the price of the best ask for the whole quantity and one percent more,
  whatever the other asks cost.
\<close>

theorem market_buy_locks:
  assumes "get_best_ask R (dto_symbol dto) (w_redis w) = (Inr (Some (price, i)), w_redis w)"
    and "get_opposite_orders_for_match R (dto_symbol dto) ''buy'' 1000 (w_redis w) = (Inr asks, w_redis w)"
    and "asks \<noteq> []" and "walk_asks asks (dto_quantity dto) 0 = (rest, cost)" and "rest \<le> 0"
  shows "compute_market_buy_lock R dto pair w = (Inr (p_quote_asset pair, cost * (1001 / 1000)), w)"
    and "copy_compute_market_buy_lock R dto pair w = (Inr (p_quote_asset pair, dec_of_float price * (101 / 100) * dto_quantity dto), w)"
  using assms
  by (simp_all add: compute_market_buy_lock_def copy_compute_market_buy_lock_def bindP_def redP_def retP_def Let_def)

text \<open>Two asks of 1 at 100 and at 300.\<close>

definition thin_book :: mem_state where
  "thin_book = empty_redis\<lparr>m_zsets := (\<lambda>k. if k = asks_key ''BTC/USDT'' then [(''1'', 1000000000001), (''2'', 3000000000002)] else []),
     m_hashes := (\<lambda>k. if k = order_hash_key 1 \<or> k = order_hash_key 2 then [(''side'', HStr ''sell''), (''quantity'', HNum 1)] else [])\<rparr>"

definition market_buy :: "rat \<Rightarrow> order_create_dto" where
  "market_buy quantity = (limit_buy 0 quantity)\<lparr>dto_type := ''market'', dto_price := None\<rparr>"

text \<open>
  So the lock of the copy can miss the cost, although its worker says that it never does: buying 2 from asks of 1 at 100 and 1 at 300 costs
  400 and the copy locks 202.
\<close>

theorem copy_lock_misses_cost:
  "fst (copy_compute_market_buy_lock mem_redis (market_buy 2) btc_usdt (market Map.empty [] thin_book)) = Inr (''USDT'', 202)"
  "fst (compute_market_buy_lock mem_redis (market_buy 2) btc_usdt (market Map.empty [] thin_book)) = Inr (''USDT'', 400 + 4 / 10)"
  by code_simp+

text \<open>
  Releasing the lock of a canceled order when less is locked than the order accounts for, as it happens after a refund: the backend releases what is
  there, and the copy fails after three attempts, so that the order cannot be canceled.
\<close>

theorem copy_cancel_needs_full_lock:
  assumes "t (u, a) = Some b" and "row_ok (u, a) b" and "0 < locked_balance b" and "locked_balance b < x"
  shows "copy_release_locked quiet u a x t = (Inl (BalanceVersionConflict u a 3), t)"
    and "release_locked u a x t = (Inr (), t((u, a) \<mapsto> b\<lparr>locked_balance := 0,
      available_balance := available_balance b + locked_balance b, b_version := b_version b + 1\<rparr>))"
proof -
  show "copy_release_locked quiet u a x t = (Inl (BalanceVersionConflict u a 3), t)"
    using unlock_optimistic_quiet [of x t u a b] assms by (simp add: copy_release_locked_def bindP_def)
  have ok: "balance_ok b" using assms(2) by (simp add: row_ok_def)
  have "repo_unlock_pessimistic b (locked_balance b) = Inr (b\<lparr>total_balance := total_balance b, locked_balance := 0,
      available_balance := available_balance b + locked_balance b, b_version := b_version b + 1\<rparr>)"
    using unlock_op.runs [OF ok, of "locked_balance b"] assms(3) by simp
  moreover have "row_ok (u, a) (b\<lparr>locked_balance := 0, available_balance := available_balance b + locked_balance b, b_version := b_version b + 1\<rparr>)"
    using assms(2) by (auto simp: row_ok_def balance_ok_def)
  moreover have "min x (locked_balance b) = locked_balance b" using assms(4) by simp
  ultimately show "release_locked u a x t = (Inr (), t((u, a) \<mapsto> b\<lparr>locked_balance := 0,
      available_balance := available_balance b + locked_balance b, b_version := b_version b + 1\<rparr>))"
    using assms(1,3) by (simp add: release_locked_def get_for_update_def unlock_pessimistic_def flush_row_def store_row prog_defs Let_def)
qed

text \<open>
  A partly filled maker in the book: the backend leaves the remaining quantity in its hash, which is what the next match
  can take, and the copy leaves whatever quantity was there.
\<close>

theorem partial_fill_quantity:
  assumes "redis_server R view" and "o_status mo \<noteq> FILLED"
  shows "\<exists>w1. update_redis_maker R mo w = (Inr (), w1) \<and>
      hashes (view (w_redis w1)) (order_hash_key (o_id mo)) ''quantity'' = Some (HNum (remaining_quantity mo))"
    and "\<exists>w1. copy_update_redis_maker R mo w = (Inr (), w1) \<and>
      hashes (view (w_redis w1)) (order_hash_key (o_id mo)) ''quantity'' = hashes (view (w_redis w)) (order_hash_key (o_id mo)) ''quantity''"
  using assms(2)
  by (simp_all add: update_redis_maker_def copy_update_redis_maker_def update_order_hash_fields_def redP_def modP_def Let_def
      redis_server.hset [OF assms(1)] h_update_def remaining_quantity_def)

text \<open>
  The actions of the copy decode to the same payload when they have a quantity; its cancel actions have none, so the worker cannot decode them.
\<close>

theorem copy_payloads:
  "action_of_dict (copy_order_action_dict now action order_id symbol user_id side tp price stop_price (Some q) is_ice visible_qty hidden_qty
     parent_order_id replaces_id bulk_id) =
   Inr (from_dict (build_order_action_payload action order_id symbol user_id side tp price stop_price (Some q) is_ice visible_qty hidden_qty
     parent_order_id replaces_id bulk_id))"
  "action_of_dict (copy_order_action_dict now ''cancel'' order_id symbol user_id side tp None None None False None None None None None) =
   Inl (KeyError ''quantity'')"
proof -
  have "copy_order_action_dict now action order_id symbol user_id side tp price stop_price (Some q) is_ice visible_qty hidden_qty
      parent_order_id replaces_id bulk_id = order_action_dict now action order_id symbol user_id side tp price stop_price (Some q) is_ice
      visible_qty hidden_qty parent_order_id replaces_id bulk_id"
    by (simp add: copy_order_action_dict_def order_action_dict_def optional_def)
  then show "action_of_dict (copy_order_action_dict now action order_id symbol user_id side tp price stop_price (Some q) is_ice visible_qty hidden_qty
     parent_order_id replaces_id bulk_id) =
   Inr (from_dict (build_order_action_payload action order_id symbol user_id side tp price stop_price (Some q) is_ice visible_qty hidden_qty
     parent_order_id replaces_id bulk_id))"
    by (simp add: decode_order_action)
  show "action_of_dict (copy_order_action_dict now ''cancel'' order_id symbol user_id side tp None None None False None None None None None) =
   Inl (KeyError ''quantity'')"
    by (simp add: action_of_dict_def copy_order_action_dict_def optional_def required_def if_present_def if_truthy_def)
qed

text \<open>
  A limit buy that was filled at better prices than its limit leaves a part of its lock; the backend gives it back and the copy does not.
\<close>

theorem copy_keeps_price_improvement:
  assumes "find (\<lambda>p. p_symbol p = a_symbol payload) (w_pairs w) = Some pair" and "a_type payload = ''limit''" and "a_side payload = ''buy''"
    and "w_balances w (a_user_id payload, p_quote_asset pair) = Some b" and "0 < locked_balance b" and "ledger_ok (w_balances w)"
  shows "copy_settle_leftover R payload 0 w = (Inr (), w)"
    and "\<exists>w1 b1. settle_leftover R payload 0 w = (Inr (), w1) \<and> w_balances w1 (a_user_id payload, p_quote_asset pair) = Some b1 \<and> locked_balance b1 = 0"
  using assms(2,3) refund_runs [OF assms(1,4,5) ledger_okD [OF assms(6,4)]]
  by (simp_all add: copy_settle_leftover_def settle_leftover_def rests_def refunds_def retP_def)

text \<open>The monitor of the copy watches the symbols it was started with, once each, and never another one: it has no refresh.\<close>

theorem copy_watches_initial_symbols:
  "\<exists>w1. copy_monitor_start R env symbols (new_monitor, w) = (Inr (), (fold spawn symbols (new_monitor\<lparr>mo_running := True\<rparr>), w1))"
  "set (mo_tasks (fold spawn symbols (new_monitor\<lparr>mo_running := True\<rparr>))) = set symbols"
  "periodic_refresh R env (fold spawn symbols (new_monitor\<lparr>mo_running := True\<rparr>), w) = (Inr (), (fold spawn symbols (new_monitor\<lparr>mo_running := True\<rparr>), w))"
proof -
  show "\<exists>w1. copy_monitor_start R env symbols (new_monitor, w) = (Inr (), (fold spawn symbols (new_monitor\<lparr>mo_running := True\<rparr>), w1))"
    using rescan_run [of R env symbols w] by (auto simp: copy_monitor_start_def prog_defs worldP_def split: prod.split)
  show "set (mo_tasks (fold spawn symbols (new_monitor\<lparr>mo_running := True\<rparr>))) = set symbols" by (simp add: spawn_all new_monitor_def)
  show "periodic_refresh R env (fold spawn symbols (new_monitor\<lparr>mo_running := True\<rparr>), w) = (Inr (), (fold spawn symbols (new_monitor\<lparr>mo_running := True\<rparr>), w))"
    by (rule refresh_off) (simp add: spawn_all new_monitor_def)
qed

end
