(* ===== verification/Spec2Isabelle.thy ===== *)
theory Spec2Isabelle
  imports Matching_Spec Rate_Limit Stop_Monitor Market_Data Schema Connections Subscribers Events Second_Copy
begin

text \<open>
  \<^bold>\<open>A crypto exchange backend: accounts, orders, matching, balances, market data.\<close>

  The repository is a spot exchange. A FastAPI backend (\<open>src/backend/app\<close>) accepts orders over HTTP, locks funds in
  PostgreSQL, and hands the orders to a matching worker through a Redis list. The worker loads the opposite side of the book
  from Redis, matches with a Cython engine, and persists trades, fills and balance changes in one database transaction. A stop
  monitor listens to trade prints and turns waiting stop orders into market or limit orders. A WebSocket gateway forwards
  what is published in Redis to market and private connections, and an admin area manages users, keys, balances and pairs.
  This development models that backend; source paths below are relative to \<open>src/backend/app\<close>.

  \<^bold>\<open>How the parts interact.\<close> A signed request is authenticated by its API key (\<open>api/deps.py\<close>), counted by
  the rate limiter, checked for the permission of its route and validated. Then it runs \<open>OrderService.place_order\<close>: validate against the pair, compute and lock the
  amount, insert the row, push a \<open>place\<close> action, index the order. The worker pops actions one at a time; a \<open>place\<close> action
  goes through loading, matching, \<open>TradeService.persist_trade_batch\<close>, and then the rest of the order is put in the book or
  its leftover lock is refunded. Cancel and modify are done by the order service, the worker only acknowledges them.
  Everything that moves money goes through the balance repository and service. Redis is not transactional with the database:
  an exception rolls the tables back and leaves what was written to Redis.

  \<^bold>\<open>Foundations.\<close>
  \<^item> \<open>Prelude\<close>: results with exceptions as values, programs (state, exceptions kept on both exits, \<open>tryP\<close>, \<open>forP\<close>,
    \<open>atomicP\<close>), the \<open>preserves\<close> calculus for invariants and frames, sums over finite maps.
  \<^item> \<open>Numerics\<close>: doubles as the rationals they denote, every operation followed by \<open>rnd\<close> (round to nearest, ties to
    even, 53 bits); \<open>dec_of_float\<close> is \<open>Decimal(str(x))\<close>; \<open>numeric18\<close> is the rounding of a \<open>Numeric(36, 18)\<close>
    column. Exponent overflow and subnormals do not occur for the magnitudes the code admits and are not modelled.
  \<^item> \<open>Text_Ops\<close>: what the code uses of Python's \<open>str\<close> (\<open>strip\<close>, \<open>upper\<close>, \<open>split\<close>, \<open>int\<close>, encoding).
  \<^item> \<open>Domain\<close>: the enums and rows of \<open>models/\<close> with their derived properties, and the exceptions of all layers.

  \<^bold>\<open>Money.\<close> \<open>Balances\<close> models \<open>repositories/balance_repo.py\<close> and \<open>services/balance_service.py\<close>: guarded updates
  with a version column, the optimistic operations with their bounded retries (three attempts) under arbitrary commits of
  other sessions between any two statements (\<open>interference\<close>), the pessimistic operations on a held row, trade
  settlement and admin adjustment. The locale \<open>balance_op\<close> is the contract of one row operation, interpreted for lock,
  unlock, settle and credit. Shown: the invariant total = locked + available with both parts non-negative in every
  reachable ledger, no lost updates, optimistic = pessimistic, conservation by settlement, and how an amount beyond eighteen
  decimals breaks the invariant.

  \<^bold>\<open>Matching.\<close>
  \<^item> \<open>Engine\<close>: \<open>matching/engine.pyx\<close>, its sorted levels, node queues, binary search, iceberg refills, the fixed trade
    buffer of 1024 and pool of 100000 nodes. The loop over a level is a \<open>function\<close> with a termination proof. Shown: the
    state invariant, soundness of trades, the book left uncrossed, post-only behaviour, binary search = presence, and a bound
    on the turns of the loop.
  \<^item> \<open>Matching_Spec\<close>: an abstract price-time priority queue and the refinement of the loop to it, conservation of
    quantity, all-or-nothing for fill-or-kill, the position of a resting order, cancel after add.
  \<^item> \<open>Bridge\<close>: \<open>matching/_bridge.py\<close>, the conversions around the engine; a rejecting outcome means no trades.

  \<^bold>\<open>Redis.\<close> The server is outside the repository: its commands are a record of operations on a server state of any
  type, and the locale \<open>redis_server\<close> (theory \<open>Redis\<close>) states their documented effect on sorted sets, hashes, sets, lists
  and counters. It is interpreted on an in-memory server that the examples run on.
  \<^item> \<open>Orderbook\<close>: \<open>redis_client/orderbook.py\<close>; score encoding is exact and order preserving below \<open>2 ^ 53\<close>, asks load in
    price-time order, bids newest first at equal prices.
  \<^item> \<open>Orders_Index\<close>: \<open>redis_client/orders_index.py\<close>; the index sets are projections of one relation, and what clearing the indexes of
    a user leaves.
  \<^item> \<open>Queues\<close>: \<open>redis_client/queues.py\<close>; first in, first out.
  \<^item> \<open>Stops\<close>: \<open>redis_client/stops.py\<close>; trailing triggers are ratchets, every stop is reported for every price.
  \<^item> \<open>Rate_Limit\<close>: \<open>redis_client/rate_limit.py\<close>; the sliding window admits at most the limit, and waiting as advised helps.

  \<^bold>\<open>The schema.\<close> \<open>Schema\<close> models the migration \<open>src/backend/alembic/versions/0001_initial.py\<close> and the table metadata of \<open>models/\<close>. The operations of
  Alembic are a parameter; the locale \<open>ddl_server\<close> says that they act on the catalog of the database as PostgreSQL documents. Shown: upgrade and
  downgrade keep a schema well formed, are inverse to each other and can be resumed, the migration creates what the models
  declare, and which validated texts fit their columns. The other theories take values to fit their columns but for the
  rounding of \<open>Numeric(36, 18)\<close>.

  \<^bold>\<open>Services.\<close>
  \<^item> \<open>World\<close>: the state they share (tables with their sequences, Redis, the monitor's price extremes, the clock \<open>w_now\<close> in
    microseconds), transactions, and the order, pair and trade repositories.
  \<^item> \<open>Order_Service\<close>: \<open>services/order_service.py\<close>, every operation; placing locks exactly the computed amount and queues
    one action, canceling a placed order restores all funds, a bulk request is placed completely or leaves no trace.
  \<^item> \<open>Trade_Service\<close>: \<open>services/trade_service.py\<close>; a batch fills each order by exactly its trades and conserves every
    asset when the receivers have rows, and burns the payment when one has none.
  \<^item> \<open>Worker\<close>: \<open>matching/worker.py\<close>; processing an order conserves every asset end to end, the loop takes every item once in
    order and dead-letters failures; and the properties of the refund, rejections, modified orders and resting quantities
    that differ from what the comments in the code promise.
  \<^item> \<open>Payloads\<close>: the dictionaries that travel through \<open>queue:orders\<close>; the worker reads exactly what the services wrote.
  \<^item> \<open>Connections\<close>: \<open>redis_client/client.py\<close> and the connection handling of \<open>matching/worker.py\<close> as a state machine. Shown: one client per process,
    one connection per worker, waiting for the server ends, a connection that drops while the worker waits costs
    nothing, and one that drops while an action is processed loses the action.
  \<^item> \<open>Stop_Monitor\<close>: triggering in \<open>services/stop_monitor_service.py\<close>; a stop fires once, and fires on any print.

  \<^bold>\<open>Accounts and endpoints.\<close>
  \<^item> \<open>Accounts\<close>: \<open>repositories/base.py\<close> as operations on a table with unique columns and a sequence; the locale \<open>repository\<close> is
    the contract of the generic operations, interpreted for users, API keys and pairs; \<open>user_repo.py\<close> and \<open>api_key_repo.py\<close>.
    \<open>accounts_ok\<close> is the invariant of these tables.
  \<^item> \<open>Auth\<close>: \<open>core/security.py\<close>, \<open>core/rate_limit.py\<close>, \<open>api/deps.py\<close>, \<open>api/v1/auth.py\<close> and \<open>api/admin/auth.py\<close>. SHA-256, HMAC, bcrypt and
    JWT are fields of the record \<open>crypto\<close>; the theorems that need more than its type say so (\<open>hex_digests\<close>,
    \<open>jwt_roundtrip\<close>), random tokens are arguments. Shown: exactly which requests are admitted, that a login gives working
    credentials, and how deactivated users and users with two keys are treated.
  \<^item> \<open>Admin\<close>: \<open>services/admin_service.py\<close>, the endpoints of \<open>api/admin\<close>, error answers, \<open>db/seed.py\<close>; the invariant under all
    account operations, revocation, idempotent seeding, credit and debit, closed markets.
  \<^item> \<open>Http_Orders\<close>: \<open>schemas/order.py\<close> and \<open>api/v1/orders.py\<close>; what validation guarantees, the answers of the order endpoint,
    bulk requests all or nothing, no order without a key that may trade, and the fields and the route without effect.
  \<^item> \<open>Market_Data\<close>: \<open>api/v1/trades.py\<close>, \<open>api/v1/balance.py\<close>, \<open>api/v1/pairs.py\<close>; the candle loop equals grouping by interval.

  \<^bold>\<open>Events.\<close>
  \<^item> \<open>Pubsub\<close>: the channels and messages of \<open>redis_client/pubsub.py\<close>, and the emulator of \<open>api/admin/emulator.py\<close>.
  \<^item> \<open>Ws\<close>: \<open>ws/manager.py\<close>, \<open>ws/private.py\<close>, \<open>ws/public.py\<close> as a gateway whose reachable states (\<open>reachable\<close>) are closed under opening and
    closing connections, publishing, starting and stopping. Shown: private events reach only connections of their user,
    who is let in, clean registries, and how many copies of an event a connection gets.
  \<^item> \<open>Lifecycle\<close>: the hooks of \<open>main.py\<close>, the tasks of the stop monitor and \<open>iter_messages\<close>: what a published message does to gateway and
    monitor together. Shown: the refresh loop comes to watch every active pair unless none was active at start-up, and any
    trade message fires a waiting sell stop.
  \<^item> \<open>Subscribers\<close>: the loops of the gateway and the monitor that listen to Redis, with \<open>subscribe\<close> and \<open>unsubscribe\<close>. The locale \<open>subscriber_task\<close> has what they
    share and is interpreted for the public, the private and the monitor task. Shown: a connected task handles every message in order, has one
    connection, does nothing once stopped, and never sees what was published while it was cut off.
  \<^item> \<open>Events\<close>: what the services publish. The programs of the services leave publishing out, since it changes nothing they
    store; \<open>notice\<close> has a constructor for every place in the code that publishes, and \<open>notice_event\<close> its channel and message. Shown: a notice
    about a user reaches only connections of that user, the fills a batch announces are the rows it stored, its prints are what the
    stop monitor processes, and market data name no user. The messages of the gateway itself are here too.

  \<^bold>\<open>The second copy.\<close> \<open>Second_Copy\<close> models the operations in which the backend under \<open>src/frontend/backend\<close> differs. Its files are those of
  \<open>src/backend\<close>, byte for byte, but for seven earlier versions; the theorems compare the operations of five of them with the current ones.

  \<^bold>\<open>Bounds and fuel.\<close> \<open>drain\<close> and \<open>run_worker\<close> take a number of rounds; the theorems use the length of the queue, which is
  enough to take every item. \<open>MAX_OPTIMISTIC_RETRIES\<close> is the bound of the code. Properties of the engine that exclude the
  overflow of the trade buffer assume \<open>fits_buffer\<close>: at most 1024 trades can come out of the makers.
  \<open>level_loop\<close> counts turns; its theorem says how many are enough.

  \<^bold>\<open>Examples.\<close> \<open>market\<close>, \<open>crossed\<close>, \<open>booked\<close>, \<open>two_queued\<close>, \<open>armed\<close>, \<open>armed_site\<close>, \<open>thin_book\<close>, \<open>accounts\<close>, \<open>traded\<close> and \<open>demo_events\<close> are small exchanges on which the
  theorems with hypotheses are applied; \<open>demo_crypto\<close> is a concrete \<open>crypto\<close>.

  \<^bold>\<open>Not modelled.\<close> The text form of JSON, the wiring of the FastAPI application, CORS, the connection and log settings, creation and
  update times: they have no behaviour of their own, or that of a library. Commands
  of a Redis pipeline run one after the other, and a publisher that fails is not told apart from one that succeeds. Of the second
  copy, the two WebSocket handlers differ only in how they poll and in which failing sends they swallow.
\<close>

end
